(* ===== verification/Prelude.thy ===== *)
theory Prelude
  imports Main
begin

section \<open>Shared notions of the bridge model\<close>

text \<open>
  What every component uses: Python's exceptions as values, fallible pure functions as a
  sum type, effectful functions as programs of atomic steps, and the two ways of reasoning
  about such a program: running it alone (\<open>run\<close>) and following it through a monitor
  while other threads change the world between its steps (\<open>conforms\<close>).
\<close>

subsection \<open>Exceptions and fallible pure functions\<close>

text \<open>
  The exceptions the modelled code can raise. \<open>SdkError\<close> is an exception that comes out
  of a call into the MetaTrader5 package, \<open>IntegrityError\<close> is \<open>sqlite3.IntegrityError\<close>.
\<close>

datatype py_error =
    TypeError
  | ValueError
  | OverflowError
  | ZeroDivisionError
  | AttributeError
  | IntegrityError
  | SdkError string

type_synonym 'a result = "py_error + 'a"

definition bindE :: "'e + 'a \<Rightarrow> ('a \<Rightarrow> 'e + 'b) \<Rightarrow> 'e + 'b" where
  "bindE m k = (case m of Inr a \<Rightarrow> k a | Inl e \<Rightarrow> Inl e)"

lemma bindE_simps [simp]:
  "bindE (Inl e) k = Inl e"
  "bindE (Inr a) k = k a"
  by (simp_all add: bindE_def)

lemma bindE_eq_Inr: "bindE m k = Inr b \<longleftrightarrow> (\<exists>a. m = Inr a \<and> k a = Inr b)"
  by (cases m) auto

lemma bindE_eq_Inl: "bindE m k = Inl e \<longleftrightarrow> m = Inl e \<or> (\<exists>a. m = Inr a \<and> k a = Inl e)"
  by (cases m) auto

lemma bindE_assoc: "bindE (bindE m k) h = bindE m (\<lambda>a. bindE (k a) h)"
  by (cases m) auto

subsection \<open>Programs of atomic steps\<close>

text \<open>
  A method that touches shared state is a tree of atomic steps. One \<open>Atomic\<close> node is one
  indivisible access: a database transaction (the code takes the lock and a transaction), one
  call into the SDK, one read or write of an attribute of a shared object, one reading of the
  clock. Between two nodes another thread may run. An exception is \<open>Throw\<close>; the effects of
  the steps before it stay.
\<close>

datatype ('w, 'a) prog =
    Ret 'a
  | Throw py_error
  | Atomic "'w \<Rightarrow> ('w, 'a) prog \<times> 'w"

lemma prog_induct [case_names Ret Throw Atomic, induct type: prog]:
  assumes "\<And>a. P (Ret a)" and "\<And>e. P (Throw e)"
    and "\<And>f. (\<And>w. P (fst (f w))) \<Longrightarrow> P (Atomic f)"
  shows "P p"
proof (induction p rule: prog.induct)
  case (Atomic f)
  have "P (fst (f w))" for w
    by (rule Atomic [of "f w"]) (auto intro: fsts.intros)
  then show ?case by (rule assms(3))
qed (use assms in auto)

primrec bindP :: "('w, 'a) prog \<Rightarrow> ('a \<Rightarrow> ('w, 'b) prog) \<Rightarrow> ('w, 'b) prog" where
  "bindP (Ret a) k = k a"
| "bindP (Throw e) k = Throw e"
| "bindP (Atomic f) k = Atomic (map_prod (\<lambda>p. bindP p k) id \<circ> f)"

text \<open>A pure fallible computation, and the \<open>try ... except\<close> of the code.\<close>

definition liftE :: "'a result \<Rightarrow> ('w, 'a) prog" where
  "liftE r = (case r of Inl e \<Rightarrow> Throw e | Inr a \<Rightarrow> Ret a)"

primrec catchP :: "('w, 'a) prog \<Rightarrow> (py_error \<Rightarrow> ('w, 'a) prog) \<Rightarrow> ('w, 'a) prog" where
  "catchP (Ret a) h = Ret a"
| "catchP (Throw e) h = h e"
| "catchP (Atomic f) h = Atomic (map_prod (\<lambda>p. catchP p h) id \<circ> f)"

lemma liftE_simps [simp]:
  "liftE (Inl e) = Throw e"
  "liftE (Inr a) = Ret a"
  by (simp_all add: liftE_def)

text \<open>One atomic step whose answer is a value or an exception.\<close>

definition atomically :: "('w \<Rightarrow> 'a result \<times> 'w) \<Rightarrow> ('w, 'a) prog" where
  "atomically f = Atomic (\<lambda>w. map_prod liftE id (f w))"

definition gets :: "('w \<Rightarrow> 'a) \<Rightarrow> ('w, 'a) prog" where
  "gets g = atomically (\<lambda>w. (Inr (g w), w))"

definition modify :: "('w \<Rightarrow> 'w) \<Rightarrow> ('w, unit) prog" where
  "modify g = atomically (\<lambda>w. (Inr (), g w))"

lemma bindP_assoc: "bindP (bindP m k) h = bindP m (\<lambda>a. bindP (k a) h)"
  by (induction m) (auto simp: fun_eq_iff prod_eq_iff)

lemma bindP_Ret [simp]: "bindP m Ret = m"
  by (induction m) (auto simp: fun_eq_iff prod_eq_iff)

subsection \<open>Running a program alone\<close>

primrec run :: "('w, 'a) prog \<Rightarrow> 'w \<Rightarrow> 'a result \<times> 'w" where
  "run (Ret a) = (\<lambda>w. (Inr a, w))"
| "run (Throw e) = (\<lambda>w. (Inl e, w))"
| "run (Atomic f) = (\<lambda>w. case map_prod run id (f w) of (r, w') \<Rightarrow> r w')"

lemma run_Atomic: "run (Atomic f) w = run (fst (f w)) (snd (f w))"
  by (simp add: case_prod_beta)

lemma run_bindP:
  "run (bindP m k) w = (case run m w of (Inl e, w') \<Rightarrow> (Inl e, w') | (Inr a, w') \<Rightarrow> run (k a) w')"
proof (induction m arbitrary: w)
  case (Atomic f)
  then show ?case by (simp add: case_prod_beta)
qed auto

lemma run_catchP:
  "run (catchP m h) w = (case run m w of (Inl e, w') \<Rightarrow> run (h e) w' | (Inr a, w') \<Rightarrow> (Inr a, w'))"
proof (induction m arbitrary: w)
  case (Atomic f)
  then show ?case by (simp add: case_prod_beta)
qed auto

lemma run_liftE: "run (liftE r) w = (r, w)"
  by (cases r) auto

lemma run_atomically: "run (atomically f) w = f w"
  by (simp add: atomically_def case_prod_beta run_liftE)

lemma run_gets: "run (gets g) w = (Inr (g w), w)"
  by (simp add: gets_def run_atomically)

lemma run_modify: "run (modify g) w = (Inr (), g w)"
  by (simp add: modify_def run_atomically)

lemmas run_simps = run_bindP run_catchP run_liftE run_atomically run_gets run_modify

declare run.simps(3) [simp del]

subsection \<open>Following a program through a monitor\<close>

text \<open>
  \<open>conforms R p Q r\<close>: whatever other threads do to the world between the steps of \<open>p\<close>,
  every atomic step of \<open>p\<close> is one the monitor \<open>R\<close> allows from its current state, starting
  with monitor state \<open>r\<close>, and if \<open>p\<close> ends, its answer and the monitor's last state satisfy
  \<open>Q\<close>. Interference is in the quantifier: each step is taken from an arbitrary world.
\<close>

primrec conforms ::
  "('r \<Rightarrow> 'w \<Rightarrow> 'w \<Rightarrow> 'r \<Rightarrow> bool) \<Rightarrow> ('w, 'a) prog \<Rightarrow> ('a result \<Rightarrow> 'r \<Rightarrow> bool) \<Rightarrow> 'r \<Rightarrow> bool"
where
  "conforms R (Ret a) = (\<lambda>Q r. Q (Inr a) r)"
| "conforms R (Throw e) = (\<lambda>Q r. Q (Inl e) r)"
| "conforms R (Atomic f) = (\<lambda>Q r. \<forall>w. case map_prod (conforms R) id (f w) of
      (c, w') \<Rightarrow> \<exists>r'. R r w w' r' \<and> c Q r')"

lemma conforms_Atomic:
  "conforms R (Atomic f) Q r \<longleftrightarrow>
    (\<forall>w. \<exists>r'. R r w (snd (f w)) r' \<and> conforms R (fst (f w)) Q r')"
  by (simp add: case_prod_beta)

declare conforms.simps(3) [simp del]

lemma conforms_mono:
  "conforms R p Q r \<Longrightarrow> (\<And>a s. Q a s \<Longrightarrow> Q' a s) \<Longrightarrow> conforms R p Q' r"
proof (induction p arbitrary: r)
  case (Atomic f)
  then show ?case unfolding conforms_Atomic by meson
qed auto

lemma conforms_weaken:
  "conforms R p Q r \<Longrightarrow> (\<And>s w w' s'. R s w w' s' \<Longrightarrow> R' s w w' s') \<Longrightarrow> conforms R' p Q r"
proof (induction p arbitrary: r)
  case (Atomic f)
  then show ?case unfolding conforms_Atomic by meson
qed auto

lemma conforms_bindP:
  "conforms R (bindP m k) Q r \<longleftrightarrow>
    conforms R m (\<lambda>res s. case res of Inl e \<Rightarrow> Q (Inl e) s | Inr a \<Rightarrow> conforms R (k a) Q s) r"
proof (induction m arbitrary: r)
  case (Atomic f)
  then show ?case by (simp add: conforms_Atomic)
qed auto

lemma conforms_catchP:
  "conforms R (catchP m h) Q r \<longleftrightarrow>
    conforms R m (\<lambda>res s. case res of Inl e \<Rightarrow> conforms R (h e) Q s | Inr a \<Rightarrow> Q (Inr a) s) r"
proof (induction m arbitrary: r)
  case (Atomic f)
  then show ?case by (simp add: conforms_Atomic)
qed auto

lemma conforms_liftE: "conforms R (liftE a) Q r \<longleftrightarrow> Q a r"
  by (cases a) auto

lemma conforms_atomically:
  "conforms R (atomically f) Q r \<longleftrightarrow> (\<forall>w. \<exists>s. R r w (snd (f w)) s \<and> Q (fst (f w)) s)"
  by (simp add: atomically_def conforms_Atomic conforms_liftE)

lemma conforms_gets: "conforms R (gets g) Q r \<longleftrightarrow> (\<forall>w. \<exists>s. R r w w s \<and> Q (Inr (g w)) s)"
  by (simp add: gets_def conforms_atomically)

lemma conforms_modify: "conforms R (modify g) Q r \<longleftrightarrow> (\<forall>w. \<exists>s. R r w (g w) s \<and> Q (Inr ()) s)"
  by (simp add: modify_def conforms_atomically)

text \<open>Rules that compose: the first program ends well, the second takes over.\<close>

lemma conforms_bindI:
  assumes "conforms R m Q' r"
    and "\<And>e s. Q' (Inl e) s \<Longrightarrow> Q (Inl e) s"
    and "\<And>a s. Q' (Inr a) s \<Longrightarrow> conforms R (k a) Q s"
  shows "conforms R (bindP m k) Q r"
  unfolding conforms_bindP
  by (rule conforms_mono [OF assms(1)]) (auto split: sum.split intro: assms)

text \<open>
  A program that conforms and runs alone keeps every invariant of the monitor.
\<close>

lemma conforms_run:
  assumes "conforms R p Q r" and "I r w"
    and step: "\<And>s w w' s'. R s w w' s' \<Longrightarrow> I s w \<Longrightarrow> I s' w'"
  shows "\<exists>s. Q (fst (run p w)) s \<and> I s (snd (run p w))"
  using assms(1,2)
proof (induction p arbitrary: r w)
  case (Atomic f)
  then obtain s where "R r w (snd (f w)) s" and c: "conforms R (fst (f w)) Q s"
    unfolding conforms_Atomic by blast
  with \<open>I r w\<close> have "I s (snd (f w))" by (blast intro: step)
  with Atomic.IH [OF c] show ?case by (simp add: run_Atomic)
qed auto

text \<open>The special case of a monitor without state: a relation every step must respect.\<close>

definition guarantees :: "('w \<Rightarrow> 'w \<Rightarrow> bool) \<Rightarrow> ('w, 'a) prog \<Rightarrow> bool" where
  "guarantees G p = conforms (\<lambda>_ w w' _. G w w') p (\<lambda>_ _. True) ()"

lemma guarantees_simps:
  "guarantees G (Ret a)"
  "guarantees G (Throw e)"
  "guarantees G (Atomic f) \<longleftrightarrow> (\<forall>w. G w (snd (f w)) \<and> guarantees G (fst (f w)))"
  by (auto simp: guarantees_def conforms_Atomic)

lemma conforms_guarantee:
  "conforms R p Q r \<Longrightarrow> (\<And>s w w' s'. R s w w' s' \<Longrightarrow> G w w') \<Longrightarrow> guarantees G p"
proof (induction p arbitrary: r)
  case (Atomic f)
  from Atomic.prems(1) have "\<exists>r'. R r w (snd (f w)) r' \<and> conforms R (fst (f w)) Q r'" for w
    by (simp add: conforms_Atomic)
  then show ?case using Atomic.IH Atomic.prems(2) unfolding guarantees_simps(3) by meson
qed (simp_all add: guarantees_simps)

lemma guarantees_bindP:
  assumes "guarantees G m" and "\<And>a. guarantees G (k a)"
  shows "guarantees G (bindP m k)"
  using assms unfolding guarantees_def by (auto intro: conforms_bindI)

lemma guarantees_liftE: "guarantees G (liftE a)"
  by (simp add: guarantees_def conforms_liftE)

lemma guarantees_atomically: "guarantees G (atomically f) \<longleftrightarrow> (\<forall>w. G w (snd (f w)))"
  by (simp add: guarantees_def conforms_atomically)

lemma guarantees_catchP:
  assumes "guarantees G m" and "\<And>e. guarantees G (h e)"
  shows "guarantees G (catchP m h)"
  using assms unfolding guarantees_def conforms_catchP
  by (auto elim!: conforms_mono split: sum.split)

lemma guarantees_run:
  assumes "guarantees G p" and "I w" and "\<And>w w'. G w w' \<Longrightarrow> I w \<Longrightarrow> I w'"
  shows "I (snd (run p w))"
  using conforms_run [where I = "\<lambda>_. I", OF assms(1) [unfolded guarantees_def] assms(2)] assms(3)
  by blast

end
