(* ===== verification/PyFloat.thy ===== *)
theory PyFloat
  imports Prelude Complex_Main
begin

section \<open>Python floats\<close>

text \<open>
  The bridge computes prices, spreads, losses and volumes with Python floats, which are IEEE
  754 doubles. A finite float is its exact rational value; an operation computes the exact
  result and rounds it once, to the nearest double, ties to even, overflowing to an infinity.
  Comparisons follow IEEE (every comparison with a NaN is false) and a comparison of a float
  with an int is exact, as in CPython. The sign of a zero is not kept: no comparison or
  operation the bridge uses depends on it. Everything computes, so \<open>code_simp\<close> evaluates the
  float arithmetic of a concrete input.
\<close>

subsection \<open>Rounding to a double\<close>

function bit_len :: "int \<Rightarrow> int" where
  "bit_len n = (if n \<le> 0 then 0 else 1 + bit_len (n div 2))"
  by pat_completeness auto
termination
  by (relation "measure nat") auto

declare bit_len.simps [simp del]

definition ilog2 :: "rat \<Rightarrow> int" where
  "ilog2 x = (let (p, q) = quotient_of x; k = bit_len p - bit_len q
              in if 2 powi k \<le> x then k else k - 1)"

text \<open>Round to an integer, halves to the even neighbour.\<close>

definition round_even :: "rat \<Rightarrow> int" where
  "round_even x = (let n = \<lfloor>x\<rfloor>; d = x - of_int n
                   in if d < 1/2 then n else if 1/2 < d then n + 1
                      else if even n then n else n + 1)"

text \<open>The exponent of the last place of a double near \<open>x\<close>, and the rounded value.\<close>

definition ulp_exp :: "rat \<Rightarrow> int" where
  "ulp_exp x = max (ilog2 \<bar>x\<bar> - 52) (-1074)"

definition round_val :: "rat \<Rightarrow> rat" where
  "round_val x = (if x = 0 then 0
                  else of_int (round_even (x / 2 powi ulp_exp x)) * 2 powi ulp_exp x)"

datatype pyfloat = Fin rat | PInf | NInf | NaN

definition rnd :: "rat \<Rightarrow> pyfloat" where
  "rnd x = (let y = round_val x
            in if 2 ^ 1024 \<le> y then PInf else if y \<le> - (2 ^ 1024) then NInf else Fin y)"

subsection \<open>Operations\<close>

fun fneg :: "pyfloat \<Rightarrow> pyfloat" where
  "fneg (Fin x) = Fin (- x)"
| "fneg PInf = NInf"
| "fneg NInf = PInf"
| "fneg NaN = NaN"

fun f_abs :: "pyfloat \<Rightarrow> pyfloat" where
  "f_abs (Fin x) = Fin \<bar>x\<bar>"
| "f_abs NaN = NaN"
| "f_abs _ = PInf"

fun fadd :: "pyfloat \<Rightarrow> pyfloat \<Rightarrow> pyfloat" where
  "fadd (Fin x) (Fin y) = rnd (x + y)"
| "fadd NaN _ = NaN"
| "fadd _ NaN = NaN"
| "fadd PInf NInf = NaN"
| "fadd NInf PInf = NaN"
| "fadd PInf _ = PInf"
| "fadd _ PInf = PInf"
| "fadd NInf _ = NInf"
| "fadd _ NInf = NInf"

definition fsub :: "pyfloat \<Rightarrow> pyfloat \<Rightarrow> pyfloat" where
  "fsub a b = fadd a (fneg b)"

text \<open>An infinity with the sign of a rational, a NaN for zero.\<close>

definition signed_inf :: "rat \<Rightarrow> pyfloat" where
  "signed_inf x = (if 0 < x then PInf else if x < 0 then NInf else NaN)"

fun fmul :: "pyfloat \<Rightarrow> pyfloat \<Rightarrow> pyfloat" where
  "fmul (Fin x) (Fin y) = rnd (x * y)"
| "fmul NaN _ = NaN"
| "fmul _ NaN = NaN"
| "fmul (Fin x) PInf = signed_inf x"
| "fmul (Fin x) NInf = signed_inf (- x)"
| "fmul PInf (Fin y) = signed_inf y"
| "fmul NInf (Fin y) = signed_inf (- y)"
| "fmul PInf PInf = PInf"
| "fmul NInf NInf = PInf"
| "fmul _ _ = NInf"

text \<open>Python raises \<open>ZeroDivisionError\<close> for every float divided by zero.\<close>

fun fdiv :: "pyfloat \<Rightarrow> pyfloat \<Rightarrow> pyfloat result" where
  "fdiv a (Fin y) =
     (if y = 0 then Inl ZeroDivisionError
      else Inr (case a of Fin x \<Rightarrow> rnd (x / y) | NaN \<Rightarrow> NaN
                | PInf \<Rightarrow> signed_inf y | NInf \<Rightarrow> signed_inf (- y)))"
| "fdiv (Fin x) NaN = Inr NaN"
| "fdiv (Fin x) _ = Inr (Fin 0)"
| "fdiv _ _ = Inr NaN"

fun fle :: "pyfloat \<Rightarrow> pyfloat \<Rightarrow> bool" where
  "fle (Fin x) (Fin y) = (x \<le> y)"
| "fle NaN _ = False"
| "fle _ NaN = False"
| "fle NInf _ = True"
| "fle _ PInf = True"
| "fle _ _ = False"

fun flt :: "pyfloat \<Rightarrow> pyfloat \<Rightarrow> bool" where
  "flt (Fin x) (Fin y) = (x < y)"
| "flt NaN _ = False"
| "flt _ NaN = False"
| "flt NInf y = (y \<noteq> NInf)"
| "flt x PInf = (x \<noteq> PInf)"
| "flt _ _ = False"

text \<open>
  An int in a comparison stands for its exact value; an int in an arithmetic operation is
  first converted, which raises \<open>OverflowError\<close> beyond the largest double.
\<close>

definition fint :: "int \<Rightarrow> pyfloat" where
  "fint n = Fin (of_int n)"

definition float_of_int :: "int \<Rightarrow> pyfloat result" where
  "float_of_int n = (case rnd (of_int n) of Fin y \<Rightarrow> Inr (Fin y) | _ \<Rightarrow> Inl OverflowError)"

text \<open>\<open>a / b\<close> of two ints: one correctly rounded quotient.\<close>

definition int_truediv :: "int \<Rightarrow> int \<Rightarrow> pyfloat result" where
  "int_truediv a b = (if b = 0 then Inl ZeroDivisionError
     else case rnd (of_int a / of_int b) of Fin y \<Rightarrow> Inr (Fin y) | _ \<Rightarrow> Inl OverflowError)"

text \<open>\<open>math.floor\<close>, \<open>round(x, n)\<close> for a number of digits, and \<open>min\<close> of two floats.\<close>

fun py_floor :: "pyfloat \<Rightarrow> int result" where
  "py_floor (Fin x) = Inr \<lfloor>x\<rfloor>"
| "py_floor NaN = Inl ValueError"
| "py_floor _ = Inl OverflowError"

fun round_digits :: "nat \<Rightarrow> pyfloat \<Rightarrow> pyfloat" where
  "round_digits n (Fin x) = rnd (of_int (round_even (x * 10 ^ n)) / 10 ^ n)"
| "round_digits n x = x"

definition fmin :: "pyfloat \<Rightarrow> pyfloat \<Rightarrow> pyfloat" where
  "fmin a b = (if flt b a then b else a)"

definition is_finite :: "pyfloat \<Rightarrow> bool" where
  "is_finite x = (case x of Fin _ \<Rightarrow> True | _ \<Rightarrow> False)"

text \<open>A float literal such as \<open>0.01\<close> is the rounded value of its decimal.\<close>

definition flit :: "rat \<Rightarrow> pyfloat" where
  "flit x = rnd x"

subsection \<open>The rounding is a rounding\<close>

lemma bit_len_bounds:
  "0 < n \<Longrightarrow> 0 < bit_len n \<and> 2 ^ nat (bit_len n - 1) \<le> n \<and> n < 2 ^ nat (bit_len n)"
proof (induction n rule: bit_len.induct)
  case (1 n)
  have unf: "bit_len n = 1 + bit_len (n div 2)"
    using "1.prems" by (simp add: bit_len.simps [of n])
  show ?case
  proof (cases "n = 1")
    case True
    then show ?thesis by (simp add: bit_len.simps)
  next
    case False
    with "1.prems" have pos: "0 < n div 2" and n0: "\<not> n \<le> 0" by auto
    from "1.IH" [OF n0 pos]
    have IH: "0 < bit_len (n div 2)" "2 ^ nat (bit_len (n div 2) - 1) \<le> n div 2"
      "n div 2 < 2 ^ nat (bit_len (n div 2))" by auto
    have e1: "nat (1 + bit_len (n div 2) - 1) = Suc (nat (bit_len (n div 2) - 1))"
      and e2: "nat (1 + bit_len (n div 2)) = Suc (nat (bit_len (n div 2)))"
      using IH(1) by linarith+
    from IH show ?thesis unfolding unf e1 e2 by (auto simp: power_Suc)
  qed
qed

lemma bit_len_powi:
  assumes "0 < n"
  shows "2 powi (bit_len n - 1) \<le> (of_int n :: rat)" and "(of_int n :: rat) < 2 powi bit_len n"
proof -
  from bit_len_bounds [OF assms]
  have b: "0 < bit_len n" and l: "2 ^ nat (bit_len n - 1) \<le> n" and u: "n < 2 ^ nat (bit_len n)"
    by auto
  from l have "(of_int (2 ^ nat (bit_len n - 1)) :: rat) \<le> of_int n" by (simp only: of_int_le_iff)
  with b show "2 powi (bit_len n - 1) \<le> (of_int n :: rat)"
    by (simp add: power_int_def)
  from u have "(of_int n :: rat) < of_int (2 ^ nat (bit_len n))" by (simp only: of_int_less_iff)
  with b show "(of_int n :: rat) < 2 powi bit_len n"
    by (simp add: power_int_def)
qed

lemma powi_2_less_iff: "(2::rat) powi a < 2 powi b \<longleftrightarrow> a < b"
proof -
  have "a < b \<Longrightarrow> (2::rat) powi a < 2 powi b" for a b
    by (rule power_int_strict_increasing) auto
  from this [of a b] this [of b a] show ?thesis
    by (cases a b rule: linorder_cases) auto
qed

lemma powi_2_le_iff: "(2::rat) powi a \<le> 2 powi b \<longleftrightarrow> a \<le> b"
  by (simp only: not_less [symmetric] powi_2_less_iff)

lemma powi_2_pos [simp]: "0 < (2::rat) powi a"
  by simp

lemma powi_2_not_le [simp]: "\<not> (2::rat) powi a \<le> 0"
  by (simp add: not_le)

lemma powi_2_add: "(2::rat) powi (a + b) = 2 powi a * 2 powi b"
  by (simp add: power_int_add)

lemma powi_2_nat: "0 \<le> a \<Longrightarrow> (2::rat) powi a = of_int (2 ^ nat a)"
  by (simp add: power_int_def)

lemma ilog2_bounds:
  assumes "0 < x"
  shows "2 powi ilog2 x \<le> x" and "x < 2 powi (ilog2 x + 1)"
proof -
  obtain p q where pq: "quotient_of x = (p, q)" by (cases "quotient_of x")
  have q: "0 < q" by (rule quotient_of_denom_pos [OF pq])
  have x: "x = of_int p / of_int q" by (rule quotient_of_div [OF pq])
  with assms q have p: "0 < p" by (simp add: zero_less_divide_iff)
  let ?k = "bit_len p - bit_len q"
  note P = bit_len_powi [OF p] and Q = bit_len_powi [OF q]
  have up: "x < 2 powi (?k + 1)"
  proof -
    have "x < 2 powi bit_len p / of_int q"
      using P(2) q by (simp add: x divide_strict_right_mono)
    also have "\<dots> \<le> 2 powi bit_len p / 2 powi (bit_len q - 1)"
      using Q(1) by (intro divide_left_mono) (auto intro: mult_pos_pos simp: q)
    also have "\<dots> = 2 powi (?k + 1)"
      by (simp add: power_int_diff [symmetric] algebra_simps)
    finally show ?thesis .
  qed
  have lo: "2 powi (?k - 1) \<le> x"
  proof -
    have "2 powi (?k - 1) = 2 powi (bit_len p - 1) / (2 powi bit_len q :: rat)"
      by (simp add: power_int_diff [symmetric] algebra_simps)
    also have "\<dots> \<le> of_int p / 2 powi bit_len q"
      using P(1) by (intro divide_right_mono) auto
    also have "\<dots> \<le> x"
      unfolding x using Q(2) p q by (intro divide_left_mono) auto
    finally show ?thesis .
  qed
  have il: "ilog2 x = (if 2 powi ?k \<le> x then ?k else ?k - 1)"
    by (simp add: ilog2_def pq Let_def)
  show "2 powi ilog2 x \<le> x" using lo by (simp add: il)
  show "x < 2 powi (ilog2 x + 1)" using up by (simp add: il)
qed

lemma ilog2_unique:
  assumes "2 powi k \<le> x" and "x < 2 powi (k + 1)"
  shows "ilog2 x = k"
proof -
  have x: "0 < x" using assms(1) powi_2_pos [of k] by linarith
  from ilog2_bounds [OF x] assms
  have "2 powi ilog2 x < (2::rat) powi (k + 1)" and "2 powi k < (2::rat) powi (ilog2 x + 1)"
    by linarith+
  then show ?thesis by (simp only: powi_2_less_iff)
qed

lemma ilog2_mono:
  assumes "0 < x" and "x \<le> y"
  shows "ilog2 x \<le> ilog2 y"
proof -
  from assms have y: "0 < y" by linarith
  from ilog2_bounds [OF assms(1)] ilog2_bounds [OF y] assms(2)
  have "2 powi ilog2 x < (2::rat) powi (ilog2 y + 1)" by linarith
  then show ?thesis by (simp only: powi_2_less_iff)
qed

lemma round_even_of_int [simp]: "round_even (of_int n) = n"
  by (simp add: round_even_def)

lemma round_even_0 [simp]: "round_even 0 = 0"
  by (simp add: round_even_def)

lemma round_even_error: "\<bar>of_int (round_even x) - x\<bar> \<le> 1/2"
proof -
  have "of_int \<lfloor>x\<rfloor> \<le> x" and "x < of_int \<lfloor>x\<rfloor> + 1" by linarith+
  then show ?thesis by (auto simp: round_even_def Let_def)
qed

lemma round_even_between: "\<lfloor>x\<rfloor> \<le> round_even x \<and> round_even x \<le> \<lfloor>x\<rfloor> + 1"
  by (simp add: round_even_def Let_def)

lemma round_even_mono:
  assumes "x \<le> y"
  shows "round_even x \<le> round_even y"
proof (cases "\<lfloor>x\<rfloor> = \<lfloor>y\<rfloor>")
  case True
  with assms show ?thesis by (auto simp: round_even_def Let_def)
next
  case False
  with assms have "\<lfloor>x\<rfloor> + 1 \<le> \<lfloor>y\<rfloor>" using floor_mono [OF assms] by linarith
  with round_even_between [of x] round_even_between [of y] show ?thesis by linarith
qed

lemma round_even_minus: "round_even (- x) = - round_even x"
proof (cases "x = of_int \<lfloor>x\<rfloor>")
  case True
  then have "round_even (- x) = round_even (of_int (- \<lfloor>x\<rfloor>))" by simp
  also have "\<dots> = - round_even x" using True by (metis round_even_of_int)
  finally show ?thesis .
next
  case False
  define n where "n = \<lfloor>x\<rfloor>"
  have n: "of_int n \<le> x" "x < of_int n + 1" unfolding n_def by linarith+
  with False have f: "\<lfloor>- x\<rfloor> = - n - 1" unfolding n_def by linarith
  show ?thesis
    unfolding round_even_def Let_def f n_def [symmetric] using n False
    by (auto simp: n_def [symmetric])
qed

lemma round_val_0 [simp]: "round_val 0 = 0"
  by (simp add: round_val_def)

lemma ulp_exp_minus [simp]: "ulp_exp (- x) = ulp_exp x"
  by (simp add: ulp_exp_def)

lemma round_val_minus: "round_val (- x) = - round_val x"
  by (simp add: round_val_def round_even_minus)

lemma round_val_unfold:
  "round_val x = of_int (round_even (x / 2 powi ulp_exp x)) * 2 powi ulp_exp x"
  by (simp add: round_val_def)

lemma round_val_nonneg: "0 \<le> x \<Longrightarrow> 0 \<le> round_val x"
  using round_even_mono [of 0 "x / 2 powi ulp_exp x"]
  by (simp add: round_val_unfold)

text \<open>A double: 53 significant bits, no bit below \<open>2 powi -1074\<close> (range apart).\<close>

definition is_dyadic53 :: "rat \<Rightarrow> bool" where
  "is_dyadic53 y \<longleftrightarrow> (\<exists>m e. y = of_int m * 2 powi e \<and> \<bar>m\<bar> \<le> 2 ^ 53 \<and> - 1074 \<le> e)"

lemma is_dyadic53I: "y = of_int m * 2 powi e \<Longrightarrow> \<bar>m\<bar> \<le> 2 ^ 53 \<Longrightarrow> - 1074 \<le> e \<Longrightarrow> is_dyadic53 y"
  unfolding is_dyadic53_def by blast

lemma is_dyadic53_minus: "is_dyadic53 y \<Longrightarrow> is_dyadic53 (- y)"
proof -
  assume "is_dyadic53 y"
  then obtain m e where "y = of_int m * 2 powi e" "\<bar>m\<bar> \<le> 2 ^ 53" "- 1074 \<le> e"
    unfolding is_dyadic53_def by blast
  then show ?thesis by (intro is_dyadic53I [of _ "- m" e]) auto
qed

lemma of_int_multiple_exact:
  assumes "e' \<le> e"
  shows "of_int (round_even (of_int m * 2 powi e / 2 powi e')) * 2 powi e' = of_int m * (2::rat) powi e"
proof -
  let ?k = "m * 2 ^ nat (e - e')"
  have k: "of_int ?k = of_int m * (2::rat) powi (e - e')"
    using assms by (simp add: powi_2_nat)
  have "of_int m * 2 powi e / 2 powi e' = (of_int ?k :: rat)"
    unfolding k by (simp add: power_int_diff)
  then have "of_int (round_even (of_int m * 2 powi e / 2 powi e')) * 2 powi e' = of_int ?k * (2::rat) powi e'"
    by (simp only: round_even_of_int)
  also have "\<dots> = of_int m * 2 powi e"
    unfolding k by (simp add: power_int_diff)
  finally show ?thesis .
qed

text \<open>A value that is already a double is not changed.\<close>

lemma round_val_exact_pos:
  assumes y: "y = of_int m * 2 powi e" and m: "\<bar>m\<bar> \<le> 2 ^ 53" and e: "- 1074 \<le> e" and pos: "0 < y"
  shows "round_val y = y"
proof (cases "m = 2 ^ 53")
  case True
  have "y = of_int 1 * 2 powi (53 + e)" by (simp add: y True powi_2_add)
  moreover have "ilog2 y = 53 + e"
    by (rule ilog2_unique) (simp_all add: calculation powi_2_less_iff)
  ultimately show ?thesis
    using e of_int_multiple_exact [of "max (1 + e) (- 1074)" "53 + e" 1]
    by (simp add: round_val_unfold ulp_exp_def pos del: of_int_1)
next
  case False
  with m have m': "m < 2 ^ 53" by linarith
  have mp: "0 < m" using pos y powi_2_pos [of e] by (auto simp: zero_less_mult_iff)
  from m' have "y < of_int (2 ^ 53) * 2 powi e" by (simp only: y mult_less_cancel_right of_int_less_iff) simp
  then have yu: "y < 2 powi (53 + e)" by (simp add: powi_2_add)
  have "ilog2 y < 53 + e"
  proof -
    from ilog2_bounds(1) [OF pos] yu have "2 powi ilog2 y < (2::rat) powi (53 + e)" by linarith
    then show ?thesis by (simp only: powi_2_less_iff)
  qed
  then have "ulp_exp y \<le> e" using e pos by (simp add: ulp_exp_def)
  from of_int_multiple_exact [OF this, of m] show ?thesis
    by (simp add: round_val_unfold y [symmetric])
qed

lemma round_val_exact:
  assumes "is_dyadic53 y"
  shows "round_val y = y"
proof (cases y "0::rat" rule: linorder_cases)
  case less
  from is_dyadic53_minus [OF assms] less have "round_val (- y) = - y"
    unfolding is_dyadic53_def by (metis neg_0_less_iff_less round_val_exact_pos)
  then show ?thesis by (simp add: round_val_minus)
next
  case greater
  with assms show ?thesis unfolding is_dyadic53_def by (metis round_val_exact_pos)
qed simp

lemma round_val_of_int: "\<bar>n\<bar> \<le> 2 ^ 53 \<Longrightarrow> round_val (of_int n) = of_int n"
  by (rule round_val_exact, rule is_dyadic53I [of _ n 0]) auto

lemma round_val_powi: "- 1074 \<le> e \<Longrightarrow> round_val (2 powi e) = 2 powi e"
  by (rule round_val_exact, rule is_dyadic53I [of _ 1 e]) auto

text \<open>The rounding is monotone.\<close>

lemma round_val_mono_pos:
  assumes x: "0 < x" and xy: "x \<le> y"
  shows "round_val x \<le> round_val y"
proof -
  from assms have y: "0 < y" by linarith
  have il: "ilog2 x \<le> ilog2 y" by (rule ilog2_mono [OF x xy])
  then have ee: "ulp_exp x \<le> ulp_exp y" using x y by (simp add: ulp_exp_def)
  show ?thesis
  proof (cases "ulp_exp x = ulp_exp y")
    case True
    have "round_even (x / 2 powi ulp_exp y) \<le> round_even (y / 2 powi ulp_exp y)"
      using xy by (intro round_even_mono divide_right_mono) auto
    then show ?thesis by (simp add: round_val_unfold True)
  next
    case False
    with ee x y have lt: "ilog2 x < ilog2 y" and ey: "ulp_exp y = ilog2 y - 52"
      and ex: "ulp_exp x < ilog2 y" and low: "- 1074 \<le> ilog2 y"
      by (auto simp: ulp_exp_def)
    let ?b = "(2::rat) powi ilog2 y"
    have xb: "x \<le> ?b"
    proof -
      from lt have "ilog2 x + 1 \<le> ilog2 y" by linarith
      then have "2 powi (ilog2 x + 1) \<le> ?b" by (simp only: powi_2_le_iff)
      with ilog2_bounds(2) [OF x] show ?thesis by linarith
    qed
    have b_y: "?b \<le> y" by (rule ilog2_bounds(1) [OF y])
    have "round_val x \<le> of_int (round_even (?b / 2 powi ulp_exp x)) * 2 powi ulp_exp x"
      unfolding round_val_unfold [of x] using xb
      by (intro mult_right_mono) (auto intro!: round_even_mono divide_right_mono)
    also have "\<dots> = ?b"
      using of_int_multiple_exact [of "ulp_exp x" "ilog2 y" 1] ex by simp
    also have "\<dots> = of_int (round_even (?b / 2 powi ulp_exp y)) * 2 powi ulp_exp y"
      using of_int_multiple_exact [of "ulp_exp y" "ilog2 y" 1] ey by simp
    also have "\<dots> \<le> round_val y"
      unfolding round_val_unfold [of y] using b_y
      by (intro mult_right_mono) (auto intro!: round_even_mono divide_right_mono)
    finally show ?thesis .
  qed
qed

lemma round_val_mono:
  assumes "x \<le> y"
  shows "round_val x \<le> round_val y"
proof (cases "0 < x")
  case True
  then show ?thesis using assms by (rule round_val_mono_pos)
next
  case False
  show ?thesis
  proof (cases "0 \<le> y")
    case True
    from False round_val_nonneg [of "- x"] have "round_val x \<le> 0" by (simp add: round_val_minus)
    with round_val_nonneg [OF True] show ?thesis by linarith
  next
    case False
    with assms round_val_mono_pos [of "- y" "- x"] show ?thesis by (simp add: round_val_minus)
  qed
qed

text \<open>Its error is at most half a unit in the last place.\<close>

lemma round_val_error: "\<bar>round_val x - x\<bar> \<le> 2 powi (ulp_exp x - 1)"
proof -
  let ?u = "(2::rat) powi ulp_exp x"
  have "\<bar>round_val x - x\<bar> = \<bar>of_int (round_even (x / ?u)) - x / ?u\<bar> * ?u"
  proof -
    have "round_val x - x = (of_int (round_even (x / ?u)) - x / ?u) * ?u"
      by (simp add: round_val_unfold left_diff_distrib)
    then show ?thesis by (simp add: abs_mult)
  qed
  also have "\<dots> \<le> 1/2 * ?u"
    by (intro mult_right_mono round_even_error) simp
  also have "\<dots> = 2 powi (ulp_exp x - 1)"
    by (simp add: power_int_diff)
  finally show ?thesis .
qed

lemma round_val_rel_error:
  assumes "2 powi (-1022) \<le> \<bar>x\<bar>"
  shows "\<bar>round_val x - x\<bar> \<le> \<bar>x\<bar> / 2 ^ 53"
proof -
  have pos: "0 < \<bar>x\<bar>" using assms powi_2_pos [of "-1022"] by linarith
  from assms ilog2_bounds(2) [OF pos] have "2 powi (-1022) < (2::rat) powi (ilog2 \<bar>x\<bar> + 1)"
    by linarith
  then have "- 1022 \<le> ilog2 \<bar>x\<bar>" by (simp only: powi_2_less_iff)
  then have "ulp_exp x - 1 = ilog2 \<bar>x\<bar> - 53" by (simp add: ulp_exp_def)
  with round_val_error [of x] have "\<bar>round_val x - x\<bar> \<le> 2 powi ilog2 \<bar>x\<bar> / 2 ^ 53"
    by (simp add: power_int_diff)
  with ilog2_bounds(1) [OF pos] show ?thesis
    by (meson divide_right_mono order_trans zero_le_numeral zero_le_power)
qed

subsection \<open>What a client of the arithmetic needs of its rounding\<close>

text \<open>
  The risk predicates and the volume calculation rest on three laws of the rounding only:
  it is monotone, it keeps zero and it is odd. The laws are the interface, the consequences
  are proved once, and the double rounding above is the provider.
\<close>

locale monotone_rounding =
  fixes r :: "rat \<Rightarrow> rat"
  assumes mono: "x \<le> y \<Longrightarrow> r x \<le> r y"
    and zero: "r 0 = 0"
    and odd: "r (- x) = - r x"
begin

lemma nonneg: "0 \<le> x \<Longrightarrow> 0 \<le> r x"
  using mono [of 0 x] by (simp add: zero)

lemma nonpos: "x \<le> 0 \<Longrightarrow> r x \<le> 0"
  using mono [of x 0] by (simp add: zero)

lemma mono_minus_left: "x \<le> y \<Longrightarrow> r (b - y) \<le> r (b - x)"
  by (rule mono) simp

lemma mono_divide: "0 < b \<Longrightarrow> x \<le> y \<Longrightarrow> r (x / b) \<le> r (y / b)"
  by (intro mono divide_right_mono) auto

lemma mono_scale: "0 \<le> c \<Longrightarrow> x \<le> y \<Longrightarrow> r (x * c) \<le> r (y * c)"
  by (intro mono mult_right_mono) auto

end

interpretation r64: monotone_rounding round_val
  by unfold_locales (simp_all add: round_val_mono round_val_minus)

subsection \<open>Doubles are closed under the operations\<close>

text \<open>A float of the model is a double: its value is fixed by the rounding and in range.\<close>

definition is_double :: "pyfloat \<Rightarrow> bool" where
  "is_double a = (case a of Fin x \<Rightarrow> round_val x = x \<and> \<bar>x\<bar> < 2 ^ 1024 | _ \<Rightarrow> True)"

lemma is_dyadic53_round_val: "is_dyadic53 (round_val x)"
proof (cases "x = 0")
  case True
  then show ?thesis by (auto intro: is_dyadic53I [of _ 0 0])
next
  case False
  let ?e = "ulp_exp x"
  let ?m = "round_even (x / 2 powi ?e)"
  from False have pos: "0 < \<bar>x\<bar>" by simp
  have "ilog2 \<bar>x\<bar> + 1 \<le> 53 + ?e" by (simp add: ulp_exp_def)
  then have "2 powi (ilog2 \<bar>x\<bar> + 1) \<le> (2::rat) powi (53 + ?e)" by (simp only: powi_2_le_iff)
  with ilog2_bounds(2) [OF pos] have "\<bar>x\<bar> \<le> of_int (2 ^ 53) * 2 powi ?e"
    by (simp add: powi_2_add)
  then have b: "\<bar>x\<bar> / 2 powi ?e \<le> of_int (2 ^ 53)"
    by (simp only: pos_divide_le_eq [OF powi_2_pos])
  have "x / 2 powi ?e \<le> of_int (2 ^ 53)" and "of_int (- (2 ^ 53)) \<le> x / 2 powi ?e"
    using b by (simp_all add: abs_le_iff divide_le_eq le_divide_eq)
  from this(1) [THEN round_even_mono] this(2) [THEN round_even_mono]
  have "\<bar>?m\<bar> \<le> 2 ^ 53" by (simp only: round_even_of_int)
  moreover have "- 1074 \<le> ?e" by (simp add: ulp_exp_def)
  ultimately show ?thesis by (rule is_dyadic53I [OF round_val_unfold])
qed

lemma round_val_idem [simp]: "round_val (round_val x) = round_val x"
  by (rule round_val_exact [OF is_dyadic53_round_val])

lemma is_double_simps [simp]:
  "is_double PInf" "is_double NInf" "is_double NaN"
  "is_double (Fin x) \<longleftrightarrow> round_val x = x \<and> \<bar>x\<bar> < 2 ^ 1024"
  by (simp_all add: is_double_def)

lemma is_double_rnd [simp]: "is_double (rnd x)"
  by (auto simp: rnd_def Let_def abs_less_iff)

lemma is_double_signed_inf [simp]: "is_double (signed_inf x)"
  by (simp add: signed_inf_def)

lemma is_double_fneg: "is_double a \<Longrightarrow> is_double (fneg a)"
  by (cases a) (auto simp: round_val_minus)

lemma is_double_fadd: "is_double (fadd a b)"
  by (cases "(a, b)" rule: fadd.cases) auto

lemma is_double_fmul: "is_double (fmul a b)"
  by (cases "(a, b)" rule: fmul.cases) auto

lemma is_double_fdiv: "fdiv a b = Inr c \<Longrightarrow> is_double c"
  by (cases "(a, b)" rule: fdiv.cases) (auto split: if_splits pyfloat.splits)

lemma is_double_round_digits: "is_double a \<Longrightarrow> is_double (round_digits n a)"
  by (cases a) auto

lemma rnd_of_double: "is_double (Fin x) \<Longrightarrow> rnd x = Fin x"
  by (auto simp: rnd_def Let_def abs_less_iff)

lemma fadd_0: "is_double a \<Longrightarrow> fadd a (Fin 0) = a"
  by (cases a) (auto simp: rnd_of_double)

lemma rnd_eq_Fin_iff: "rnd x = Fin y \<longleftrightarrow> y = round_val x \<and> \<bar>round_val x\<bar> < 2 ^ 1024"
  by (auto simp: rnd_def Let_def)

lemma rnd_not_NaN [simp]: "rnd x \<noteq> NaN"
  by (simp add: rnd_def Let_def)

lemma rnd_0 [simp]: "rnd 0 = Fin 0"
  by (simp add: rnd_def)

subsection \<open>Comparisons\<close>

lemma fle_Fin_iff [simp]: "fle (Fin x) (Fin y) \<longleftrightarrow> x \<le> y"
  by simp

lemma flt_irrefl [simp]: "\<not> flt a a"
  by (cases a) auto

lemma flt_imp_fle: "flt a b \<Longrightarrow> fle a b"
  by (cases a; cases b) auto

lemma not_flt_fle: "a \<noteq> NaN \<Longrightarrow> b \<noteq> NaN \<Longrightarrow> \<not> flt a b \<longleftrightarrow> fle b a"
  by (cases a; cases b) auto

lemma not_fle_flt: "a \<noteq> NaN \<Longrightarrow> b \<noteq> NaN \<Longrightarrow> \<not> fle a b \<longleftrightarrow> flt b a"
  by (cases a; cases b) auto

lemma fle_refl: "a \<noteq> NaN \<Longrightarrow> fle a a"
  by (cases a) auto

lemma fle_trans: "fle a b \<Longrightarrow> fle b c \<Longrightarrow> fle a c"
  by (cases a; cases b; cases c) auto

lemma fle_flt_trans: "fle a b \<Longrightarrow> flt b c \<Longrightarrow> flt a c"
  by (cases a; cases b; cases c) auto

lemma flt_fle_trans: "flt a b \<Longrightarrow> fle b c \<Longrightarrow> flt a c"
  by (cases a; cases b; cases c) auto

lemma fle_not_NaN: "fle a b \<Longrightarrow> a \<noteq> NaN \<and> b \<noteq> NaN"
  by (cases a; cases b) auto

lemma flt_not_NaN: "flt a b \<Longrightarrow> a \<noteq> NaN \<and> b \<noteq> NaN"
  by (cases a; cases b) auto

lemma rnd_mono: "x \<le> y \<Longrightarrow> fle (rnd x) (rnd y)"
  using r64.mono [of x y] by (auto simp: rnd_def Let_def)

lemma rnd_nonneg: "0 \<le> x \<Longrightarrow> fle (Fin 0) (rnd x)"
  using rnd_mono [of 0 x] by simp

lemma rnd_nonpos: "x \<le> 0 \<Longrightarrow> fle (rnd x) (Fin 0)"
  using rnd_mono [of x 0] by simp

lemma fmin_le_right: "b \<noteq> NaN \<Longrightarrow> a \<noteq> NaN \<Longrightarrow> fle (fmin a b) b"
  by (cases a; cases b) (auto simp: fmin_def)

lemma fmin_le_left: "a \<noteq> NaN \<Longrightarrow> fle (fmin a b) a"
  by (cases a; cases b) (auto simp: fmin_def)

lemma fmin_cases: "fmin a b = a \<or> fmin a b = b"
  by (simp add: fmin_def)

subsection \<open>Evaluating a rounding\<close>

text \<open>Below \<open>2 ^ 62\<close> nothing overflows, so the comparison with \<open>2 ^ 1024\<close> need not be computed.\<close>

definition rnd_overflow :: "rat \<Rightarrow> pyfloat" where
  "rnd_overflow x = rnd x"

lemma rnd_overflow_code [code]:
  "rnd_overflow x = (let y = round_val x
     in if 2 ^ 1024 \<le> y then PInf else if y \<le> - (2 ^ 1024) then NInf else Fin y)"
  by (simp add: rnd_overflow_def rnd_def)

lemma rnd_code [code]:
  "rnd x = (if \<bar>x\<bar> \<le> 4611686018427387904 then Fin (round_val x) else rnd_overflow x)"
proof (cases "\<bar>x\<bar> \<le> 4611686018427387904")
  case True
  have p: "(2 :: rat) powi 62 = 4611686018427387904" by (simp add: power_int_def)
  have b: "round_val 4611686018427387904 = 4611686018427387904"
    using round_val_powi [of 62] p by simp
  have "round_val x \<le> 4611686018427387904" "- 4611686018427387904 \<le> round_val x"
    using round_val_mono [of x 4611686018427387904] round_val_mono [of "- 4611686018427387904" x] True b
      round_val_minus [of 4611686018427387904] by (simp_all add: abs_le_iff)
  moreover have "(4611686018427387904 :: rat) < 2 ^ 1024"
  proof -
    have "(4611686018427387904 :: rat) = 2 ^ 62" by simp
    also have "\<dots> < 2 ^ 1024" by (rule power_strict_increasing) simp_all
    finally show ?thesis .
  qed
  ultimately show ?thesis using True by (simp add: rnd_def)
next
  case False
  then show ?thesis by (simp add: rnd_overflow_def)
qed

end
