(* ===== verification/PyText.thy ===== *)
theory PyText
  imports Prelude "HOL-Library.List_Lexorder" "HOL-Library.Char_ord"
begin

section \<open>Python strings\<close>

text \<open>
  A \<open>str\<close> is a list of code points. The model's \<open>char\<close> covers the code points up to 255
  (Latin-1); every identifier, status and timestamp of the bridge is ASCII. What the code
  uses of \<open>str\<close>: stripping, upper-casing, \<open>isdigit\<close>, \<open>int()\<close>, decimal formatting, and the
  code point order, which is also SQLite's BINARY collation of the stored text.
\<close>

subsection \<open>White space, case, digits\<close>

definition py_space :: "char \<Rightarrow> bool" where
  "py_space c = (let n = of_char c :: nat
     in 9 \<le> n \<and> n \<le> 13 \<or> 28 \<le> n \<and> n \<le> 32 \<or> n = 133 \<or> n = 160)"

definition strip :: "string \<Rightarrow> string" where
  "strip s = rev (dropWhile py_space (rev (dropWhile py_space s)))"

text \<open>
  \<open>str.upper\<close> inside Latin-1. The images of two code points (181 and 255) lie outside
  Latin-1; they are kept as they are.
\<close>

definition upper_char :: "char \<Rightarrow> string" where
  "upper_char c = (let n = of_char c :: nat
     in if 97 \<le> n \<and> n \<le> 122 \<or> 224 \<le> n \<and> n \<le> 254 \<and> n \<noteq> 247 then [char_of (n - 32)]
        else if n = 223 then ''SS''
        else [c])"

definition upper :: "string \<Rightarrow> string" where
  "upper s = concat (map upper_char s)"

definition is_dec :: "char \<Rightarrow> bool" where
  "is_dec c = (let n = of_char c :: nat in 48 \<le> n \<and> n \<le> 57)"

definition dec_val :: "char \<Rightarrow> int" where
  "dec_val c = int (of_char c) - 48"

text \<open>\<open>str.isdigit\<close> is true of the superscripts 1, 2 and 3 as well, which \<open>int()\<close> refuses.\<close>

definition isdigit_char :: "char \<Rightarrow> bool" where
  "isdigit_char c = (is_dec c \<or> of_char c \<in> {178, 179, 185 :: nat})"

definition isdigit :: "string \<Rightarrow> bool" where
  "isdigit s = (s \<noteq> [] \<and> list_all isdigit_char s)"

subsection \<open>\<open>int()\<close> of a string\<close>

text \<open>Digits, with single underscores between them.\<close>

fun int_tail :: "int \<Rightarrow> string \<Rightarrow> int option" where
  "int_tail acc [] = Some acc"
| "int_tail acc [c] = (if is_dec c then Some (acc * 10 + dec_val c) else None)"
| "int_tail acc (c # d # cs) =
     (if is_dec c then int_tail (acc * 10 + dec_val c) (d # cs)
      else if c = CHR ''_'' \<and> is_dec d then int_tail (acc * 10 + dec_val d) cs
      else None)"

definition int_unsigned :: "string \<Rightarrow> int option" where
  "int_unsigned s = (case s of [] \<Rightarrow> None
     | c # cs \<Rightarrow> if is_dec c \<and> length (filter is_dec s) \<le> 4300 then int_tail (dec_val c) cs else None)"

definition py_int :: "string \<Rightarrow> int result" where
  "py_int s0 = (let s = strip s0;
       r = (case s of
              [] \<Rightarrow> None
            | c # cs \<Rightarrow> if c = CHR ''+'' then int_unsigned cs
                       else if c = CHR ''-'' then map_option uminus (int_unsigned cs)
                       else int_unsigned s)
     in case r of None \<Rightarrow> Inl ValueError | Some n \<Rightarrow> Inr n)"

subsection \<open>Decimal output\<close>

definition digit :: "int \<Rightarrow> char" where
  "digit d = char_of (nat (48 + d))"

text \<open>The \<open>w\<close> low decimal digits of \<open>n\<close>, as \<open>f"{n:0wd}"\<close> prints a value that fits.\<close>

fun pad :: "nat \<Rightarrow> int \<Rightarrow> string" where
  "pad 0 n = []"
| "pad (Suc w) n = digit (n div 10 ^ w mod 10) # pad w (n mod 10 ^ w)"

function str_nat :: "int \<Rightarrow> string" where
  "str_nat n = (if n < 10 then [digit n] else str_nat (n div 10) @ [digit (n mod 10)])"
  by pat_completeness auto
termination
  by (relation "measure nat") auto

declare str_nat.simps [simp del]

definition str_int :: "int \<Rightarrow> string" where
  "str_int n = (if n < 0 then CHR ''-'' # str_nat (- n) else str_nat n)"

fun digits_val :: "string \<Rightarrow> int option" where
  "digits_val [] = Some 0"
| "digits_val (c # cs) = (if is_dec c
     then map_option (\<lambda>v. dec_val c * 10 ^ length cs + v) (digits_val cs) else None)"

subsection \<open>Lemmas\<close>

lemma of_char_digit: "0 \<le> d \<Longrightarrow> d < 10 \<Longrightarrow> of_char (digit d) = (48 + nat d :: nat)"
proof -
  assume d: "0 \<le> d" "d < 10"
  then have "nat (48 + d) < 256" by simp
  then show ?thesis using d by (simp add: digit_def nat_add_distrib)
qed

lemma is_dec_digit [simp]: "0 \<le> d \<Longrightarrow> d < 10 \<Longrightarrow> is_dec (digit d)"
  by (simp add: is_dec_def of_char_digit Let_def)

lemma dec_val_digit [simp]: "0 \<le> d \<Longrightarrow> d < 10 \<Longrightarrow> dec_val (digit d) = d"
  by (simp add: dec_val_def of_char_digit)

lemma digit_less_iff:
  assumes "0 \<le> a" "a < 10" "0 \<le> b" "b < 10"
  shows "digit a < digit b \<longleftrightarrow> a < b"
  using assms by (auto simp: less_char_def of_char_digit)

lemma digit_eq_iff:
  assumes "0 \<le> a" "a < 10" "0 \<le> b" "b < 10"
  shows "digit a = digit b \<longleftrightarrow> a = b"
  using assms by (metis dec_val_digit)

lemma length_pad [simp]: "length (pad w n) = w"
  by (induction w arbitrary: n) auto

lemma pad_all_dec: "list_all is_dec (pad w n)"
  by (induction w arbitrary: n) auto

lemma top_digit:
  fixes n :: int
  assumes "0 \<le> n" and "n < 10 ^ Suc w"
  shows "n div 10 ^ w mod 10 = n div 10 ^ w" and "0 \<le> n div 10 ^ w" and "n div 10 ^ w < 10"
proof -
  let ?p = "10 ^ w :: int"
  show nn: "0 \<le> n div ?p" using assms by (simp add: pos_imp_zdiv_nonneg_iff)
  show lt: "n div ?p < 10"
  proof (rule ccontr)
    assume "\<not> n div ?p < 10"
    then have "10 * ?p \<le> n div ?p * ?p" by (intro mult_right_mono) auto
    also have "\<dots> \<le> n" using div_mult_mod_eq [of n ?p] pos_mod_sign [of ?p n, OF zero_less_power [OF zero_less_numeral]] by linarith
    finally show False using assms by simp
  qed
  show "n div ?p mod 10 = n div ?p" by (rule mod_pos_pos_trivial [OF nn lt])
qed

lemma digits_val_pad:
  assumes "0 \<le> n" and "n < 10 ^ w"
  shows "digits_val (pad w n) = Some n"
  using assms
proof (induction w arbitrary: n)
  case (Suc w)
  have "digits_val (pad w (n mod 10 ^ w)) = Some (n mod 10 ^ w)"
    by (rule Suc.IH) auto
  with top_digit [OF Suc.prems] div_mult_mod_eq [of n "10 ^ w"] show ?case by simp
qed auto

lemma less_iff_div_mod:
  assumes "0 < (p::int)"
  shows "a < b \<longleftrightarrow> a div p < b div p \<or> a div p = b div p \<and> a mod p < b mod p"
    and "a = b \<longleftrightarrow> a div p = b div p \<and> a mod p = b mod p"
proof -
  note ab = div_mult_mod_eq [of a p] div_mult_mod_eq [of b p]
  show "a = b \<longleftrightarrow> a div p = b div p \<and> a mod p = b mod p" using ab by metis
  show "a < b \<longleftrightarrow> a div p < b div p \<or> a div p = b div p \<and> a mod p < b mod p"
  proof (cases "a div p" "b div p" rule: linorder_cases)
    case less
    then show ?thesis using zdiv_mono1 [of b a p] assms by (cases "b \<le> a") auto
  next
    case equal
    from ab(1) [unfolded equal] ab(2) have "a < b \<longleftrightarrow> a mod p < b mod p" by linarith
    with equal show ?thesis by simp
  next
    case greater
    then show ?thesis using zdiv_mono1 [of a b p] assms by auto
  qed
qed

text \<open>
  Fixed-width decimals compare as the numbers do, and decide the comparison of two strings
  unless the numbers are equal.
\<close>

lemma pad_append_le:
  assumes "0 \<le> a" "a < 10 ^ w" "0 \<le> b" "b < 10 ^ w"
  shows "pad w a @ x \<le> pad w b @ y \<longleftrightarrow> a < b \<or> a = b \<and> x \<le> y"
  using assms
proof (induction w arbitrary: a b)
  case (Suc w)
  let ?p = "10 ^ w :: int"
  note A = top_digit [OF Suc.prems(1,2)] and B = top_digit [OF Suc.prems(3,4)]
  have IH: "pad w (a mod ?p) @ x \<le> pad w (b mod ?p) @ y \<longleftrightarrow>
      a mod ?p < b mod ?p \<or> a mod ?p = b mod ?p \<and> x \<le> y"
    by (rule Suc.IH) auto
  have p: "0 < ?p" by simp
  show ?case
    unfolding less_iff_div_mod [OF p, of a b] less_iff_div_mod(2) [OF p, of a b]
    using A B by (auto simp: digit_less_iff digit_eq_iff IH)
qed auto

lemma pad_inject:
  assumes "0 \<le> a" "a < 10 ^ w" "0 \<le> b" "b < 10 ^ w"
  shows "pad w a = pad w b \<longleftrightarrow> a = b"
  using assms by (metis digits_val_pad option.inject)

subsection \<open>Decimal integers\<close>

lemma str_nat_all_dec: "0 \<le> n \<Longrightarrow> list_all is_dec (str_nat n)"
proof (induction n rule: str_nat.induct)
  case (1 n)
  then show ?case by (subst str_nat.simps) (auto simp: pos_imp_zdiv_nonneg_iff)
qed

lemma str_nat_nonempty: "str_nat n \<noteq> []"
  by (subst str_nat.simps) simp

lemma digits_val_snoc:
  "digits_val (s @ [c]) = (case digits_val s of None \<Rightarrow> None
     | Some v \<Rightarrow> if is_dec c then Some (10 * v + dec_val c) else None)"
  by (induction s) (auto split: option.splits simp: algebra_simps)

lemma digits_val_str_nat: "0 \<le> n \<Longrightarrow> digits_val (str_nat n) = Some n"
proof (induction n rule: str_nat.induct)
  case (1 n)
  show ?case
  proof (cases "n < 10")
    case True
    with "1.prems" show ?thesis by (subst str_nat.simps) simp
  next
    case False
    with "1.IH" "1.prems" have "digits_val (str_nat (n div 10)) = Some (n div 10)"
      by (simp add: pos_imp_zdiv_nonneg_iff)
    with False show ?thesis by (subst str_nat.simps) (simp add: digits_val_snoc)
  qed
qed

lemma not_dec_minus: "\<not> is_dec (CHR ''-'')"
  by code_simp

lemma str_int_inject: "str_int a = str_int b \<longleftrightarrow> a = b"
proof
  assume eq: "str_int a = str_int b"
  have hd: "0 \<le> n \<Longrightarrow> hd (str_nat n) \<noteq> CHR ''-''" for n
    using str_nat_all_dec [of n] str_nat_nonempty [of n] not_dec_minus
    by (cases "str_nat n") auto
  have val: "0 \<le> m \<Longrightarrow> 0 \<le> n \<Longrightarrow> str_nat m = str_nat n \<Longrightarrow> m = n" for m n
    by (metis digits_val_str_nat option.inject)
  show "a = b"
  proof (cases "a < 0"; cases "b < 0")
    assume "a < 0" "b < 0"
    with eq val [of "- a" "- b"] show ?thesis by (simp add: str_int_def)
  next
    assume "a < 0" "\<not> b < 0"
    with eq hd [of b] show ?thesis by (auto simp: str_int_def) (metis list.sel(1))
  next
    assume "\<not> a < 0" "b < 0"
    with eq hd [of a] show ?thesis by (auto simp: str_int_def)
  next
    assume "\<not> a < 0" "\<not> b < 0"
    with eq val [of a b] show ?thesis by (simp add: str_int_def)
  qed
qed simp

lemma str_int_no_bar: "CHR ''|'' \<notin> set (str_int n)"
proof -
  have "\<not> is_dec (CHR ''|'')" by code_simp
  then have "CHR ''|'' \<notin> set (str_nat m)" if "0 \<le> m" for m
    using str_nat_all_dec [OF that] by (auto simp: list_all_iff)
  then show ?thesis by (simp add: str_int_def)
qed

end
