(* ===== verification/Enums.thy ===== *)
theory Enums
  imports PyFloat PyText
begin

section \<open>Actions, statuses and messages (app/models/enums.py)\<close>

text \<open>
  The two enums of the bridge with their text values, the set of terminal statuses, and the
  messages the pipeline records. The database stores the text of a status; the text is
  injective, so the model's rows hold the enum itself.
\<close>

datatype signal_action = BUY | SELL

fun action_value :: "signal_action \<Rightarrow> string" where
  "action_value BUY = ''BUY''"
| "action_value SELL = ''SELL''"

datatype execution_status =
    PENDING
  | PROCESSING
  | DRY_RUN_APPROVED
  | DRY_RUN_REJECTED
  | EXECUTED
  | EXECUTED_PARTIAL
  | RECOVERED_EXECUTED
  | REJECTED_STALE
  | REJECTED_FUTURE_TIMESTAMP
  | REJECTED_SYMBOL
  | REJECTED_SYMBOL_UNAVAILABLE
  | REJECTED_RISK
  | REJECTED_STOP_LOSS
  | REJECTED_SPREAD
  | REJECTED_DAILY_LOSS
  | REJECTED_DAILY_TRADE_LIMIT
  | REJECTED_POSITION_LIMIT
  | REJECTED_VOLUME
  | REJECTED_VOLUME_BELOW_MINIMUM
  | REJECTED_ORDER_CHECK
  | FAILED_MT5_UNAVAILABLE
  | FAILED_MT5_STATE_UNKNOWN
  | FAILED_BROKER_TIME_UNKNOWN
  | FAILED_ORDER_SEND
  | REVIEW_REQUIRED

fun status_value :: "execution_status \<Rightarrow> string" where
  "status_value PENDING = ''PENDING''"
| "status_value PROCESSING = ''PROCESSING''"
| "status_value DRY_RUN_APPROVED = ''DRY_RUN_APPROVED''"
| "status_value DRY_RUN_REJECTED = ''DRY_RUN_REJECTED''"
| "status_value EXECUTED = ''EXECUTED''"
| "status_value EXECUTED_PARTIAL = ''EXECUTED_PARTIAL''"
| "status_value RECOVERED_EXECUTED = ''RECOVERED_EXECUTED''"
| "status_value REJECTED_STALE = ''REJECTED_STALE''"
| "status_value REJECTED_FUTURE_TIMESTAMP = ''REJECTED_FUTURE_TIMESTAMP''"
| "status_value REJECTED_SYMBOL = ''REJECTED_SYMBOL''"
| "status_value REJECTED_SYMBOL_UNAVAILABLE = ''REJECTED_SYMBOL_UNAVAILABLE''"
| "status_value REJECTED_RISK = ''REJECTED_RISK''"
| "status_value REJECTED_STOP_LOSS = ''REJECTED_STOP_LOSS''"
| "status_value REJECTED_SPREAD = ''REJECTED_SPREAD''"
| "status_value REJECTED_DAILY_LOSS = ''REJECTED_DAILY_LOSS''"
| "status_value REJECTED_DAILY_TRADE_LIMIT = ''REJECTED_DAILY_TRADE_LIMIT''"
| "status_value REJECTED_POSITION_LIMIT = ''REJECTED_POSITION_LIMIT''"
| "status_value REJECTED_VOLUME = ''REJECTED_VOLUME''"
| "status_value REJECTED_VOLUME_BELOW_MINIMUM = ''REJECTED_VOLUME_BELOW_MINIMUM''"
| "status_value REJECTED_ORDER_CHECK = ''REJECTED_ORDER_CHECK''"
| "status_value FAILED_MT5_UNAVAILABLE = ''FAILED_MT5_UNAVAILABLE''"
| "status_value FAILED_MT5_STATE_UNKNOWN = ''FAILED_MT5_STATE_UNKNOWN''"
| "status_value FAILED_BROKER_TIME_UNKNOWN = ''FAILED_BROKER_TIME_UNKNOWN''"
| "status_value FAILED_ORDER_SEND = ''FAILED_ORDER_SEND''"
| "status_value REVIEW_REQUIRED = ''REVIEW_REQUIRED''"

definition TERMINAL_STATUSES :: "execution_status list" where
  "TERMINAL_STATUSES = [
     DRY_RUN_APPROVED, DRY_RUN_REJECTED, EXECUTED, EXECUTED_PARTIAL, RECOVERED_EXECUTED,
     REJECTED_STALE, REJECTED_FUTURE_TIMESTAMP, REJECTED_SYMBOL, REJECTED_SYMBOL_UNAVAILABLE,
     REJECTED_RISK, REJECTED_STOP_LOSS, REJECTED_SPREAD, REJECTED_DAILY_LOSS,
     REJECTED_DAILY_TRADE_LIMIT, REJECTED_POSITION_LIMIT, REJECTED_VOLUME,
     REJECTED_VOLUME_BELOW_MINIMUM, REJECTED_ORDER_CHECK, FAILED_ORDER_SEND,
     FAILED_MT5_STATE_UNKNOWN, FAILED_BROKER_TIME_UNKNOWN, REVIEW_REQUIRED]"

text \<open>\<open>str.startswith\<close>, and the rule by which \<open>finish\<close> decides to keep the message.\<close>

definition startswith :: "string \<Rightarrow> string \<Rightarrow> bool" where
  "startswith s p = (take (length p) s = p)"

definition is_rejection :: "execution_status \<Rightarrow> bool" where
  "is_rejection st = (startswith (status_value st) ''REJECTED'' \<or> startswith (status_value st) ''FAILED''
     \<or> st = REVIEW_REQUIRED)"

text \<open>
  The messages: one constructor per text of the code, with the values the text interpolates
  (the decimal rendering of the floats is not modelled).
\<close>

datatype reason =
    SignalAgeExceeds pyfloat int
  | SignalInFuture pyfloat
  | MarketBuyDisabled
  | MarketSellDisabled
  | NoSymbolMapping string
  | UnableToConnect
  | UnableToRetrieveAccount
  | UnableToDetermineIdentity
  | SymbolUnavailable string
  | UnableToRetrieveTick
  | UnableToDetermineBrokerTime
  | StopLossRequired
  | BuyStopLossNotBelow
  | SellStopLossNotAbove
  | InvalidQuoteData
  | SpreadExceeds pyfloat int
  | TradesAlreadyExecuted int
  | PositionQueryFailed
  | PositionsAlreadyOpen int
  | InvalidBaselineEquity
  | DailyLossExceeds pyfloat pyfloat
  | RiskPercentOutside pyfloat pyfloat
  | InvalidEntryOrStopLoss
  | OrderCalcProfitFailed
  | NonPositivePerLotRisk
  | InvalidVolumeStep
  | VolumeBelowMinimum
  | OrderCheckFailed "int option" string
  | DryRunSendSkipped
  | NoSendResult
  | BrokerComment string
  | UnexpectedPlaced string
  | OrderSendFailed "int option" string
  | ReconcileMT5Unavailable
  | ReconcileNoHistory

subsection \<open>Lemmas\<close>

lemma status_value_inject: "status_value a = status_value b \<longleftrightarrow> a = b"
  by (cases a; cases b; simp)

lemma action_value_inject: "action_value a = action_value b \<longleftrightarrow> a = b"
  by (cases a; cases b; simp)

lemma is_rejection_simps [simp]:
  "\<not> is_rejection PENDING" "\<not> is_rejection PROCESSING" "\<not> is_rejection DRY_RUN_APPROVED"
  "\<not> is_rejection DRY_RUN_REJECTED" "\<not> is_rejection EXECUTED" "\<not> is_rejection EXECUTED_PARTIAL"
  "\<not> is_rejection RECOVERED_EXECUTED"
  "is_rejection REJECTED_STALE" "is_rejection REJECTED_FUTURE_TIMESTAMP" "is_rejection REJECTED_SYMBOL"
  "is_rejection REJECTED_SYMBOL_UNAVAILABLE" "is_rejection REJECTED_RISK" "is_rejection REJECTED_STOP_LOSS"
  "is_rejection REJECTED_SPREAD" "is_rejection REJECTED_DAILY_LOSS" "is_rejection REJECTED_DAILY_TRADE_LIMIT"
  "is_rejection REJECTED_POSITION_LIMIT" "is_rejection REJECTED_VOLUME"
  "is_rejection REJECTED_VOLUME_BELOW_MINIMUM" "is_rejection REJECTED_ORDER_CHECK"
  "is_rejection FAILED_MT5_UNAVAILABLE" "is_rejection FAILED_MT5_STATE_UNKNOWN"
  "is_rejection FAILED_BROKER_TIME_UNKNOWN" "is_rejection FAILED_ORDER_SEND" "is_rejection REVIEW_REQUIRED"
  by (simp_all add: is_rejection_def startswith_def)

text \<open>The one status that ends a signal and is missing from \<open>TERMINAL_STATUSES\<close>.\<close>

lemma not_terminal_iff:
  "st \<notin> set TERMINAL_STATUSES \<longleftrightarrow> st = PENDING \<or> st = PROCESSING \<or> st = FAILED_MT5_UNAVAILABLE"
  by (cases st) (simp_all add: TERMINAL_STATUSES_def)

end
