(* ===== verification/Database.thy ===== *)
theory Database
  imports Enums
begin

section \<open>The SQLite store (app/storage/database.py, app/storage/migrations.py)\<close>

text \<open>
  The three tables as lists of rows in rowid order, and one function per method of
  \<open>Database\<close>. A method runs under the lock and inside one transaction, so it is one function
  of the whole database; the text of the clock is an argument. What SQLite and its Python module
  enforce is kept: \<open>UNIQUE\<close> and \<open>NOT NULL\<close> under \<open>INSERT OR IGNORE\<close>, the foreign key of an
  execution, \<open>AUTOINCREMENT\<close> with its counter in \<open>sqlite_sequence\<close>, \<open>ON CONFLICT DO NOTHING\<close>, a NaN
  bound to a \<open>REAL\<close> column becoming \<open>NULL\<close>, and the \<open>OverflowError\<close> of an int that does not fit in
  64 bits.
\<close>

record signal_row =
  sg_id :: int
  sg_signal_id :: string
  sg_received_at :: string
  sg_signal_timestamp :: string
  sg_symbol_raw :: string
  sg_symbol_normalized :: "string option"
  sg_action :: string
  sg_risk_percent :: pyfloat
  sg_stop_loss :: "pyfloat option"
  sg_take_profit :: "pyfloat option"
  sg_strategy :: "string option"
  sg_comment :: "string option"
  sg_status :: execution_status
  sg_rejection_reason :: "reason option"
  sg_attempt_count :: int
  sg_last_attempt_at :: "string option"
  sg_created_at :: string
  sg_updated_at :: string

record execution_row =
  ex_id :: int
  ex_signal_id :: string
  ex_account_key :: "string option"
  ex_attempt :: int
  ex_started_at :: string
  ex_finished_at :: "string option"
  ex_dry_run :: int
  ex_mt5_symbol :: "string option"
  ex_requested_action :: string
  ex_calculated_volume :: "pyfloat option"
  ex_entry_price :: "pyfloat option"
  ex_stop_loss :: "pyfloat option"
  ex_take_profit :: "pyfloat option"
  ex_order_check_retcode :: "int option"
  ex_order_send_retcode :: "int option"
  ex_order_ticket :: "int option"
  ex_deal_ticket :: "int option"
  ex_executed_volume :: "pyfloat option"
  ex_executed_price :: "pyfloat option"
  ex_result_message :: "reason option"
  ex_status :: execution_status

record baseline_row =
  bl_account_key :: string
  bl_trading_day :: string
  bl_baseline_equity :: pyfloat
  bl_recorded_at :: string

record db =
  db_signals :: "signal_row list"
  db_signals_seq :: int
  db_executions :: "execution_row list"
  db_executions_seq :: int
  db_baselines :: "baseline_row list"

text \<open>The tables right after \<open>_init_schema\<close> on a new file.\<close>

definition empty_db :: db where
  "empty_db = \<lparr>db_signals = [], db_signals_seq = 0, db_executions = [], db_executions_seq = 0,
     db_baselines = []\<rparr>"

subsection \<open>SQL\<close>

definition sql_real :: "pyfloat option \<Rightarrow> pyfloat option" where
  "sql_real x = (if x = Some NaN then None else x)"

definition update_where :: "('r \<Rightarrow> bool) \<Rightarrow> ('r \<Rightarrow> 'r) \<Rightarrow> 'r list \<Rightarrow> 'r list" where
  "update_where p f rows = map (\<lambda>r. if p r then f r else r) rows"

definition select_one :: "('r \<Rightarrow> bool) \<Rightarrow> 'r list \<Rightarrow> 'r option" where
  "select_one p rows = find p rows"

text \<open>\<open>SELECT ... ORDER BY k ASC LIMIT 1\<close>.\<close>

definition select_first_by :: "('r \<Rightarrow> int) \<Rightarrow> ('r \<Rightarrow> bool) \<Rightarrow> 'r list \<Rightarrow> 'r option" where
  "select_first_by k p rows = (case sort_key k (filter p rows) of [] \<Rightarrow> None | r # _ \<Rightarrow> Some r)"

subsection \<open>Signals\<close>

text \<open>The dictionary \<open>SignalService.submit\<close> passes.\<close>

record signal_dict =
  sd_signal_id :: string
  sd_timestamp :: string
  sd_symbol :: string
  sd_action :: string
  sd_risk_percent :: pyfloat
  sd_stop_loss :: "pyfloat option"
  sd_take_profit :: "pyfloat option"
  sd_strategy :: "string option"
  sd_comment :: "string option"

definition get_signal :: "string \<Rightarrow> db \<Rightarrow> signal_row option" where
  "get_signal signal_id d = select_one (\<lambda>r. sg_signal_id r = signal_id) (db_signals d)"

definition new_signal_row :: "int \<Rightarrow> string \<Rightarrow> signal_dict \<Rightarrow> signal_row" where
  "new_signal_row i now s = \<lparr>sg_id = i, sg_signal_id = sd_signal_id s, sg_received_at = now,
     sg_signal_timestamp = sd_timestamp s, sg_symbol_raw = sd_symbol s, sg_symbol_normalized = None,
     sg_action = sd_action s, sg_risk_percent = sd_risk_percent s,
     sg_stop_loss = sql_real (sd_stop_loss s), sg_take_profit = sql_real (sd_take_profit s),
     sg_strategy = sd_strategy s, sg_comment = sd_comment s, sg_status = PENDING,
     sg_rejection_reason = None, sg_attempt_count = 0, sg_last_attempt_at = None,
     sg_created_at = now, sg_updated_at = now\<rparr>"

text \<open>
  \<open>INSERT OR IGNORE\<close> skips a row that breaks \<open>UNIQUE\<close> or \<open>NOT NULL\<close>. SQLite has drawn the next id
  from the sequence by then, so an ignored row uses one up.
\<close>

definition insert_signal_if_new ::
  "string \<Rightarrow> signal_dict \<Rightarrow> db \<Rightarrow> (signal_row option \<times> bool) \<times> db"
where
  "insert_signal_if_new now s d =
     (let ignored = get_signal (sd_signal_id s) d \<noteq> None \<or> sd_risk_percent s = NaN;
          i = db_signals_seq d + 1;
          d' = (if ignored then d\<lparr>db_signals_seq := i\<rparr>
                else d\<lparr>db_signals := db_signals d @ [new_signal_row i now s], db_signals_seq := i\<rparr>)
      in ((get_signal (sd_signal_id s) d', \<not> ignored), d'))"

definition next_pending :: "db \<Rightarrow> signal_row option" where
  "next_pending d = select_first_by sg_id (\<lambda>r. sg_status r = PENDING) (db_signals d)"

definition claim_next_pending :: "string \<Rightarrow> db \<Rightarrow> signal_row option \<times> db" where
  "claim_next_pending now d =
     (case next_pending d of
        None \<Rightarrow> (None, d)
      | Some row \<Rightarrow>
          let p = (\<lambda>r. sg_signal_id r = sg_signal_id row \<and> sg_status r = PENDING);
              d' = d\<lparr>db_signals := update_where p
                       (\<lambda>r. r\<lparr>sg_status := PROCESSING, sg_attempt_count := sg_attempt_count r + 1,
                               sg_last_attempt_at := Some now, sg_updated_at := now\<rparr>) (db_signals d)\<rparr>
          in if length (filter p (db_signals d)) = 0 then (None, d')
             else (get_signal (sg_signal_id row) d', d'))"

definition update_signal_status ::
  "string \<Rightarrow> string \<Rightarrow> execution_status \<Rightarrow> reason option \<Rightarrow> string option \<Rightarrow> db \<Rightarrow> db"
where
  "update_signal_status now signal_id status rejection_reason symbol_normalized d =
     d\<lparr>db_signals := update_where (\<lambda>r. sg_signal_id r = signal_id)
        (\<lambda>r. r\<lparr>sg_status := status, sg_rejection_reason := rejection_reason,
                sg_symbol_normalized := (case symbol_normalized of None \<Rightarrow> sg_symbol_normalized r
                                         | Some s \<Rightarrow> Some s),
                sg_updated_at := now\<rparr>) (db_signals d)\<rparr>"

definition requeue_signal :: "string \<Rightarrow> string \<Rightarrow> db \<Rightarrow> db" where
  "requeue_signal now signal_id d =
     d\<lparr>db_signals := update_where (\<lambda>r. sg_signal_id r = signal_id)
        (\<lambda>r. r\<lparr>sg_status := PENDING, sg_updated_at := now\<rparr>) (db_signals d)\<rparr>"

definition find_stuck_processing :: "db \<Rightarrow> signal_row list" where
  "find_stuck_processing d = filter (\<lambda>r. sg_status r = PROCESSING) (db_signals d)"

definition set_symbol_normalized :: "string \<Rightarrow> string \<Rightarrow> string \<Rightarrow> db \<Rightarrow> db" where
  "set_symbol_normalized now signal_id symbol_normalized d =
     d\<lparr>db_signals := update_where (\<lambda>r. sg_signal_id r = signal_id)
        (\<lambda>r. r\<lparr>sg_symbol_normalized := Some symbol_normalized, sg_updated_at := now\<rparr>) (db_signals d)\<rparr>"

subsection \<open>ExecutionRecord (app/models/execution.py)\<close>

text \<open>The dataclass of an execution as the models declare it; the store works on \<open>execution_row\<close>.\<close>

record execution_record =
  er_signal_id :: string
  er_attempt :: int
  er_started_at :: string
  er_finished_at :: "string option"
  er_dry_run :: bool
  er_mt5_symbol :: "string option"
  er_requested_action :: string
  er_calculated_volume :: "pyfloat option"
  er_entry_price :: "pyfloat option"
  er_stop_loss :: "pyfloat option"
  er_take_profit :: "pyfloat option"
  er_order_check_retcode :: "int option"
  er_order_send_retcode :: "int option"
  er_order_ticket :: "int option"
  er_deal_ticket :: "int option"
  er_result_message :: "string option"
  er_status :: string

subsection \<open>Executions\<close>

text \<open>A column assignment of \<open>UPDATE executions SET k = :k, ...\<close>.\<close>

datatype execution_field =
    F_account_key string
  | F_finished_at string
  | F_mt5_symbol string
  | F_calculated_volume "pyfloat option"
  | F_entry_price "pyfloat option"
  | F_order_check_retcode "int option"
  | F_order_send_retcode "int option"
  | F_order_ticket "int option"
  | F_deal_ticket "int option"
  | F_executed_volume "pyfloat option"
  | F_executed_price "pyfloat option"
  | F_result_message "reason option"
  | F_status execution_status

fun assign :: "execution_row \<Rightarrow> execution_field \<Rightarrow> execution_row" where
  "assign r (F_account_key v) = r\<lparr>ex_account_key := Some v\<rparr>"
| "assign r (F_finished_at v) = r\<lparr>ex_finished_at := Some v\<rparr>"
| "assign r (F_mt5_symbol v) = r\<lparr>ex_mt5_symbol := Some v\<rparr>"
| "assign r (F_calculated_volume v) = r\<lparr>ex_calculated_volume := sql_real v\<rparr>"
| "assign r (F_entry_price v) = r\<lparr>ex_entry_price := sql_real v\<rparr>"
| "assign r (F_order_check_retcode v) = r\<lparr>ex_order_check_retcode := v\<rparr>"
| "assign r (F_order_send_retcode v) = r\<lparr>ex_order_send_retcode := v\<rparr>"
| "assign r (F_order_ticket v) = r\<lparr>ex_order_ticket := v\<rparr>"
| "assign r (F_deal_ticket v) = r\<lparr>ex_deal_ticket := v\<rparr>"
| "assign r (F_executed_volume v) = r\<lparr>ex_executed_volume := sql_real v\<rparr>"
| "assign r (F_executed_price v) = r\<lparr>ex_executed_price := sql_real v\<rparr>"
| "assign r (F_result_message v) = r\<lparr>ex_result_message := v\<rparr>"
| "assign r (F_status v) = r\<lparr>ex_status := v\<rparr>"

text \<open>The id of the new row, or \<open>IntegrityError\<close> for a signal that does not exist.\<close>

definition insert_execution :: "execution_row \<Rightarrow> db \<Rightarrow> int result \<times> db" where
  "insert_execution rec d =
     (if get_signal (ex_signal_id rec) d = None then (Inl IntegrityError, d)
      else let i = db_executions_seq d + 1;
               row = rec\<lparr>ex_id := i, ex_calculated_volume := sql_real (ex_calculated_volume rec),
                 ex_entry_price := sql_real (ex_entry_price rec), ex_stop_loss := sql_real (ex_stop_loss rec),
                 ex_take_profit := sql_real (ex_take_profit rec),
                 ex_executed_volume := sql_real (ex_executed_volume rec),
                 ex_executed_price := sql_real (ex_executed_price rec)\<rparr>
           in (Inr i, d\<lparr>db_executions := db_executions d @ [row], db_executions_seq := i\<rparr>))"

text \<open>
  Binding a parameter: Python's ints are unbounded, SQLite's have 64 bits. The statement is not
  executed when one of them does not fit.
\<close>

definition sqlite_int :: "int option \<Rightarrow> bool" where
  "sqlite_int v = (case v of None \<Rightarrow> True | Some n \<Rightarrow> - (2 ^ 63) \<le> n \<and> n < 2 ^ 63)"

fun bindable :: "execution_field \<Rightarrow> bool" where
  "bindable (F_order_check_retcode v) = sqlite_int v"
| "bindable (F_order_send_retcode v) = sqlite_int v"
| "bindable (F_order_ticket v) = sqlite_int v"
| "bindable (F_deal_ticket v) = sqlite_int v"
| "bindable _ = True"

definition set_execution :: "int \<Rightarrow> execution_field list \<Rightarrow> db \<Rightarrow> db" where
  "set_execution execution_id assignments d =
     d\<lparr>db_executions := update_where (\<lambda>r. ex_id r = execution_id) (\<lambda>r. foldl assign r assignments)
         (db_executions d)\<rparr>"

definition update_execution :: "int \<Rightarrow> execution_field list \<Rightarrow> db \<Rightarrow> unit result \<times> db" where
  "update_execution execution_id assignments d =
     (if assignments = [] then (Inr (), d)
      else if \<not> list_all bindable assignments then (Inl OverflowError, d)
      else (Inr (), set_execution execution_id assignments d))"

definition get_executions_for_signal :: "string \<Rightarrow> db \<Rightarrow> execution_row list" where
  "get_executions_for_signal signal_id d =
     sort_key ex_attempt (filter (\<lambda>r. ex_signal_id r = signal_id) (db_executions d))"

definition counts_as_trade :: "execution_status \<Rightarrow> bool" where
  "counts_as_trade st \<longleftrightarrow> st \<in> {EXECUTED, EXECUTED_PARTIAL, RECOVERED_EXECUTED}"

definition count_executed_trades_since :: "string \<Rightarrow> string \<Rightarrow> db \<Rightarrow> int" where
  "count_executed_trades_since account_key since_iso d =
     int (length (filter (\<lambda>r. counts_as_trade (ex_status r) \<and> ex_account_key r = Some account_key
                              \<and> since_iso \<le> ex_started_at r) (db_executions d)))"

subsection \<open>Daily loss baseline\<close>

definition get_daily_loss_baseline :: "string \<Rightarrow> string \<Rightarrow> db \<Rightarrow> pyfloat option" where
  "get_daily_loss_baseline account_key trading_day d =
     map_option bl_baseline_equity
       (select_one (\<lambda>b. bl_account_key b = account_key \<and> bl_trading_day b = trading_day) (db_baselines d))"

text \<open>
  A NaN equity is \<open>NULL\<close> in a \<open>NOT NULL\<close> column, which the \<open>ON CONFLICT\<close> clause of the
  primary key does not cover.
\<close>

definition set_daily_loss_baseline ::
  "string \<Rightarrow> string \<Rightarrow> string \<Rightarrow> pyfloat \<Rightarrow> db \<Rightarrow> unit result \<times> db"
where
  "set_daily_loss_baseline now account_key trading_day equity d =
     (if equity = NaN then (Inl IntegrityError, d)
      else if get_daily_loss_baseline account_key trading_day d \<noteq> None then (Inr (), d)
      else (Inr (), d\<lparr>db_baselines := db_baselines d @
             [\<lparr>bl_account_key = account_key, bl_trading_day = trading_day,
               bl_baseline_equity = equity, bl_recorded_at = now\<rparr>]\<rparr>))"

subsection \<open>Well-formed databases\<close>

text \<open>
  What the schema and the methods keep: rowids grow, \<open>signal_id\<close> is unique, an execution
  belongs to a signal, a daily key has one baseline, and no \<open>NOT NULL\<close> float is a NaN.
\<close>

definition signals_ok :: "db \<Rightarrow> bool" where
  "signals_ok d \<longleftrightarrow> sorted_wrt (<) (map sg_id (db_signals d))
     \<and> (\<forall>r \<in> set (db_signals d). sg_id r \<le> db_signals_seq d)
     \<and> distinct (map sg_signal_id (db_signals d))
     \<and> (\<forall>r \<in> set (db_signals d). sg_risk_percent r \<noteq> NaN)"

definition executions_ok :: "db \<Rightarrow> bool" where
  "executions_ok d \<longleftrightarrow> sorted_wrt (<) (map ex_id (db_executions d))
     \<and> (\<forall>e \<in> set (db_executions d). ex_id e \<le> db_executions_seq d)
     \<and> (\<forall>e \<in> set (db_executions d). ex_signal_id e \<in> sg_signal_id ` set (db_signals d))"

definition baselines_ok :: "db \<Rightarrow> bool" where
  "baselines_ok d \<longleftrightarrow> distinct (map (\<lambda>b. (bl_account_key b, bl_trading_day b)) (db_baselines d))
     \<and> (\<forall>b \<in> set (db_baselines d). bl_baseline_equity b \<noteq> NaN)"

definition db_ok :: "db \<Rightarrow> bool" where
  "db_ok d \<longleftrightarrow> signals_ok d \<and> executions_ok d \<and> baselines_ok d"

lemma db_ok_empty [simp]: "db_ok empty_db"
  by (simp add: db_ok_def signals_ok_def executions_ok_def baselines_ok_def empty_db_def)

lemma set_update_where: "set (update_where p f rows) = (\<lambda>r. if p r then f r else r) ` set rows"
  by (simp add: update_where_def)

lemma map_update_where:
  "(\<And>r. r \<in> set rows \<Longrightarrow> p r \<Longrightarrow> k (f r) = k r) \<Longrightarrow> map k (update_where p f rows) = map k rows"
  by (induction rows) (auto simp: update_where_def)

lemma find_update_where:
  "(\<And>r. q (f r) = q r) \<Longrightarrow>
   find q (update_where p f rows) = map_option (\<lambda>r. if p r then f r else r) (find q rows)"
  by (induction rows) (auto simp: update_where_def)

lemma get_signal_Some:
  "get_signal sid d = Some r \<Longrightarrow> r \<in> set (db_signals d) \<and> sg_signal_id r = sid"
  by (auto simp: get_signal_def select_one_def find_Some_iff)

lemma get_signal_None: "get_signal sid d = None \<longleftrightarrow> sid \<notin> sg_signal_id ` set (db_signals d)"
  by (auto simp: get_signal_def select_one_def find_None_iff)

lemma get_signal_of_row:
  assumes "signals_ok d" and "r \<in> set (db_signals d)"
  shows "get_signal (sg_signal_id r) d = Some r"
proof -
  from assms(2) obtain r' where r': "get_signal (sg_signal_id r) d = Some r'"
    using get_signal_None [of "sg_signal_id r" d] by fastforce
  with get_signal_Some [OF r'] assms have "r' = r"
    by (auto simp: signals_ok_def distinct_map inj_on_def)
  with r' show ?thesis by simp
qed

lemma signals_ok_update_where:
  assumes "signals_ok d"
    and "\<And>r. sg_id (f r) = sg_id r" "\<And>r. sg_signal_id (f r) = sg_signal_id r"
    and "\<And>r. sg_risk_percent (f r) = sg_risk_percent r"
  shows "signals_ok (d\<lparr>db_signals := update_where p f (db_signals d)\<rparr>)"
proof -
  have "map sg_id (update_where p f (db_signals d)) = map sg_id (db_signals d)"
    and "map sg_signal_id (update_where p f (db_signals d)) = map sg_signal_id (db_signals d)"
    by (rule map_update_where, rule assms)+
  with assms show ?thesis by (auto simp: signals_ok_def set_update_where)
qed

lemma signal_ids_update_where:
  assumes "\<And>r. sg_signal_id (f r) = sg_signal_id r"
  shows "sg_signal_id ` set (update_where p f rows) = sg_signal_id ` set rows"
proof -
  have "sg_signal_id (if p r then f r else r) = sg_signal_id r" for r by (simp add: assms)
  then show ?thesis by (simp only: set_update_where image_image)
qed

lemma db_ok_update_signals:
  assumes "db_ok d"
    and "\<And>r. sg_id (f r) = sg_id r" "\<And>r. sg_signal_id (f r) = sg_signal_id r"
    and "\<And>r. sg_risk_percent (f r) = sg_risk_percent r"
  shows "db_ok (d\<lparr>db_signals := update_where p f (db_signals d)\<rparr>)"
  using assms signals_ok_update_where [OF _ assms(2-4), where p = p]
  by (auto simp: db_ok_def executions_ok_def baselines_ok_def signal_ids_update_where)

lemma get_signal_update_where:
  assumes "\<And>r. sg_signal_id (f r) = sg_signal_id r"
  shows "get_signal sid (d\<lparr>db_signals := update_where p f (db_signals d)\<rparr>) =
           map_option (\<lambda>r. if p r then f r else r) (get_signal sid d)"
  using assms by (simp add: get_signal_def select_one_def find_update_where)

subsection \<open>Every method keeps the database well-formed\<close>

lemma db_ok_insert_signal: "db_ok d \<Longrightarrow> db_ok (snd (insert_signal_if_new now s d))"
  by (auto simp: insert_signal_if_new_def Let_def db_ok_def signals_ok_def executions_ok_def baselines_ok_def
      new_signal_row_def get_signal_None sorted_wrt_append)

lemma db_ok_claim: "db_ok d \<Longrightarrow> db_ok (snd (claim_next_pending now d))"
  by (auto simp: claim_next_pending_def Let_def split: option.split intro: db_ok_update_signals)

lemma db_ok_update_signal_status: "db_ok d \<Longrightarrow> db_ok (update_signal_status now sid st rs nrm d)"
  unfolding update_signal_status_def by (rule db_ok_update_signals) auto

lemma db_ok_requeue: "db_ok d \<Longrightarrow> db_ok (requeue_signal now sid d)"
  unfolding requeue_signal_def by (rule db_ok_update_signals) auto

lemma db_ok_set_symbol_normalized: "db_ok d \<Longrightarrow> db_ok (set_symbol_normalized now sid nrm d)"
  unfolding set_symbol_normalized_def by (rule db_ok_update_signals) auto

lemma db_ok_insert_execution: "db_ok d \<Longrightarrow> db_ok (snd (insert_execution rec d))"
  by (auto simp: insert_execution_def Let_def db_ok_def signals_ok_def executions_ok_def baselines_ok_def
      get_signal_None sorted_wrt_append)

lemma assign_keeps [simp]:
  "ex_id (assign r a) = ex_id r" "ex_signal_id (assign r a) = ex_signal_id r"
  "ex_attempt (assign r a) = ex_attempt r" "ex_started_at (assign r a) = ex_started_at r"
  "ex_dry_run (assign r a) = ex_dry_run r" "ex_requested_action (assign r a) = ex_requested_action r"
  "ex_stop_loss (assign r a) = ex_stop_loss r" "ex_take_profit (assign r a) = ex_take_profit r"
  by (cases a; simp)+

lemma foldl_assign_keeps [simp]:
  "ex_id (foldl assign r as) = ex_id r" "ex_signal_id (foldl assign r as) = ex_signal_id r"
  "ex_attempt (foldl assign r as) = ex_attempt r" "ex_started_at (foldl assign r as) = ex_started_at r"
  by (induction as arbitrary: r) simp_all

lemma set_execution_Nil [simp]: "set_execution eid [] d = d"
  by (simp add: set_execution_def update_where_def)

lemma update_execution_bindable:
  "list_all bindable as \<Longrightarrow> update_execution eid as = (\<lambda>d. (Inr (), set_execution eid as d))"
  by (auto simp: update_execution_def fun_eq_iff)

lemma update_execution_simps [simp]:
  "fst (update_execution eid as d) = (if list_all bindable as then Inr () else Inl OverflowError)"
  "snd (update_execution eid as d) = (if list_all bindable as then set_execution eid as d else d)"
  "update_execution eid as d = (Inr u, d') \<longleftrightarrow> list_all bindable as \<and> d' = set_execution eid as d"
  by (auto simp: update_execution_def)

lemma db_ok_set_execution:
  assumes "db_ok d"
  shows "db_ok (set_execution eid as d)"
proof -
  have m: "map ex_id (update_where (\<lambda>r. ex_id r = eid) (\<lambda>r. foldl assign r as) (db_executions d))
      = map ex_id (db_executions d)"
    by (rule map_update_where) simp
  from assms show ?thesis
    by (auto simp: set_execution_def db_ok_def signals_ok_def executions_ok_def baselines_ok_def
        m set_update_where)
qed

lemma db_ok_update_execution: "db_ok d \<Longrightarrow> db_ok (snd (update_execution eid as d))"
  by (simp add: db_ok_set_execution)

lemma get_baseline_None:
  "get_daily_loss_baseline k day d = None \<longleftrightarrow>
     (k, day) \<notin> (\<lambda>b. (bl_account_key b, bl_trading_day b)) ` set (db_baselines d)"
  by (auto simp: get_daily_loss_baseline_def select_one_def find_None_iff)

lemma db_ok_set_baseline: "db_ok d \<Longrightarrow> db_ok (snd (set_daily_loss_baseline now k day eq d))"
  by (auto simp: set_daily_loss_baseline_def db_ok_def signals_ok_def executions_ok_def baselines_ok_def
      get_baseline_None)

subsection \<open>How a step may change the database\<close>

text \<open>The columns no method writes after the insertion.\<close>

definition immutable :: "signal_row \<Rightarrow> signal_row" where
  "immutable r = r\<lparr>sg_symbol_normalized := None, sg_status := PENDING, sg_rejection_reason := None,
     sg_attempt_count := 0, sg_last_attempt_at := None, sg_updated_at := []\<rparr>"

text \<open>
  \<open>evolves own d d'\<close>: no signal disappears, its payload and attempt count stay, it does not
  become pending again, only signals of \<open>own\<close> change at all, and a new signal is pending and
  unattempted. Every method but the claim (and the unused \<open>requeue_signal\<close>) evolves the database.
\<close>

definition row_evolves :: "bool \<Rightarrow> signal_row \<Rightarrow> signal_row \<Rightarrow> bool" where
  "row_evolves own r r' \<longleftrightarrow> immutable r' = immutable r \<and> sg_attempt_count r' = sg_attempt_count r
     \<and> (sg_status r' = PENDING \<longrightarrow> sg_status r = PENDING) \<and> (own \<or> r' = r)"

definition evolves :: "(string \<Rightarrow> bool) \<Rightarrow> db \<Rightarrow> db \<Rightarrow> bool" where
  "evolves own d d' \<longleftrightarrow> (db_ok d \<longrightarrow> db_ok d')
     \<and> (\<forall>sid. case get_signal sid d of
            Some r \<Rightarrow> (\<exists>r'. get_signal sid d' = Some r' \<and> row_evolves (own sid) r r')
          | None \<Rightarrow> (\<forall>r'. get_signal sid d' = Some r' \<longrightarrow> sg_status r' = PENDING \<and> sg_attempt_count r' = 0))"

lemma row_evolves_refl [simp]: "row_evolves own r r"
  by (simp add: row_evolves_def)

lemma evolves_refl [simp]: "evolves own d d"
  by (auto simp: evolves_def split: option.split)

lemma evolves_db_ok: "evolves own d d' \<Longrightarrow> db_ok d \<Longrightarrow> db_ok d'"
  by (simp add: evolves_def)

lemma evolves_Some:
  "evolves own d d' \<Longrightarrow> get_signal sid d = Some r \<Longrightarrow>
     \<exists>r'. get_signal sid d' = Some r' \<and> row_evolves (own sid) r r'"
  by (auto simp: evolves_def dest: spec [of _ sid])

lemma evolves_None:
  "evolves own d d' \<Longrightarrow> get_signal sid d = None \<Longrightarrow> get_signal sid d' = Some r' \<Longrightarrow>
     sg_status r' = PENDING \<and> sg_attempt_count r' = 0"
  by (auto simp: evolves_def dest: spec [of _ sid])

lemma evolves_update_where:
  assumes "\<And>r. sg_id (f r) = sg_id r" and "\<And>r. sg_signal_id (f r) = sg_signal_id r"
    and "\<And>r. sg_risk_percent (f r) = sg_risk_percent r"
    and "\<And>r. p r \<Longrightarrow> row_evolves (own (sg_signal_id r)) r (f r)"
  shows "evolves own d (d\<lparr>db_signals := update_where p f (db_signals d)\<rparr>)"
proof -
  have "row_evolves (own sid) r (if p r then f r else r)" if "get_signal sid d = Some r" for sid r
    using assms(4) [of r] get_signal_Some [OF that] by auto
  then show ?thesis
    unfolding evolves_def
    by (auto simp: get_signal_update_where [OF assms(2)] db_ok_update_signals [OF _ assms(1-3)]
        split: option.splits)
qed

lemma immutable_update [simp]:
  "immutable (r\<lparr>sg_status := a\<rparr>) = immutable r"
  "immutable (r\<lparr>sg_rejection_reason := b\<rparr>) = immutable r"
  "immutable (r\<lparr>sg_symbol_normalized := c\<rparr>) = immutable r"
  "immutable (r\<lparr>sg_updated_at := e\<rparr>) = immutable r"
  "immutable (r\<lparr>sg_attempt_count := n\<rparr>) = immutable r"
  "immutable (r\<lparr>sg_last_attempt_at := t\<rparr>) = immutable r"
  by (simp_all add: immutable_def)

lemma evolves_update_signal_status:
  "st \<noteq> PENDING \<Longrightarrow> evolves (\<lambda>s. s = sid) d (update_signal_status now sid st rs nrm d)"
  unfolding update_signal_status_def by (rule evolves_update_where) (auto simp: row_evolves_def)

lemma evolves_set_symbol_normalized:
  "evolves (\<lambda>s. s = sid) d (set_symbol_normalized now sid nrm d)"
  unfolding set_symbol_normalized_def by (rule evolves_update_where) (auto simp: row_evolves_def)

lemma evolves_same_signals:
  "db_signals d' = db_signals d \<Longrightarrow> (db_ok d \<Longrightarrow> db_ok d') \<Longrightarrow> evolves own d d'"
  by (auto simp: evolves_def get_signal_def split: option.split)

lemma db_signals_simps [simp]:
  "db_signals (snd (insert_execution rec d)) = db_signals d"
  "db_signals (set_execution eid as d) = db_signals d"
  "db_signals (snd (set_daily_loss_baseline now k day eq d)) = db_signals d"
  by (simp_all add: insert_execution_def Let_def set_execution_def
      set_daily_loss_baseline_def)

lemma evolves_insert_execution: "evolves own d (snd (insert_execution rec d))"
  by (rule evolves_same_signals) (simp_all add: db_ok_insert_execution)

lemma evolves_update_execution: "evolves own d (snd (update_execution eid as d))"
  by (rule evolves_same_signals) (use db_ok_update_execution [of d eid as] in auto)

lemma evolves_set_baseline: "evolves own d (snd (set_daily_loss_baseline now k day eq d))"
  by (rule evolves_same_signals) (simp_all add: db_ok_set_baseline)

lemma find_append: "find p (xs @ ys) = (case find p xs of None \<Rightarrow> find p ys | Some x \<Rightarrow> Some x)"
  by (induction xs) auto

lemma get_signal_append:
  "get_signal sid (d\<lparr>db_signals := db_signals d @ [r]\<rparr>) =
     (case get_signal sid d of Some x \<Rightarrow> Some x
      | None \<Rightarrow> if sg_signal_id r = sid then Some r else None)"
  by (auto simp: get_signal_def select_one_def find_append split: option.split)

lemma db_ok_signals_seq: "db_ok d \<Longrightarrow> db_signals_seq d \<le> n \<Longrightarrow> db_ok (d\<lparr>db_signals_seq := n\<rparr>)"
  by (fastforce simp: db_ok_def signals_ok_def executions_ok_def baselines_ok_def)

lemma get_signal_seq [simp]: "get_signal sid (d\<lparr>db_signals_seq := n\<rparr>) = get_signal sid d"
  by (simp add: get_signal_def)

lemma evolves_insert_signal: "evolves own d (snd (insert_signal_if_new now s d))"
proof (cases "get_signal (sd_signal_id s) d \<noteq> None \<or> sd_risk_percent s = NaN")
  case True
  have "evolves own d (d\<lparr>db_signals_seq := db_signals_seq d + 1\<rparr>)"
    by (rule evolves_same_signals) (simp_all add: db_ok_signals_seq)
  with True show ?thesis by (auto simp: insert_signal_if_new_def Let_def)
next
  case False
  have "db_ok d \<Longrightarrow> db_ok (snd (insert_signal_if_new now s d))" by (rule db_ok_insert_signal)
  with False show ?thesis
    by (auto simp: evolves_def insert_signal_if_new_def Let_def get_signal_append new_signal_row_def
        split: option.splits)
qed

subsection \<open>The claim\<close>

lemma next_pending_Some:
  assumes "next_pending d = Some row"
  shows "row \<in> set (db_signals d)" and "sg_status row = PENDING"
    and "\<And>r. r \<in> set (db_signals d) \<Longrightarrow> sg_status r = PENDING \<Longrightarrow> sg_id row \<le> sg_id r"
proof -
  let ?ps = "filter (\<lambda>r. sg_status r = PENDING) (db_signals d)"
  obtain rest where s: "sort_key sg_id ?ps = row # rest"
    using assms by (auto simp: next_pending_def select_first_by_def split: list.splits)
  then have "row \<in> set ?ps" by (metis list.set_intros(1) set_sort)
  then show "row \<in> set (db_signals d)" "sg_status row = PENDING" by auto
  have "sorted (map sg_id (row # rest))" by (metis s sorted_sort_key)
  moreover have "set (row # rest) = set ?ps" by (metis s set_sort)
  ultimately show "sg_id row \<le> sg_id r" if "r \<in> set (db_signals d)" "sg_status r = PENDING" for r
    using that by (auto simp: set_eq_iff)
qed

lemma next_pending_None: "next_pending d = None \<longleftrightarrow> (\<forall>r \<in> set (db_signals d). sg_status r \<noteq> PENDING)"
proof -
  have "next_pending d = None \<longleftrightarrow> sort_key sg_id (filter (\<lambda>r. sg_status r = PENDING) (db_signals d)) = []"
    by (auto simp: next_pending_def select_first_by_def split: list.split)
  also have "\<dots> \<longleftrightarrow> filter (\<lambda>r. sg_status r = PENDING) (db_signals d) = []"
    by (metis length_0_conv length_sort)
  finally show ?thesis by (simp add: filter_empty_conv)
qed

text \<open>What the claim writes.\<close>

definition claim_row :: "string \<Rightarrow> signal_row \<Rightarrow> signal_row" where
  "claim_row now r = r\<lparr>sg_status := PROCESSING, sg_attempt_count := sg_attempt_count r + 1,
     sg_last_attempt_at := Some now, sg_updated_at := now\<rparr>"

lemma claim_row_simps [simp]:
  "sg_signal_id (claim_row now r) = sg_signal_id r" "sg_status (claim_row now r) = PROCESSING"
  "sg_attempt_count (claim_row now r) = sg_attempt_count r + 1" "sg_id (claim_row now r) = sg_id r"
  "immutable (claim_row now r) = immutable r" "sg_risk_percent (claim_row now r) = sg_risk_percent r"
  by (simp_all add: claim_row_def)

lemma claim_next_pending_Some:
  assumes ok: "db_ok d" and np: "next_pending d = Some row"
  shows "\<exists>d'. claim_next_pending now d = (Some (claim_row now row), d') \<and> db_ok d'
     \<and> get_signal (sg_signal_id row) d = Some row
     \<and> (\<forall>sid. get_signal sid d' =
            (if sid = sg_signal_id row then Some (claim_row now row) else get_signal sid d))"
proof -
  let ?p = "\<lambda>r. sg_signal_id r = sg_signal_id row \<and> sg_status r = PENDING"
  let ?d = "d\<lparr>db_signals := update_where ?p (claim_row now) (db_signals d)\<rparr>"
  have row: "row \<in> set (db_signals d)" "sg_status row = PENDING" using next_pending_Some [OF np] by auto
  then have g: "get_signal (sg_signal_id row) d = Some row"
    using ok get_signal_of_row by (auto simp: db_ok_def)
  have g': "get_signal sid ?d = (if sid = sg_signal_id row then Some (claim_row now row) else get_signal sid d)"
    for sid
  proof (cases "sid = sg_signal_id row")
    case True
    have "get_signal (sg_signal_id row) ?d = map_option (\<lambda>r. if ?p r then claim_row now r else r) (Some row)"
      unfolding g [symmetric] by (rule get_signal_update_where) simp
    with True row(2) show ?thesis by simp
  next
    case False
    have "get_signal sid ?d = map_option (\<lambda>r. if ?p r then claim_row now r else r) (get_signal sid d)"
      by (rule get_signal_update_where) simp
    also have "\<dots> = get_signal sid d"
      using False by (cases "get_signal sid d") (auto dest: get_signal_Some)
    finally show ?thesis using False by simp
  qed
  from row have "filter ?p (db_signals d) \<noteq> []" by (auto simp: filter_empty_conv)
  then have "claim_next_pending now d = (get_signal (sg_signal_id row) ?d, ?d)"
    by (simp add: claim_next_pending_def np Let_def claim_row_def [abs_def])
  moreover have "db_ok ?d" by (rule db_ok_update_signals [OF ok]) simp_all
  ultimately show ?thesis using g g' by auto
qed

lemma claim_next_pending_None:
  "next_pending d = None \<Longrightarrow> claim_next_pending now d = (None, d)"
  by (simp add: claim_next_pending_def)

subsection \<open>The queue as an interface\<close>

text \<open>
  What the worker relies on: an entry that was taken stays known and is never offered again,
  whatever is put, taken and settled afterwards. \<open>queue_run\<close> collects the keys taken by a
  sequence of operations.
\<close>

datatype ('a, 'c, 'k, 's) queue_op = Put 'a | Take 'c | Settle 'k 's

fun queue_run ::
  "('a \<Rightarrow> 'd \<Rightarrow> 'd) \<Rightarrow> ('c \<Rightarrow> 'd \<Rightarrow> 'k option \<times> 'd) \<Rightarrow> ('k \<Rightarrow> 's \<Rightarrow> 'd \<Rightarrow> 'd)
     \<Rightarrow> ('a, 'c, 'k, 's) queue_op list \<Rightarrow> 'd \<Rightarrow> 'k list \<times> 'd"
where
  "queue_run put pull settle [] d = ([], d)"
| "queue_run put pull settle (Put a # ops) d = queue_run put pull settle ops (put a d)"
| "queue_run put pull settle (Take c # ops) d =
     (let (r, d1) = pull c d; (ks, d2) = queue_run put pull settle ops d1
      in (case r of None \<Rightarrow> ks | Some k \<Rightarrow> k # ks, d2))"
| "queue_run put pull settle (Settle k s # ops) d = queue_run put pull settle ops (settle k s d)"

locale signal_queue =
  fixes inv :: "'d \<Rightarrow> bool"
    and known :: "'d \<Rightarrow> 'k \<Rightarrow> bool"
    and waiting :: "'d \<Rightarrow> 'k \<Rightarrow> bool"
    and put :: "'a \<Rightarrow> 'd \<Rightarrow> 'd"
    and pull :: "'c \<Rightarrow> 'd \<Rightarrow> 'k option \<times> 'd"
    and settle :: "'k \<Rightarrow> 's \<Rightarrow> 'd \<Rightarrow> 'd"
    and settled :: "'s \<Rightarrow> bool"
  assumes put_inv: "inv d \<Longrightarrow> inv (put a d)"
    and take_inv: "inv d \<Longrightarrow> inv (snd (pull c d))"
    and settle_inv: "inv d \<Longrightarrow> inv (settle k s d)"
    and put_taken: "inv d \<Longrightarrow> known d j \<Longrightarrow> known (put a d) j \<and> waiting (put a d) j = waiting d j"
    and take_known: "inv d \<Longrightarrow> known (snd (pull c d)) j = known d j"
    and take_waiting: "inv d \<Longrightarrow> waiting (snd (pull c d)) j = (waiting d j \<and> fst (pull c d) \<noteq> Some j)"
    and take_offers: "inv d \<Longrightarrow> fst (pull c d) = Some j \<Longrightarrow> known d j \<and> waiting d j"
    and settle_known: "inv d \<Longrightarrow> known (settle k s d) j = known d j"
    and settle_waiting: "inv d \<Longrightarrow> settled s \<Longrightarrow> waiting (settle k s d) j \<Longrightarrow> waiting d j"
begin

definition taken :: "'d \<Rightarrow> 'k \<Rightarrow> bool" where
  "taken d k \<longleftrightarrow> known d k \<and> \<not> waiting d k"

definition op_settled :: "('a, 'c, 'k, 's) queue_op \<Rightarrow> bool" where
  "op_settled op \<longleftrightarrow> (case op of Settle k s \<Rightarrow> settled s | _ \<Rightarrow> True)"

lemma taken_stable:
  assumes "inv d" and "taken d k"
  shows "taken (put a d) k" and "taken (snd (pull c d)) k" and "settled s \<Longrightarrow> taken (settle j s d) k"
  using assms put_taken take_known take_waiting settle_known settle_waiting
  by (auto simp: taken_def)

lemma run_keeps:
  assumes "inv d" and "list_all op_settled ops"
  shows "distinct (fst (queue_run put pull settle ops d))
     \<and> (\<forall>k. taken d k \<longrightarrow> k \<notin> set (fst (queue_run put pull settle ops d)))"
  using assms
proof (induction ops arbitrary: d)
  case (Cons op ops)
  show ?case
  proof (cases op)
    case (Put a)
    with Cons.IH [OF put_inv [OF Cons.prems(1)]] Cons.prems taken_stable(1) show ?thesis by auto
  next
    case (Take c)
    obtain r d1 where t: "pull c d = (r, d1)" by (cases "pull c d")
    obtain ks d2 where q: "queue_run put pull settle ops d1 = (ks, d2)"
      by (cases "queue_run put pull settle ops d1")
    have i: "inv d1" using take_inv [OF Cons.prems(1), of c] t by simp
    have s: "taken d1 k" if "taken d k" for k using taken_stable(2) [OF Cons.prems(1) that, of c] t by simp
    have n: "taken d1 k \<and> \<not> taken d k" if "r = Some k" for k
      using take_offers [OF Cons.prems(1), of c k] take_known [OF Cons.prems(1), of c k]
        take_waiting [OF Cons.prems(1), of c k] that t by (auto simp: taken_def)
    show ?thesis using Cons.IH [OF i] Cons.prems(2) s n
      by (cases r) (auto simp: Take t q)
  next
    case (Settle k s)
    with Cons.prems have st: "settled s" by (simp add: op_settled_def)
    from Cons.IH [OF settle_inv [OF Cons.prems(1)]] Cons.prems taken_stable(3) [OF Cons.prems(1) _ st]
    show ?thesis by (auto simp: Settle)
  qed
qed simp

lemma never_taken_twice:
  "inv d \<Longrightarrow> list_all op_settled ops \<Longrightarrow> distinct (fst (queue_run put pull settle ops d))"
  using run_keeps by blast

end

text \<open>The store implements the interface, whatever the clock says at each operation.\<close>

definition db_put :: "string \<times> signal_dict \<Rightarrow> db \<Rightarrow> db" where
  "db_put a d = snd (insert_signal_if_new (fst a) (snd a) d)"

definition db_take :: "string \<Rightarrow> db \<Rightarrow> string option \<times> db" where
  "db_take now d = map_prod (map_option sg_signal_id) id (claim_next_pending now d)"

definition db_settle ::
  "string \<Rightarrow> string \<times> execution_status \<times> reason option \<times> string option \<Rightarrow> db \<Rightarrow> db" where
  "db_settle sid s d = (case s of (now, st, rs, nrm) \<Rightarrow> update_signal_status now sid st rs nrm d)"

definition db_known :: "db \<Rightarrow> string \<Rightarrow> bool" where
  "db_known d sid \<longleftrightarrow> get_signal sid d \<noteq> None"

definition db_waiting :: "db \<Rightarrow> string \<Rightarrow> bool" where
  "db_waiting d sid \<longleftrightarrow> (\<exists>r. get_signal sid d = Some r \<and> sg_status r = PENDING)"

lemma db_take_cases:
  assumes "db_ok d"
  obtains "next_pending d = None" and "db_take now d = (None, d)"
  | row d' where "next_pending d = Some row" and "db_take now d = (Some (sg_signal_id row), d')"
      and "db_ok d'" and "get_signal (sg_signal_id row) d = Some row" and "sg_status row = PENDING"
      and "\<And>sid. get_signal sid d' =
             (if sid = sg_signal_id row then Some (claim_row now row) else get_signal sid d)"
proof (cases "next_pending d")
  case None
  with that(1) show ?thesis by (simp add: db_take_def claim_next_pending_None)
next
  case (Some row)
  with claim_next_pending_Some [OF assms Some, of now] next_pending_Some(2) [OF Some] that(2) show ?thesis
    by (auto simp: db_take_def)
qed

lemma evolves_known:
  assumes "evolves own d d'" and "db_known d sid"
  shows "db_known d' sid"
  using assms evolves_Some [OF assms(1), of sid] by (auto simp: db_known_def)

lemma evolves_waiting:
  assumes "evolves own d d'" and "db_known d sid" and "db_waiting d' sid"
  shows "db_waiting d sid"
  using assms evolves_Some [OF assms(1), of sid] by (auto simp: db_known_def db_waiting_def row_evolves_def)

interpretation sq: signal_queue db_ok db_known db_waiting db_put db_take db_settle
  "\<lambda>(_, st, _, _). st \<noteq> PENDING"
proof unfold_locales
  fix d :: db and a assume "db_ok d"
  then show "db_ok (db_put a d)" by (simp add: db_put_def db_ok_insert_signal)
next
  fix d :: db and now assume "db_ok d"
  then show "db_ok (snd (db_take now d))"
    by (cases rule: db_take_cases [where now = now]) (simp_all add: \<open>db_ok d\<close>)
next
  fix d :: db and k s assume "db_ok d"
  then show "db_ok (db_settle k s d)" by (auto simp: db_settle_def db_ok_update_signal_status split: prod.split)
next
  fix d :: db and a j assume "db_ok d" "db_known d j"
  moreover have e: "evolves (\<lambda>_. False) d (db_put a d)" by (simp add: db_put_def evolves_insert_signal)
  ultimately show "db_known (db_put a d) j \<and> db_waiting (db_put a d) j = db_waiting d j"
    using evolves_known [OF e] evolves_Some [OF e, of j]
    by (auto simp: db_known_def db_waiting_def row_evolves_def)
next
  fix d :: db and now j assume "db_ok d"
  then show "db_known (snd (db_take now d)) j = db_known d j"
    by (cases rule: db_take_cases [where now = now]) (auto simp: db_known_def)
next
  fix d :: db and now j assume "db_ok d"
  then show "db_waiting (snd (db_take now d)) j = (db_waiting d j \<and> fst (db_take now d) \<noteq> Some j)"
    by (cases rule: db_take_cases [where now = now]) (auto simp: db_waiting_def)
next
  fix d :: db and now j assume "db_ok d" "fst (db_take now d) = Some j"
  from this(1) this(2) show "db_known d j \<and> db_waiting d j"
    by (cases rule: db_take_cases [where now = now]) (auto simp: db_known_def db_waiting_def)
next
  fix d :: db and k s j assume "db_ok d"
  show "db_known (db_settle k s d) j = db_known d j"
    by (auto simp: db_known_def db_settle_def update_signal_status_def get_signal_update_where split: prod.split)
next
  fix d :: db and k s j
  assume "db_ok d" "case s of (_, st, _, _) \<Rightarrow> st \<noteq> PENDING" "db_waiting (db_settle k s d) j"
  then show "db_waiting d j"
    by (auto simp: db_waiting_def db_settle_def update_signal_status_def get_signal_update_where
        split: prod.splits if_splits)
qed

subsection \<open>The daily baseline as an interface\<close>

text \<open>A store in which the first value written under a key is the one read ever after.\<close>

locale first_write_wins =
  fixes get :: "'d \<Rightarrow> 'k \<Rightarrow> 'v option"
    and store :: "'k \<Rightarrow> 'i \<Rightarrow> 'd \<Rightarrow> 'd"
    and val :: "'i \<Rightarrow> 'v"
    and storable :: "'i \<Rightarrow> bool"
  assumes get_write: "get (store k i d) j =
    (if j = k \<and> get d k = None \<and> storable i then Some (val i) else get d j)"
begin

lemma get_writes:
  "get (fold (\<lambda>(k, i). store k i) ws d) k =
     (case get d k of Some v \<Rightarrow> Some v
      | None \<Rightarrow> map_of (map (\<lambda>(j, i). (j, val i)) (filter (\<lambda>(j, i). storable i) ws)) k)"
  by (induction ws arbitrary: d) (auto simp: get_write split: option.split prod.split)

lemma written_stays: "get d k = Some v \<Longrightarrow> get (fold (\<lambda>(k, i). store k i) ws d) k = Some v"
  by (simp add: get_writes)

end

definition baseline_write :: "string \<times> string \<Rightarrow> string \<times> pyfloat \<Rightarrow> db \<Rightarrow> db" where
  "baseline_write k i d = snd (set_daily_loss_baseline (fst i) (fst k) (snd k) (snd i) d)"

interpretation fw: first_write_wins "\<lambda>d (account_key, day). get_daily_loss_baseline account_key day d"
  baseline_write snd "\<lambda>i. snd i \<noteq> NaN"
proof unfold_locales
  fix k i d j
  show "(case j of (account_key, day) \<Rightarrow> get_daily_loss_baseline account_key day (baseline_write k i d)) =
    (if j = k \<and> (case k of (account_key, day) \<Rightarrow> get_daily_loss_baseline account_key day d) = None
        \<and> snd i \<noteq> NaN
     then Some (snd i) else (case j of (account_key, day) \<Rightarrow> get_daily_loss_baseline account_key day d))"
    by (cases k; cases j; cases "get_daily_loss_baseline (fst k) (snd k) d")
      (auto simp: baseline_write_def set_daily_loss_baseline_def get_daily_loss_baseline_def
        select_one_def find_append split: option.splits)
qed

end
