(* ===== verification/PyTime.thy ===== *)
theory PyTime
  imports PyText
begin

section \<open>Python datetimes\<close>

text \<open>
  \<open>datetime\<close> as the bridge uses it: the proleptic Gregorian calendar of the years 1 to 9999,
  microseconds, an optional UTC offset in seconds; \<open>isoformat\<close> and \<open>fromisoformat\<close> for the
  text columns of the database, the difference of two datetimes as microseconds, the UTC
  datetime of a POSIX timestamp, and the \<open>%Y-%m-%d\<close> key of a day.
\<close>

record datetime =
  dt_year :: int
  dt_month :: int
  dt_day :: int
  dt_hour :: int
  dt_minute :: int
  dt_second :: int
  dt_us :: int
  dt_offset :: "int option"

subsection \<open>The calendar\<close>

definition is_leap :: "int \<Rightarrow> bool" where
  "is_leap y = (y mod 4 = 0 \<and> (y mod 100 \<noteq> 0 \<or> y mod 400 = 0))"

definition days_in_year :: "int \<Rightarrow> int" where
  "days_in_year y = (if is_leap y then 366 else 365)"

definition days_in_month :: "int \<Rightarrow> int \<Rightarrow> int" where
  "days_in_month y m = (if m = 2 then if is_leap y then 29 else 28
     else if m = 4 \<or> m = 6 \<or> m = 9 \<or> m = 11 then 30 else 31)"

definition days_before_year :: "int \<Rightarrow> int" where
  "days_before_year y = (y - 1) * 365 + (y - 1) div 4 - (y - 1) div 100 + (y - 1) div 400"

definition days_before_month :: "int \<Rightarrow> int \<Rightarrow> int" where
  "days_before_month y m = sum_list (map (days_in_month y) [1..m - 1])"

definition ymd2ord :: "int \<Rightarrow> int \<Rightarrow> int \<Rightarrow> int" where
  "ymd2ord y m d = days_before_year y + days_before_month y m + d"

text \<open>The date of a day number: 400-year cycles, then year by year, then month by month.\<close>

function find_year :: "int \<Rightarrow> int \<Rightarrow> int \<times> int" where
  "find_year y r = (if r < days_in_year y then (y, r) else find_year (y + 1) (r - days_in_year y))"
  by pat_completeness auto
termination
  by (relation "measure (\<lambda>(y, r). nat r)") (auto simp: days_in_year_def split: if_splits)

function find_month :: "int \<Rightarrow> int \<Rightarrow> int \<Rightarrow> int \<times> int" where
  "find_month y m r = (if 12 \<le> m \<or> r < days_in_month y m then (m, r)
     else find_month y (m + 1) (r - days_in_month y m))"
  by pat_completeness auto
termination
  by (relation "measure (\<lambda>(y, m, r). nat (12 - m))") auto

declare find_year.simps [simp del] find_month.simps [simp del]

definition ord2ymd :: "int \<Rightarrow> int \<times> int \<times> int" where
  "ord2ymd n = (let c = (n - 1) div 146097; (y, r) = find_year 1 ((n - 1) mod 146097);
                    (m, d) = find_month (400 * c + y) 1 r
                in (400 * c + y, m, d + 1))"

subsection \<open>Instants\<close>

definition day_us :: int where
  "day_us = 86400000000"

text \<open>The day number of 1970-01-01.\<close>

definition epoch_ord :: int where
  "epoch_ord = 719163"

text \<open>Microseconds since the epoch; a naive datetime is read as UTC.\<close>

definition epoch_us :: "datetime \<Rightarrow> int" where
  "epoch_us t = (ymd2ord (dt_year t) (dt_month t) (dt_day t) - epoch_ord) * day_us
     + (((dt_hour t * 60 + dt_minute t) * 60 + dt_second t)
        - (case dt_offset t of None \<Rightarrow> 0 | Some f \<Rightarrow> f)) * 1000000 + dt_us t"

definition utc_of_us :: "int \<Rightarrow> datetime" where
  "utc_of_us n = (let (y, m, d) = ord2ymd (n div day_us + epoch_ord); r = n mod day_us; s = r div 1000000
     in \<lparr>dt_year = y, dt_month = m, dt_day = d, dt_hour = s div 3600, dt_minute = s div 60 mod 60,
         dt_second = s mod 60, dt_us = r mod 1000000, dt_offset = Some 0\<rparr>)"

text \<open>\<open>datetime.fromtimestamp(t, tz=UTC)\<close> of an int: \<open>ValueError\<close> outside the years 1 to 9999.\<close>

definition min_ts :: int where
  "min_ts = - 62135596800"

definition max_ts :: int where
  "max_ts = 253402300799"

definition fromtimestamp :: "int \<Rightarrow> datetime result" where
  "fromtimestamp t = (if min_ts \<le> t \<and> t \<le> max_ts then Inr (utc_of_us (t * 1000000)) else Inl ValueError)"

definition valid_datetime :: "datetime \<Rightarrow> bool" where
  "valid_datetime t \<longleftrightarrow>
     1 \<le> dt_year t \<and> dt_year t \<le> 9999 \<and> 1 \<le> dt_month t \<and> dt_month t \<le> 12
     \<and> 1 \<le> dt_day t \<and> dt_day t \<le> days_in_month (dt_year t) (dt_month t)
     \<and> 0 \<le> dt_hour t \<and> dt_hour t < 24 \<and> 0 \<le> dt_minute t \<and> dt_minute t < 60
     \<and> 0 \<le> dt_second t \<and> dt_second t < 60 \<and> 0 \<le> dt_us t \<and> dt_us t < 1000000
     \<and> (case dt_offset t of None \<Rightarrow> True | Some f \<Rightarrow> - 86400 < f \<and> f < 86400)"

subsection \<open>Text\<close>

definition date_text :: "datetime \<Rightarrow> string" where
  "date_text t = pad 4 (dt_year t) @ ''-'' @ pad 2 (dt_month t) @ ''-'' @ pad 2 (dt_day t)"

definition offset_text :: "int \<Rightarrow> string" where
  "offset_text f = (let a = \<bar>f\<bar> in (if f < 0 then ''-'' else ''+'') @ pad 2 (a div 3600) @ '':'' @ pad 2 (a div 60 mod 60)
     @ (if a mod 60 = 0 then [] else '':'' @ pad 2 (a mod 60)))"

definition isoformat :: "datetime \<Rightarrow> string" where
  "isoformat t = date_text t @ ''T'' @ pad 2 (dt_hour t) @ '':'' @ pad 2 (dt_minute t) @ '':'' @ pad 2 (dt_second t)
     @ (if dt_us t = 0 then [] else ''.'' @ pad 6 (dt_us t))
     @ (case dt_offset t of None \<Rightarrow> [] | Some f \<Rightarrow> offset_text f)"

text \<open>
  \<open>fromisoformat\<close> on the format \<open>isoformat\<close> writes (the only one the database holds);
  any other text is a \<open>ValueError\<close> of the model.
\<close>

definition num :: "string \<Rightarrow> int result" where
  "num s = (case digits_val s of None \<Rightarrow> Inl ValueError | Some n \<Rightarrow> Inr n)"

definition expect :: "bool \<Rightarrow> unit result" where
  "expect b = (if b then Inr () else Inl ValueError)"

definition parse_fraction :: "string \<Rightarrow> (int \<times> string) result" where
  "parse_fraction s = (case s of
       [] \<Rightarrow> Inr (0, [])
     | c # cs \<Rightarrow> if c = CHR ''.'' then
                   bindE (expect (6 \<le> length cs)) (\<lambda>_.
                   bindE (num (take 6 cs)) (\<lambda>u. Inr (u, drop 6 cs)))
                 else Inr (0, s))"

definition parse_offset :: "string \<Rightarrow> int option result" where
  "parse_offset s = (case s of
       [] \<Rightarrow> Inr None
     | c # cs \<Rightarrow>
         bindE (expect ((c = CHR ''+'' \<or> c = CHR ''-'') \<and> (length cs = 5 \<or> length cs = 8)
                        \<and> cs ! 2 = CHR '':'')) (\<lambda>_.
         bindE (num (take 2 cs)) (\<lambda>h.
         bindE (num (take 2 (drop 3 cs))) (\<lambda>m.
         bindE (if length cs = 5 then Inr 0
                else bindE (expect (cs ! 5 = CHR '':'')) (\<lambda>_. num (drop 6 cs))) (\<lambda>s.
         Inr (Some ((if c = CHR ''-'' then -1 else 1) * ((h * 60 + m) * 60 + s))))))))"

definition fromisoformat :: "string \<Rightarrow> datetime result" where
  "fromisoformat s =
     bindE (expect (19 \<le> length s \<and> s ! 4 = CHR ''-'' \<and> s ! 7 = CHR ''-'' \<and> s ! 10 = CHR ''T''
                    \<and> s ! 13 = CHR '':'' \<and> s ! 16 = CHR '':'')) (\<lambda>_.
     bindE (num (take 4 s)) (\<lambda>y.
     bindE (num (take 2 (drop 5 s))) (\<lambda>mo.
     bindE (num (take 2 (drop 8 s))) (\<lambda>d.
     bindE (num (take 2 (drop 11 s))) (\<lambda>h.
     bindE (num (take 2 (drop 14 s))) (\<lambda>mi.
     bindE (num (take 2 (drop 17 s))) (\<lambda>se.
     bindE (parse_fraction (drop 19 s)) (\<lambda>(u, rest).
     bindE (parse_offset rest) (\<lambda>f.
     let t = \<lparr>dt_year = y, dt_month = mo, dt_day = d, dt_hour = h, dt_minute = mi,
              dt_second = se, dt_us = u, dt_offset = f\<rparr>
     in bindE (expect (valid_datetime t)) (\<lambda>_. Inr t))))))))))"

subsection \<open>The calendar is a bijection\<close>

lemma div_step: "0 < k \<Longrightarrow> y div k = (y - 1) div k + (if y mod k = 0 then 1 else (0::int))"
proof -
  assume k: "0 < k"
  show ?thesis
  proof (cases "y mod k = 0")
    case True
    then obtain q where y: "y = k * q" by auto
    have "(k * q - 1) div k = q - 1"
      using k div_mult_self4 [of k "q - 1" "k - 1"] by (simp add: algebra_simps)
    with y k True show ?thesis by simp
  next
    case False
    with k have "0 < y mod k" using pos_mod_sign [OF k, of y] by linarith
    moreover have "y - 1 = k * (y div k) + (y mod k - 1)" by (simp add: algebra_simps)
    moreover have "y mod k < k" using k by simp
    ultimately have "(y - 1) div k = y div k"
      by (metis add.commute div_mult_self4 div_pos_pos_trivial add_0 k less_irrefl
          diff_ge_0_iff_ge less_diff_eq int_one_le_iff_zero_less less_trans zless_add1_eq add_le_cancel_left diff_add_cancel)
    with False show ?thesis by simp
  qed
qed

lemma days_before_year_step: "days_before_year (y + 1) = days_before_year y + days_in_year y"
proof -
  have i1: "y mod 4 = 0" if "y mod 100 = 0"
    using that dvd_trans [of 4 100 y] by (simp add: mod_eq_0_iff_dvd)
  have i2: "y mod 100 = 0" if "y mod 400 = 0"
    using that dvd_trans [of 100 400 y] by (simp add: mod_eq_0_iff_dvd)
  define a b c where "a = (y mod 4 = 0)" and "b = (y mod 100 = 0)" and "c = (y mod 400 = 0)"
  define p q r p' q' r' where "p = y div 4" and "q = y div 100" and "r = y div 400"
    and "p' = (y - 1) div 4" and "q' = (y - 1) div 100" and "r' = (y - 1) div 400"
  note defs = a_def b_def c_def p_def q_def r_def p'_def q'_def r'_def
  have s: "p = p' + (if a then 1 else 0)" "q = q' + (if b then 1 else 0)" "r = r' + (if c then 1 else 0)"
    unfolding defs by (rule div_step, simp)+
  have l: "is_leap y = (a \<and> (\<not> b \<or> c))" by (simp only: is_leap_def a_def b_def c_def)
  from i1 i2 have i: "b \<Longrightarrow> a" "c \<Longrightarrow> b" by (simp_all only: a_def b_def c_def)
  have "days_before_year (y + 1) = y * 365 + p - q + r"
    by (simp add: days_before_year_def p_def q_def r_def)
  moreover have "days_before_year y = (y - 1) * 365 + p' - q' + r'"
    by (simp add: days_before_year_def p'_def q'_def r'_def)
  ultimately show ?thesis
    unfolding days_in_year_def l s using i by (cases a; cases b; cases c) simp_all
qed

lemma days_before_year_cycle: "days_before_year (400 * c + y) = 146097 * c + days_before_year y"
proof -
  have e: "400 * c + y - 1 = (y - 1) + 400 * c" by simp
  have "(y - 1 + 400 * c) div 4 = (y - 1) div 4 + 100 * c"
    and "(y - 1 + 400 * c) div 100 = (y - 1) div 100 + 4 * c"
    and "(y - 1 + 400 * c) div 400 = (y - 1) div 400 + c"
    using div_mult_self1 [of 4 "y - 1" "100 * c"] div_mult_self1 [of 100 "y - 1" "4 * c"]
      div_mult_self1 [of 400 "y - 1" c] by (simp_all add: mult.commute)
  then show ?thesis unfolding days_before_year_def e by simp
qed

lemma is_leap_cycle [simp]: "is_leap (400 * c + y) = is_leap y"
proof -
  have "(400 * c + y) mod 4 = y mod 4" "(400 * c + y) mod 100 = y mod 100" "(400 * c + y) mod 400 = y mod 400"
    using mod_mult_self1 [of y "100 * c" 4] mod_mult_self1 [of y "4 * c" 100] mod_mult_self1 [of y c 400]
    by (simp_all add: algebra_simps)
  then show ?thesis by (simp add: is_leap_def)
qed

lemma find_year_spec:
  assumes "0 \<le> r"
  shows "case find_year y r of (y', r') \<Rightarrow> y \<le> y' \<and> 0 \<le> r' \<and> r' < days_in_year y'
           \<and> days_before_year y' + r' = days_before_year y + r"
  using assms
proof (induction y r rule: find_year.induct)
  case (1 y r)
  show ?case
  proof (cases "r < days_in_year y")
    case True
    with "1.prems" show ?thesis by (subst find_year.simps) simp
  next
    case False
    then have "0 \<le> r - days_in_year y" by simp
    from "1.IH" [OF False this] False show ?thesis
      by (subst find_year.simps) (auto simp: days_before_year_step)
  qed
qed

lemma days_in_month_pos: "28 \<le> days_in_month y m" and days_in_month_le: "days_in_month y m \<le> 31"
  by (auto simp: days_in_month_def)

lemma days_before_month_1 [simp]: "days_before_month y 1 = 0"
  by (simp add: days_before_month_def)

lemma days_before_month_step:
  assumes "1 \<le> m"
  shows "days_before_month y (m + 1) = days_before_month y m + days_in_month y m"
proof -
  have "[1..m] = [1..m - 1] @ [m]"
    using assms by (simp add: upto_rec2)
  then show ?thesis by (simp add: days_before_month_def)
qed

lemma days_before_month_13: "days_before_month y 13 = days_in_year y"
proof -
  have "[1..12] = [1,2,3,4,5,6,7,8,9,10,11,12 :: int]" by code_simp
  then show ?thesis
    by (simp add: days_before_month_def days_in_month_def days_in_year_def)
qed

lemma find_month_spec:
  assumes "0 \<le> r" and "1 \<le> m" and "m \<le> 12" and "days_before_month y m + r < days_in_year y"
  shows "case find_month y m r of (m', r') \<Rightarrow> 1 \<le> m' \<and> m' \<le> 12 \<and> 0 \<le> r' \<and> r' < days_in_month y m'
           \<and> days_before_month y m' + r' = days_before_month y m + r"
  using assms
proof (induction y m r rule: find_month.induct)
  case (1 y m r)
  show ?case
  proof (cases "r < days_in_month y m")
    case True
    with "1.prems" show ?thesis by (subst find_month.simps) simp
  next
    case False
    have m: "m < 12"
    proof (rule ccontr)
      assume "\<not> m < 12"
      with "1.prems" have "m = 12" by simp
      with "1.prems"(4) False days_before_month_step [of 12 y] days_before_month_13 [of y]
      show False by simp
    qed
    with False have g: "\<not> (12 \<le> m \<or> r < days_in_month y m)" by simp
    from g m "1.prems" have "case find_month y (m + 1) (r - days_in_month y m) of (m', r') \<Rightarrow>
        1 \<le> m' \<and> m' \<le> 12 \<and> 0 \<le> r' \<and> r' < days_in_month y m'
        \<and> days_before_month y m' + r' = days_before_month y (m + 1) + (r - days_in_month y m)"
      by (intro "1.IH") (auto simp: days_before_month_step)
    with g "1.prems"(2) show ?thesis
      by (subst find_month.simps) (auto simp: days_before_month_step)
  qed
qed

text \<open>Every day number has a date, and its day number is the one started from.\<close>

lemma ord2ymd_spec:
  assumes "ord2ymd n = (y, m, d)"
  shows "1 \<le> m \<and> m \<le> 12 \<and> 1 \<le> d \<and> d \<le> days_in_month y m \<and> ymd2ord y m d = n"
proof -
  define c where "c = (n - 1) div 146097"
  define r0 where "r0 = (n - 1) mod 146097"
  obtain y0 r where fy: "find_year 1 r0 = (y0, r)" by (cases "find_year 1 r0")
  obtain m0 q where fm: "find_month (400 * c + y0) 1 r = (m0, q)" by (cases "find_month (400 * c + y0) 1 r")
  have y: "y = 400 * c + y0" and m: "m = m0" and d: "d = q + 1"
    using assms by (auto simp: ord2ymd_def Let_def c_def [symmetric] r0_def [symmetric] fy fm)
  have "0 \<le> r0" by (simp add: r0_def)
  from find_year_spec [OF this, of 1] fy
  have r: "0 \<le> r" "r < days_in_year y0" and eq: "days_before_year y0 + r = r0"
    by (auto simp: days_before_year_def)
  have diy: "days_in_year y = days_in_year y0" by (simp add: y days_in_year_def)
  from find_month_spec [of r 1 y] r fm
  have "1 \<le> m0 \<and> m0 \<le> 12 \<and> 0 \<le> q \<and> q < days_in_month y m0 \<and> days_before_month y m0 + q = r"
    by (auto simp: diy [unfolded y] y)
  moreover have "n - 1 = 146097 * c + r0" by (simp add: c_def r0_def)
  ultimately show ?thesis
    using eq by (simp add: ymd2ord_def m d y days_before_year_cycle)
qed

text \<open>Later dates have larger day numbers.\<close>

lemma days_before_year_mono: "y \<le> y' \<Longrightarrow> days_before_year y \<le> days_before_year y'"
proof (induction y' rule: int_ge_induct)
  case (step i)
  have "0 < days_in_year i" by (simp add: days_in_year_def)
  with step show ?case by (simp add: days_before_year_step)
qed simp

lemma days_before_month_mono:
  assumes "1 \<le> m" and "m \<le> m'"
  shows "days_before_month y m \<le> days_before_month y m'"
  using assms(2,1)
proof (induction m' rule: int_ge_induct)
  case (step i)
  then show ?case using days_before_month_step [of i y] days_in_month_pos [of y i] by simp
qed simp

lemma ymd2ord_within_year:
  assumes "1 \<le> m" "m \<le> 12" "1 \<le> d" "d \<le> days_in_month y m"
  shows "days_before_year y < ymd2ord y m d \<and> ymd2ord y m d \<le> days_before_year (y + 1)"
  using days_before_month_mono [of 1 m y] days_before_month_mono [of "m + 1" 13 y] assms
  by (simp add: ymd2ord_def days_before_month_step days_before_month_13 days_before_year_step)

lemma ymd2ord_less:
  assumes "1 \<le> m" "m \<le> 12" "1 \<le> d" "d \<le> days_in_month y m"
    and "1 \<le> m'" "m' \<le> 12" "1 \<le> d'" "d' \<le> days_in_month y' m'"
    and lex: "y < y' \<or> y = y' \<and> (m < m' \<or> m = m' \<and> d < d')"
  shows "ymd2ord y m d < ymd2ord y' m' d'"
proof (cases "y < y'")
  case True
  with ymd2ord_within_year [OF assms(1-4)] ymd2ord_within_year [OF assms(5-8)]
    days_before_year_mono [of "y + 1" y'] show ?thesis by simp
next
  case False
  with lex have y: "y' = y" and md: "m < m' \<or> m = m' \<and> d < d'" by auto
  show ?thesis
  proof (cases "m < m'")
    case True
    with assms days_before_month_mono [of "m + 1" m' y] show ?thesis
      by (simp add: y ymd2ord_def days_before_month_step)
  next
    case False
    with md show ?thesis by (simp add: y ymd2ord_def)
  qed
qed

subsection \<open>Instants and their datetimes\<close>

definition min_us :: int where
  "min_us = min_ts * 1000000"

definition max_us :: int where
  "max_us = max_ts * 1000000 + 999999"

lemma year_range:
  assumes "days_before_year 1 < n" and "n \<le> days_before_year 10000" and "ord2ymd n = (y, m, d)"
  shows "1 \<le> y \<and> y \<le> 9999"
proof -
  from ord2ymd_spec [OF assms(3)]
  have v: "1 \<le> m" "m \<le> 12" "1 \<le> d" "d \<le> days_in_month y m" and n: "ymd2ord y m d = n" by auto
  note w = ymd2ord_within_year [OF v]
  have "\<not> y + 1 \<le> 1"
    using days_before_year_mono [of "y + 1" 1] w n assms(1) by linarith
  moreover have "\<not> 10000 \<le> y"
    using days_before_year_mono [of 10000 y] w n assms(2) by linarith
  ultimately show ?thesis by linarith
qed

lemma day_number_range:
  assumes "min_us \<le> n" and "n \<le> max_us"
  shows "days_before_year 1 < n div day_us + epoch_ord" and "n div day_us + epoch_ord \<le> days_before_year 10000"
proof -
  from assms have "min_us div day_us \<le> n div day_us" and "n div day_us \<le> max_us div day_us"
    by (auto intro: zdiv_mono1 simp: day_us_def)
  then show "days_before_year 1 < n div day_us + epoch_ord"
    and "n div day_us + epoch_ord \<le> days_before_year 10000"
    by (simp_all add: min_us_def max_us_def min_ts_def max_ts_def day_us_def epoch_ord_def days_before_year_def)
qed

text \<open>The time of day of a count of microseconds.\<close>

lemma second_split:
  fixes s :: int
  shows "((s div 3600) * 60 + s div 60 mod 60) * 60 + s mod 60 = s"
proof -
  have "s div 3600 = s div 60 div 60" by (simp add: div_mult2_eq [symmetric] flip: zdiv_zmult2_eq)
  then have "(s div 3600) * 60 + s div 60 mod 60 = s div 60" by simp
  then show ?thesis by simp
qed

lemma utc_of_us_fields:
  obtains y m d where "ord2ymd (n div day_us + epoch_ord) = (y, m, d)"
    and "utc_of_us n = \<lparr>dt_year = y, dt_month = m, dt_day = d,
           dt_hour = n mod day_us div 1000000 div 3600, dt_minute = n mod day_us div 1000000 div 60 mod 60,
           dt_second = n mod day_us div 1000000 mod 60, dt_us = n mod day_us mod 1000000, dt_offset = Some 0\<rparr>"
  by (cases "ord2ymd (n div day_us + epoch_ord)") (simp add: utc_of_us_def Let_def that)

theorem epoch_us_utc_of_us: "epoch_us (utc_of_us n) = n"
proof -
  obtain y m d where o: "ord2ymd (n div day_us + epoch_ord) = (y, m, d)"
    and u: "utc_of_us n = \<lparr>dt_year = y, dt_month = m, dt_day = d,
           dt_hour = n mod day_us div 1000000 div 3600, dt_minute = n mod day_us div 1000000 div 60 mod 60,
           dt_second = n mod day_us div 1000000 mod 60, dt_us = n mod day_us mod 1000000, dt_offset = Some 0\<rparr>"
    by (rule utc_of_us_fields)
  have "ymd2ord y m d = n div day_us + epoch_ord" using ord2ymd_spec [OF o] by simp
  then have "epoch_us (utc_of_us n) = (n div day_us) * day_us
      + (n mod day_us div 1000000) * 1000000 + n mod day_us mod 1000000"
    by (simp only: u epoch_us_def second_split datetime.select_convs option.case add_diff_cancel_right' diff_zero)
  then show ?thesis by (simp add: div_mult_mod_eq)
qed

theorem valid_utc_of_us:
  assumes "min_us \<le> n" and "n \<le> max_us"
  shows "valid_datetime (utc_of_us n)"
proof -
  obtain y m d where o: "ord2ymd (n div day_us + epoch_ord) = (y, m, d)"
    and u: "utc_of_us n = \<lparr>dt_year = y, dt_month = m, dt_day = d,
           dt_hour = n mod day_us div 1000000 div 3600, dt_minute = n mod day_us div 1000000 div 60 mod 60,
           dt_second = n mod day_us div 1000000 mod 60, dt_us = n mod day_us mod 1000000, dt_offset = Some 0\<rparr>"
    by (rule utc_of_us_fields)
  have r: "0 \<le> n mod day_us" "n mod day_us < day_us" by (auto simp: day_us_def)
  then have s: "0 \<le> n mod day_us div 1000000" "n mod day_us div 1000000 < 86400"
    by (auto simp: day_us_def)
  then have "0 \<le> n mod day_us div 1000000 div 3600 \<and> n mod day_us div 1000000 div 3600 < 24"
    by (auto simp: div_less_iff_less_mult)
  with ord2ymd_spec [OF o] year_range [OF day_number_range [OF assms] o] show ?thesis
    by (simp add: valid_datetime_def u)
qed

text \<open>
  The text of a UTC instant with whole seconds is below the text of another UTC instant
  exactly if the instant is: fixed-width fields, most significant first, and a fraction that
  starts with a dot, which is above the plus sign of the offset.
\<close>

lemma str_le_prefix: "(c # x :: string) \<le> c # y \<longleftrightarrow> x \<le> y"
  by simp

lemma iso_fields_le:
  assumes a: "valid_datetime a" and b: "valid_datetime b"
  shows "date_text a @ ''T'' @ pad 2 (dt_hour a) @ '':'' @ pad 2 (dt_minute a) @ '':'' @ pad 2 (dt_second a) @ x
       \<le> date_text b @ ''T'' @ pad 2 (dt_hour b) @ '':'' @ pad 2 (dt_minute b) @ '':'' @ pad 2 (dt_second b) @ y
     \<longleftrightarrow> dt_year a < dt_year b \<or> dt_year a = dt_year b \<and>
        (dt_month a < dt_month b \<or> dt_month a = dt_month b \<and>
         (dt_day a < dt_day b \<or> dt_day a = dt_day b \<and>
          (dt_hour a < dt_hour b \<or> dt_hour a = dt_hour b \<and>
           (dt_minute a < dt_minute b \<or> dt_minute a = dt_minute b \<and>
            (dt_second a < dt_second b \<or> dt_second a = dt_second b \<and> x \<le> y)))))"
proof -
  have d: "days_in_month p q \<le> 99" for p q using days_in_month_le [of p q] by simp
  from a b d [of "dt_year a" "dt_month a"] d [of "dt_year b" "dt_month b"] show ?thesis
    by (simp add: valid_datetime_def date_text_def pad_append_le del: pad.simps)
qed

text \<open>Whole seconds of a datetime, its offset apart.\<close>

definition wall_seconds :: "datetime \<Rightarrow> int" where
  "wall_seconds t = (ymd2ord (dt_year t) (dt_month t) (dt_day t) - epoch_ord) * 86400
     + ((dt_hour t * 60 + dt_minute t) * 60 + dt_second t)"

lemma epoch_us_wall:
  "dt_offset t = Some 0 \<Longrightarrow> epoch_us t = wall_seconds t * 1000000 + dt_us t"
  by (simp add: epoch_us_def wall_seconds_def day_us_def)

definition fields_less :: "datetime \<Rightarrow> datetime \<Rightarrow> bool" where
  "fields_less a b \<longleftrightarrow> dt_year a < dt_year b \<or> dt_year a = dt_year b \<and>
        (dt_month a < dt_month b \<or> dt_month a = dt_month b \<and>
         (dt_day a < dt_day b \<or> dt_day a = dt_day b \<and>
          (dt_hour a < dt_hour b \<or> dt_hour a = dt_hour b \<and>
           (dt_minute a < dt_minute b \<or> dt_minute a = dt_minute b \<and> dt_second a < dt_second b))))"

definition fields_eq :: "datetime \<Rightarrow> datetime \<Rightarrow> bool" where
  "fields_eq a b \<longleftrightarrow> dt_year a = dt_year b \<and> dt_month a = dt_month b \<and> dt_day a = dt_day b
     \<and> dt_hour a = dt_hour b \<and> dt_minute a = dt_minute b \<and> dt_second a = dt_second b"

lemma fields_trichotomy: "fields_less a b \<or> fields_eq a b \<or> fields_less b a"
  unfolding fields_less_def fields_eq_def by linarith

lemma wall_seconds_less:
  assumes a: "valid_datetime a" and b: "valid_datetime b" and l: "fields_less a b"
  shows "wall_seconds a < wall_seconds b"
proof -
  let ?ta = "(dt_hour a * 60 + dt_minute a) * 60 + dt_second a"
  let ?tb = "(dt_hour b * 60 + dt_minute b) * 60 + dt_second b"
  from a b have t: "0 \<le> ?ta" "?ta < 86400" "0 \<le> ?tb" "?tb < 86400"
    by (auto simp: valid_datetime_def)
  show ?thesis
  proof (cases "dt_year a = dt_year b \<and> dt_month a = dt_month b \<and> dt_day a = dt_day b")
    case True
    with l a b have "?ta < ?tb" by (auto simp: fields_less_def valid_datetime_def)
    with True show ?thesis by (simp add: wall_seconds_def)
  next
    case False
    with l a b have "ymd2ord (dt_year a) (dt_month a) (dt_day a) < ymd2ord (dt_year b) (dt_month b) (dt_day b)"
      by (intro ymd2ord_less) (auto simp: fields_less_def valid_datetime_def)
    with t show ?thesis by (simp add: wall_seconds_def)
  qed
qed

lemma wall_seconds_eq: "fields_eq a b \<Longrightarrow> wall_seconds a = wall_seconds b"
  by (simp add: fields_eq_def wall_seconds_def)

lemma fields_less_iff:
  assumes "valid_datetime a" and "valid_datetime b"
  shows "fields_less a b \<longleftrightarrow> wall_seconds a < wall_seconds b"
    and "fields_eq a b \<longleftrightarrow> wall_seconds a = wall_seconds b"
  using fields_trichotomy [of a b] wall_seconds_less [OF assms] wall_seconds_less [OF assms(2,1)]
    wall_seconds_eq [of a b]
  by (metis less_irrefl less_asym)+

lemma isoformat_split:
  "isoformat t = date_text t @ ''T'' @ pad 2 (dt_hour t) @ '':'' @ pad 2 (dt_minute t) @ '':'' @ pad 2 (dt_second t)
     @ ((if dt_us t = 0 then [] else ''.'' @ pad 6 (dt_us t))
        @ (case dt_offset t of None \<Rightarrow> [] | Some f \<Rightarrow> offset_text f))"
  by (simp add: isoformat_def)

lemma isoformat_le_wall:
  assumes "valid_datetime a" and "valid_datetime b"
    and "dt_us a = 0" and "dt_offset a = Some 0" and "dt_offset b = Some 0"
  shows "isoformat a \<le> isoformat b \<longleftrightarrow> wall_seconds a \<le> wall_seconds b"
proof -
  let ?x = "offset_text 0"
  let ?y = "(if dt_us b = 0 then [] else ''.'' @ pad 6 (dt_us b)) @ offset_text 0"
  have "?x \<le> ?y"
    by (simp add: offset_text_def less_char_def less_le del: pad.simps)
  moreover have "isoformat a \<le> isoformat b \<longleftrightarrow> fields_less a b \<or> fields_eq a b \<and> ?x \<le> ?y"
    unfolding isoformat_split using iso_fields_le [OF assms(1,2), of ?x ?y] assms(3-5)
    by (simp add: fields_less_def fields_eq_def) blast
  ultimately show ?thesis
    using fields_less_iff [OF assms(1,2)] by auto
qed

theorem isoformat_le_iff:
  assumes "min_us \<le> s" "s \<le> max_us" "min_us \<le> t" "t \<le> max_us" and "s mod 1000000 = 0"
  shows "isoformat (utc_of_us s) \<le> isoformat (utc_of_us t) \<longleftrightarrow> s \<le> t"
proof -
  have off: "dt_offset (utc_of_us n) = Some 0" for n
    by (rule utc_of_us_fields [of n]) simp
  have us: "dt_us (utc_of_us n) = n mod 1000000" for n
    by (rule utc_of_us_fields [of n]) (simp add: day_us_def mod_mod_cancel)
  have eq: "n = wall_seconds (utc_of_us n) * 1000000 + n mod 1000000" for n
    using epoch_us_wall [OF off, of n] by (simp add: epoch_us_utc_of_us us)
  have "wall_seconds (utc_of_us s) \<le> wall_seconds (utc_of_us t) \<longleftrightarrow> s \<le> t"
    using eq [of s] eq [of t] assms(5) pos_mod_sign [of 1000000 t] pos_mod_bound [of 1000000 t]
    by linarith
  with isoformat_le_wall [OF valid_utc_of_us [OF assms(1,2)] valid_utc_of_us [OF assms(3,4)]]
  show ?thesis by (simp add: us off assms(5))
qed

subsection \<open>Parsing inverts printing\<close>

lemma num_pad: "0 \<le> n \<Longrightarrow> n < 10 ^ w \<Longrightarrow> num (pad w n) = Inr n"
  by (simp add: num_def digits_val_pad)

lemma pad_2:
  assumes "0 \<le> n" and "n < 100"
  obtains a b where "pad 2 n = [a, b]" and "num [a, b] = Inr n"
proof -
  have "length (pad 2 n) = 2" by simp
  then obtain a b where "pad 2 n = [a, b]" by (auto simp: length_Suc_conv numeral_2_eq_2)
  with num_pad [of n 2] assms that show thesis by simp
qed

lemma pad_4:
  assumes "0 \<le> n" and "n < 10000"
  obtains a b c d where "pad 4 n = [a, b, c, d]" and "num [a, b, c, d] = Inr n"
proof -
  have "length (pad 4 n) = Suc (Suc (Suc (Suc 0)))" by simp
  then obtain a b c d where "pad 4 n = [a, b, c, d]" by (auto simp only: length_Suc_conv length_0_conv)
  with num_pad [of n 4] assms that show thesis by simp
qed

lemma parse_offset_text:
  assumes "- 86400 < f" and "f < 86400"
  shows "parse_offset (offset_text f) = Inr (Some f)"
proof -
  define a where "a = \<bar>f\<bar>"
  have a: "0 \<le> a" "a < 86400" using assms by (auto simp: a_def)
  then have h: "0 \<le> a div 3600" "a div 3600 < 100" by (auto simp: div_less_iff_less_mult)
  have m: "0 \<le> a div 60 mod 60" "a div 60 mod 60 < 100"
    using pos_mod_bound [of 60 "a div 60"] pos_mod_bound [of 60 a] by auto
  have s: "0 \<le> a mod 60" "a mod 60 < 100"
    using pos_mod_bound [of 60 "a div 60"] pos_mod_bound [of 60 a] by auto
  obtain h1 h2 where H: "pad 2 (a div 3600) = [h1, h2]" "num [h1, h2] = Inr (a div 3600)"
    by (rule pad_2 [OF h])
  obtain m1 m2 where M: "pad 2 (a div 60 mod 60) = [m1, m2]" "num [m1, m2] = Inr (a div 60 mod 60)"
    by (rule pad_2 [OF m])
  obtain s1 s2 where S: "pad 2 (a mod 60) = [s1, s2]" "num [s1, s2] = Inr (a mod 60)"
    by (rule pad_2 [OF s])
  have sum: "(a div 3600 * 60 + a div 60 mod 60) * 60 + a mod 60 = a"
    by (rule second_split)
  have sum0: "(a div 3600 * 60 + a div 60 mod 60) * 60 = a" if "a mod 60 = 0"
    using sum that by simp
  have sg: "(if f < 0 then - 1 else 1) * a = f" by (auto simp: a_def)
  show ?thesis
  proof (cases "a mod 60 = 0")
    case True
    then have "offset_text f = (if f < 0 then CHR ''-'' else CHR ''+'') # [h1, h2, CHR '':'', m1, m2]"
      by (simp add: offset_text_def a_def [symmetric] H M)
    with sum0 [OF True] sg show ?thesis
      by (cases "f < 0") (simp_all add: parse_offset_def expect_def H(2) M(2))
  next
    case False
    then have "offset_text f = (if f < 0 then CHR ''-'' else CHR ''+'') # [h1, h2, CHR '':'', m1, m2, CHR '':'', s1, s2]"
      by (simp add: offset_text_def a_def [symmetric] H M S)
    with sum sg show ?thesis
      by (cases "f < 0") (simp_all add: parse_offset_def expect_def H(2) M(2) S(2))
  qed
qed

lemma parse_fraction_text:
  assumes "0 \<le> u" and "u < 1000000" and "\<And>c cs. rest = c # cs \<Longrightarrow> c \<noteq> CHR ''.''"
  shows "parse_fraction ((if u = 0 then [] else ''.'' @ pad 6 u) @ rest) = Inr (u, rest)"
proof (cases "u = 0")
  case True
  with assms(3) show ?thesis by (cases rest) (auto simp: parse_fraction_def)
next
  case False
  have "num (pad 6 u) = Inr u" using assms by (intro num_pad) auto
  with False show ?thesis by (simp add: parse_fraction_def expect_def)
qed

theorem fromisoformat_isoformat:
  assumes "valid_datetime t"
  shows "fromisoformat (isoformat t) = Inr t"
proof -
  let ?off = "case dt_offset t of None \<Rightarrow> [] | Some f \<Rightarrow> offset_text f"
  let ?frac = "(if dt_us t = 0 then [] else ''.'' @ pad 6 (dt_us t)) @ ?off"
  from assms days_in_month_le [of "dt_year t" "dt_month t"]
  have r: "0 \<le> dt_year t" "dt_year t < 10000" "0 \<le> dt_month t" "dt_month t < 100"
    "0 \<le> dt_day t" "dt_day t < 100" "0 \<le> dt_hour t" "dt_hour t < 100"
    "0 \<le> dt_minute t" "dt_minute t < 100" "0 \<le> dt_second t" "dt_second t < 100"
    "0 \<le> dt_us t" "dt_us t < 1000000"
    by (auto simp: valid_datetime_def)
  obtain y1 y2 y3 y4 where Y: "pad 4 (dt_year t) = [y1, y2, y3, y4]" "num [y1, y2, y3, y4] = Inr (dt_year t)"
    by (rule pad_4 [OF r(1,2)])
  obtain a1 a2 where A: "pad 2 (dt_month t) = [a1, a2]" "num [a1, a2] = Inr (dt_month t)"
    by (rule pad_2 [OF r(3,4)])
  obtain d1 d2 where D: "pad 2 (dt_day t) = [d1, d2]" "num [d1, d2] = Inr (dt_day t)"
    by (rule pad_2 [OF r(5,6)])
  obtain h1 h2 where H: "pad 2 (dt_hour t) = [h1, h2]" "num [h1, h2] = Inr (dt_hour t)"
    by (rule pad_2 [OF r(7,8)])
  obtain m1 m2 where M: "pad 2 (dt_minute t) = [m1, m2]" "num [m1, m2] = Inr (dt_minute t)"
    by (rule pad_2 [OF r(9,10)])
  obtain s1 s2 where S: "pad 2 (dt_second t) = [s1, s2]" "num [s1, s2] = Inr (dt_second t)"
    by (rule pad_2 [OF r(11,12)])
  define R where "R = ?frac"
  have iso: "isoformat t = [y1, y2, y3, y4, CHR ''-'', a1, a2, CHR ''-'', d1, d2, CHR ''T'', h1, h2, CHR '':'',
      m1, m2, CHR '':'', s1, s2] @ R"
    by (simp add: isoformat_def date_text_def Y A D H M S R_def del: pad.simps)
  have off: "parse_offset ?off = Inr (dt_offset t)"
  proof (cases "dt_offset t")
    case None
    then show ?thesis by (simp add: parse_offset_def)
  next
    case (Some f)
    with assms show ?thesis by (simp add: valid_datetime_def parse_offset_text)
  qed
  have nodot: "c \<noteq> CHR ''.''" if "?off = c # cs" for c cs
    using that by (auto simp: offset_text_def Let_def split: option.splits if_splits)
  have frac: "parse_fraction R = Inr (dt_us t, ?off)"
    unfolding R_def by (rule parse_fraction_text [OF r(13,14)]) (rule nodot)
  show ?thesis
    unfolding iso fromisoformat_def
    using assms by (simp add: expect_def Y(2) A(2) D(2) H(2) M(2) S(2) frac off Let_def valid_datetime_def)
qed

end
