(* ===== verification/OrderTag.thy ===== *)
theory OrderTag
  imports PyText "HOL-Library.Word"
begin

section \<open>SHA-256 and the comment tag of an order (meb_comment)\<close>

text \<open>
  \<open>hashlib.sha256\<close> of the UTF-8 text of a signal id, as FIPS 180-4 defines it on 32-bit
  words, the hexadecimal digest, and \<open>meb_comment\<close>, which keeps ten hexadecimal digits of it.
\<close>

unbundle bit_operations_syntax

type_synonym u32 = "32 word"

subsection \<open>The compression function\<close>

text \<open>
  The constants are the first 32 bits of the fractional parts of the cube and square roots of
  the first primes, computed here as integer roots of shifted primes.
\<close>

definition int_root :: "nat \<Rightarrow> int \<Rightarrow> int" where
  "int_root k n = fold (\<lambda>b r. if (r + 2 ^ b) ^ k \<le> n then r + 2 ^ b else r) (rev [0..<36]) 0"

definition small_primes :: "int list" where
  "small_primes = filter (\<lambda>p. \<forall>d \<in> set [2..p - 1]. p mod d \<noteq> 0) [2..311]"

definition sha256_k :: "u32 list" where
  "sha256_k = map (\<lambda>p. of_int (int_root 3 (p * 2 ^ 96))) small_primes"

definition sha256_init :: "u32 list" where
  "sha256_init = map (\<lambda>p. of_int (int_root 2 (p * 2 ^ 64))) (take 8 small_primes)"

definition rotr :: "nat \<Rightarrow> u32 \<Rightarrow> u32" where
  "rotr n x = (drop_bit n x) OR (push_bit (32 - n) x)"

definition small_sigma0 :: "u32 \<Rightarrow> u32" where
  "small_sigma0 x = rotr 7 x XOR rotr 18 x XOR drop_bit 3 x"

definition small_sigma1 :: "u32 \<Rightarrow> u32" where
  "small_sigma1 x = rotr 17 x XOR rotr 19 x XOR drop_bit 10 x"

definition big_sigma0 :: "u32 \<Rightarrow> u32" where
  "big_sigma0 x = rotr 2 x XOR rotr 13 x XOR rotr 22 x"

definition big_sigma1 :: "u32 \<Rightarrow> u32" where
  "big_sigma1 x = rotr 6 x XOR rotr 11 x XOR rotr 25 x"

definition sha_ch :: "u32 \<Rightarrow> u32 \<Rightarrow> u32 \<Rightarrow> u32" where
  "sha_ch x y z = (x AND y) XOR (NOT x AND z)"

definition sha_maj :: "u32 \<Rightarrow> u32 \<Rightarrow> u32 \<Rightarrow> u32" where
  "sha_maj x y z = (x AND y) XOR (x AND z) XOR (y AND z)"

text \<open>The message schedule is a window of the next sixteen words.\<close>

fun sha256_rounds :: "u32 list \<Rightarrow> u32 list \<Rightarrow> u32 list \<Rightarrow> u32 list" where
  "sha256_rounds [] w st = st"
| "sha256_rounds (k # ks) w st = (case (w, st) of
     (w0 # ws, [a, b, c, d, e, f, g, h]) \<Rightarrow>
       (let t1 = h + big_sigma1 e + sha_ch e f g + k + w0;
            t2 = big_sigma0 a + sha_maj a b c;
            w16 = small_sigma1 (ws ! 13) + ws ! 8 + small_sigma0 (ws ! 0) + w0
        in sha256_rounds ks (ws @ [w16]) [t1 + t2, a, b, c, d + t1, e, f, g])
     | _ \<Rightarrow> st)"

definition sha256_compress :: "u32 list \<Rightarrow> u32 list \<Rightarrow> u32 list" where
  "sha256_compress st block = map2 (+) st (sha256_rounds sha256_k block st)"

subsection \<open>Padding and the digest\<close>

text \<open>A message is a list of bytes (numbers from 0 to 255).\<close>

fun be_bytes :: "nat \<Rightarrow> int \<Rightarrow> int list" where
  "be_bytes 0 n = []"
| "be_bytes (Suc w) n = be_bytes w (n div 256) @ [n mod 256]"

definition sha256_pad :: "int list \<Rightarrow> int list" where
  "sha256_pad bs = bs @ [128] @ replicate ((119 - length bs mod 64) mod 64) 0
     @ be_bytes 8 (8 * int (length bs))"

fun words_of :: "int list \<Rightarrow> u32 list" where
  "words_of (a # b # c # d # rest) =
     of_int (((a * 256 + b) * 256 + c) * 256 + d) # words_of rest"
| "words_of _ = []"

function sha256_blocks :: "u32 list \<Rightarrow> u32 list \<Rightarrow> u32 list" where
  "sha256_blocks st ws =
     (if length ws < 16 then st else sha256_blocks (sha256_compress st (take 16 ws)) (drop 16 ws))"
  by pat_completeness auto
termination
  by (relation "measure (length \<circ> snd)") auto

declare sha256_blocks.simps [simp del]

definition sha256 :: "int list \<Rightarrow> u32 list" where
  "sha256 bs = sha256_blocks sha256_init (words_of (sha256_pad bs))"

definition hex_digit :: "int \<Rightarrow> char" where
  "hex_digit n = (if n < 10 then char_of (48 + n) else char_of (87 + n))"

fun hex_int :: "nat \<Rightarrow> int \<Rightarrow> string" where
  "hex_int 0 n = []"
| "hex_int (Suc w) n = hex_int w (n div 16) @ [hex_digit (n mod 16)]"

definition hex_word :: "u32 \<Rightarrow> string" where
  "hex_word w = hex_int 8 (uint w)"

definition hexdigest :: "u32 list \<Rightarrow> string" where
  "hexdigest ws = concat (map hex_word ws)"

text \<open>\<open>str.encode("utf-8")\<close> of the code points of the model.\<close>

definition utf8 :: "string \<Rightarrow> int list" where
  "utf8 s = concat (map (\<lambda>c. let n = of_char c :: int
     in if n < 128 then [n] else [192 + n div 64, 128 + n mod 64]) s)"

definition meb_comment :: "string \<Rightarrow> string" where
  "meb_comment signal_id = ''MEB:'' @ take 10 (hexdigest (sha256 (utf8 signal_id)))"

subsection \<open>Lemmas\<close>

lemma length_sha256_rounds: "length st = 8 \<Longrightarrow> length (sha256_rounds ks w st) = 8"
proof (induction ks w st rule: sha256_rounds.induct)
  case (2 k ks w st)
  then show ?case by (auto split: list.splits simp: Let_def)
qed simp

lemma length_sha256_blocks: "length st = 8 \<Longrightarrow> length (sha256_blocks st ws) = 8"
proof (induction st ws rule: sha256_blocks.induct)
  case (1 st ws)
  show ?case
    by (subst sha256_blocks.simps)
      (use 1 in \<open>auto simp: sha256_compress_def length_sha256_rounds\<close>)
qed

lemma length_sha256_init: "length sha256_init = 8"
proof -
  let ?prime = "\<lambda>p :: int. \<forall>d \<in> set [2..p - 1]. p mod d \<noteq> 0"
  have e: "length (filter ?prime [2..19]) = 8" by code_simp
  have g: "8 \<le> length (filter ?prime [2..n])" if "20 \<le> n" for n
  proof -
    have "[2..n] = [2..19] @ [20..n]" using upto_split1 [of 2 20 n] that by simp
    then show ?thesis by (simp only: filter_append length_append e le_add1)
  qed
  have "(20 :: int) \<le> 311" by simp
  then have "8 \<le> length small_primes" unfolding small_primes_def by (rule g)
  then show ?thesis by (simp add: sha256_init_def)
qed

lemma length_sha256: "length (sha256 bs) = 8"
  by (simp add: sha256_def length_sha256_blocks length_sha256_init)

lemma length_hex_int [simp]: "length (hex_int w n) = w"
  by (induction w arbitrary: n) auto

lemma length_be_bytes [simp]: "length (be_bytes w n) = w"
  by (induction w arbitrary: n) auto

lemma length_hexdigest: "length (hexdigest ws) = 8 * length ws"
  by (induction ws) (simp_all add: hexdigest_def hex_word_def)

text \<open>The padded message is whole blocks, so nothing of the message is left unread.\<close>

lemma length_sha256_pad: "length (sha256_pad bs) mod 64 = 0"
proof -
  define k m where "k = length bs div 64" and "m = length bs mod 64"
  have n: "length bs = 64 * k + m" and m: "m < 64" by (simp_all add: k_def m_def)
  have "(119 - m) mod 64 = (if m < 56 then 55 - m else 119 - m)"
    using m by (simp add: mod_if)
  then have "64 * k + m + (119 - m) mod 64 + 9 = 64 * (if m < 56 then k + 1 else k + 2)"
    using m by auto
  moreover have "length (sha256_pad bs) = 64 * k + m + (119 - m) mod 64 + 9"
    using n m by (simp add: sha256_pad_def)
  ultimately show ?thesis by simp
qed

lemma length_words_of: "length (words_of bs) = length bs div 4"
  by (induction bs rule: words_of.induct) auto

lemma meb_comment_length: "length (meb_comment sid) = 14"
  by (simp add: meb_comment_def length_hexdigest length_sha256)

definition hex_digits :: "char set" where
  "hex_digits = set ''0123456789abcdef''"

lemma hex_digit_range:
  assumes "0 \<le> n" and "n < 16"
  shows "hex_digit n \<in> hex_digits"
proof -
  have "\<forall>n \<in> set [0..15]. hex_digit n \<in> hex_digits" by code_simp
  with assms show ?thesis by auto
qed

lemma hex_int_range: "0 \<le> n \<Longrightarrow> set (hex_int w n) \<subseteq> hex_digits"
  by (induction w arbitrary: n) (auto simp: hex_digit_range)

lemma hexdigest_range: "set (hexdigest ws) \<subseteq> hex_digits"
  unfolding hexdigest_def hex_word_def using hex_int_range by fastforce

lemma meb_comment_shape:
  "\<exists>h. meb_comment sid = ''MEB:'' @ h \<and> length h = 10 \<and> set h \<subseteq> hex_digits"
  by (rule exI [of _ "take 10 (hexdigest (sha256 (utf8 sid)))"])
    (use hexdigest_range [of "sha256 (utf8 sid)"] in
      \<open>auto simp: meb_comment_def length_hexdigest length_sha256 dest: in_set_takeD\<close>)

end
