(* ===== verification/Gateway.thy ===== *)
theory Gateway
  imports Database PyTime OrderTag
begin

section \<open>The MetaTrader5 gateway (app/services/mt5_gateway.py)\<close>

text \<open>
  The MetaTrader5 package is not part of the repository: it is a parameter, a record with one
  function per entry point of \<open>MT5Module\<close>. Each function takes its arguments and the state of
  everything outside the process (terminal, broker, operating system clock) and answers a
  value or an exception together with the next outside state. Nothing is assumed of it.
  \<open>MT5Gateway\<close> is then modelled method by method over the shared world.
\<close>

subsection \<open>What the SDK returns\<close>

text \<open>A value of an attribute the bridge only passes on or compares.\<close>

datatype attr = ANone | AInt int | AFloat pyfloat | AStr string

text \<open>Positions, orders and deals: only ever read with \<open>getattr(o, name, default)\<close>.\<close>

type_synonym sdk_object = "(string \<times> attr) list"

definition get_attr :: "sdk_object \<Rightarrow> string \<Rightarrow> attr \<Rightarrow> attr" where
  "get_attr obj name dflt = (case map_of obj name of None \<Rightarrow> dflt | Some v \<Rightarrow> v)"

text \<open>
  Objects the pipeline computes with. An attribute read with a default is an option (None when
  the object lacks it).
\<close>

record account_info =
  ai_server :: "string option"
  ai_login :: "int option"
  ai_equity :: pyfloat
  ai_attrs :: sdk_object

record symbol_info =
  si_point :: "pyfloat option"
  si_volume_min :: "pyfloat option"
  si_volume_max :: "pyfloat option"
  si_volume_step :: "pyfloat option"
  si_filling_mode :: "int option"
  si_visible :: "bool option"

text \<open>The time of a tick: POSIX seconds, or a value \<open>fromtimestamp\<close> refuses.\<close>

datatype tick_time = TimeInt int | TimeInvalid

record tick =
  tk_bid :: pyfloat
  tk_ask :: pyfloat
  tk_time :: tick_time

record trade_result =
  tr_retcode :: "int option"
  tr_comment :: "string option"
  tr_order :: "int option"
  tr_deal :: "int option"
  tr_volume :: "pyfloat option"
  tr_price :: "pyfloat option"

text \<open>The arguments of \<open>initialize\<close> and the request of \<open>order_check\<close> and \<open>order_send\<close>.\<close>

record init_args =
  ia_path :: "string option"
  ia_login :: "int option"
  ia_password :: "string option"
  ia_server :: "string option"

record order_request =
  rq_action :: int
  rq_symbol :: string
  rq_volume :: pyfloat
  rq_type :: int
  rq_price :: pyfloat
  rq_deviation :: int
  rq_magic :: int
  rq_comment :: string
  rq_type_time :: int
  rq_type_filling :: int
  rq_sl :: "pyfloat option"
  rq_tp :: "pyfloat option"

subsection \<open>The SDK and the world\<close>

type_synonym ('s, 'a) sdk_fun = "'s \<Rightarrow> 'a result \<times> 's"

record 's sdk =
  mt_initialize :: "init_args \<Rightarrow> ('s, bool) sdk_fun"
  mt_shutdown :: "('s, unit) sdk_fun"
  mt_last_error :: "('s, string) sdk_fun"
  mt_account_info :: "('s, account_info option) sdk_fun"
  mt_symbol_info :: "string \<Rightarrow> ('s, symbol_info option) sdk_fun"
  mt_symbol_select :: "string \<Rightarrow> bool \<Rightarrow> ('s, bool) sdk_fun"
  mt_symbol_info_tick :: "string \<Rightarrow> ('s, tick option) sdk_fun"
  mt_positions_get :: "('s, sdk_object list option) sdk_fun"
  mt_orders_get :: "('s, sdk_object list option) sdk_fun"
  mt_history_deals_get :: "datetime \<Rightarrow> datetime \<Rightarrow> ('s, sdk_object list option) sdk_fun"
  mt_order_calc_profit ::
    "int \<Rightarrow> string \<Rightarrow> pyfloat \<Rightarrow> pyfloat \<Rightarrow> pyfloat \<Rightarrow> ('s, pyfloat option) sdk_fun"
  mt_order_check :: "order_request \<Rightarrow> ('s, trade_result option) sdk_fun"
  mt_order_send :: "order_request \<Rightarrow> ('s, trade_result option) sdk_fun"
  mt_TRADE_ACTION_DEAL :: int
  mt_ORDER_TIME_GTC :: int
  mt_ORDER_FILLING_FOK :: int
  mt_ORDER_FILLING_IOC :: int
  mt_ORDER_FILLING_RETURN :: int

text \<open>
  A record of every call into the SDK with its answer. The log is a ghost: the code never
  reads it, theorems speak about it.
\<close>

datatype sdk_event =
    E_initialize init_args "bool result"
  | E_shutdown "unit result"
  | E_last_error "string result"
  | E_account_info "account_info option result"
  | E_symbol_info string "symbol_info option result"
  | E_symbol_select string bool "bool result"
  | E_symbol_info_tick string "tick option result"
  | E_positions_get "sdk_object list option result"
  | E_orders_get "sdk_object list option result"
  | E_history_deals_get datetime datetime "sdk_object list option result"
  | E_order_calc_profit int string pyfloat pyfloat pyfloat "pyfloat option result"
  | E_order_check order_request "trade_result option result"
  | E_order_send order_request "trade_result option result"

text \<open>
  The world: what is outside the process, the database file, the gateway's \<open>_connected\<close>
  attribute, and the ghost log.
\<close>

record 's world =
  w_ext :: 's
  w_db :: db
  w_connected :: bool
  w_log :: "sdk_event list"

subsection \<open>Atomic steps of the world\<close>

definition sdk_call :: "('a result \<Rightarrow> sdk_event) \<Rightarrow> ('s, 'a) sdk_fun \<Rightarrow> ('s world, 'a) prog" where
  "sdk_call ev f = atomically (\<lambda>w. let (r, s) = f (w_ext w)
     in (r, w\<lparr>w_ext := s, w_log := w_log w @ [ev r]\<rparr>))"

definition set_connected :: "bool \<Rightarrow> ('s world, unit) prog" where
  "set_connected b = modify (\<lambda>w. w\<lparr>w_connected := b\<rparr>)"

text \<open>\<open>datetime.now(UTC)\<close>: the clock answers microseconds since the epoch.\<close>

type_synonym 's clock = "'s \<Rightarrow> int \<times> 's"

definition utcnow :: "'s clock \<Rightarrow> ('s world, datetime) prog" where
  "utcnow now = atomically (\<lambda>w. let (t, s) = now (w_ext w) in (Inr (utc_of_us t), w\<lparr>w_ext := s\<rparr>))"

text \<open>\<open>_utcnow_iso\<close> of \<open>Database\<close>, on the clock's answer.\<close>

definition utcnow_iso :: "int \<Rightarrow> string" where
  [simp]: "utcnow_iso t = isoformat (utc_of_us t)"

text \<open>One transaction under the lock; \<open>db_step_now\<close> reads the clock inside it.\<close>

definition db_step :: "(db \<Rightarrow> 'a result \<times> db) \<Rightarrow> ('s world, 'a) prog" where
  "db_step f = atomically (\<lambda>w. let (r, d) = f (w_db w) in (r, w\<lparr>w_db := d\<rparr>))"

definition db_step_now :: "'s clock \<Rightarrow> (string \<Rightarrow> db \<Rightarrow> 'a result \<times> db) \<Rightarrow> ('s world, 'a) prog" where
  "db_step_now now f = atomically (\<lambda>w. let (t, s) = now (w_ext w);
       (r, d) = f (utcnow_iso t) (w_db w)
     in (r, w\<lparr>w_ext := s, w_db := d\<rparr>))"

definition db_write :: "(db \<Rightarrow> db) \<Rightarrow> ('s world, unit) prog" where
  "db_write f = db_step (\<lambda>d. (Inr (), f d))"

definition db_write_now :: "'s clock \<Rightarrow> (string \<Rightarrow> db \<Rightarrow> db) \<Rightarrow> ('s world, unit) prog" where
  "db_write_now now f = db_step_now now (\<lambda>t d. (Inr (), f t d))"

definition db_read :: "(db \<Rightarrow> 'a) \<Rightarrow> ('s world, 'a) prog" where
  "db_read f = gets (\<lambda>w. f (w_db w))"

subsection \<open>MT5Gateway\<close>

text \<open>\<open>self._mt5\<close> is the argument \<open>m\<close> of every method: None where the package is missing.\<close>

type_synonym 's mt5 = "'s sdk option"

text \<open>
  \<open>__init__\<close>: the module given, or else the one the import found. A new gateway is not connected
  (\<open>w_connected\<close> is False in a new process). \<open>raw\<close> hands the module out for its constants.
\<close>

definition new_gateway :: "'s mt5 \<Rightarrow> 's mt5 \<Rightarrow> 's mt5" where
  "new_gateway mt5_module imported = (case mt5_module of Some k \<Rightarrow> Some k | None \<Rightarrow> imported)"

definition gw_raw :: "'s mt5 \<Rightarrow> 's mt5" where
  [simp]: "gw_raw m = m"

text \<open>The exception class the module declares; no code of the bridge raises it.\<close>

record mt5_connection_error =
  mce_message :: string

definition mce_str :: "mt5_connection_error \<Rightarrow> string" where
  "mce_str e = mce_message e"

definition gw_available :: "'s mt5 \<Rightarrow> bool" where
  "gw_available m \<longleftrightarrow> m \<noteq> None"

definition gw_last_error :: "'s mt5 \<Rightarrow> ('s world, string option) prog" where
  "gw_last_error m =
     catchP (case m of None \<Rightarrow> Ret None
             | Some k \<Rightarrow> bindP (sdk_call E_last_error (mt_last_error k)) (\<lambda>e. Ret (Some e)))
       (\<lambda>_. Ret None)"

definition gw_account_info :: "'s mt5 \<Rightarrow> ('s world, account_info option) prog" where
  "gw_account_info m = (case m of None \<Rightarrow> Ret None
     | Some k \<Rightarrow> sdk_call E_account_info (mt_account_info k))"

text \<open>The property \<open>connected\<close> probes the terminal with \<open>account_info\<close>.\<close>

definition gw_connected :: "'s mt5 \<Rightarrow> ('s world, bool) prog" where
  "gw_connected m =
     bindP (gets w_connected) (\<lambda>c.
     case m of
       None \<Rightarrow> Ret False
     | Some k \<Rightarrow>
         if \<not> c then Ret False
         else bindP (sdk_call E_account_info (mt_account_info k)) (\<lambda>info.
              bindP (if info = None then set_connected False else Ret ()) (\<lambda>_.
              gets w_connected)))"

text \<open>A false keyword argument is not passed.\<close>

definition truthy_int :: "int option \<Rightarrow> int option" where
  "truthy_int x = (if x = Some 0 then None else x)"

definition truthy_str :: "string option \<Rightarrow> string option" where
  "truthy_str x = (if x = Some [] then None else x)"

definition gw_initialize ::
  "'s mt5 \<Rightarrow> string option \<Rightarrow> int option \<Rightarrow> string option \<Rightarrow> string option \<Rightarrow> ('s world, bool) prog"
where
  "gw_initialize m terminal_path login password server = (case m of
       None \<Rightarrow> Ret False
     | Some k \<Rightarrow>
         let args = \<lparr>ia_path = truthy_str terminal_path, ia_login = truthy_int login,
                     ia_password = truthy_str password, ia_server = truthy_str server\<rparr>
         in bindP (sdk_call (E_initialize args) (mt_initialize k args)) (\<lambda>success.
            bindP (set_connected success) (\<lambda>_.
            bindP (if \<not> success then bindP (gw_last_error m) (\<lambda>_. Ret ()) else Ret ()) (\<lambda>_.
            gets w_connected))))"

definition gw_shutdown :: "'s mt5 \<Rightarrow> ('s world, unit) prog" where
  "gw_shutdown m =
     bindP (case m of
         None \<Rightarrow> Ret ()
       | Some k \<Rightarrow> bindP (gets w_connected) (\<lambda>c.
           if c then sdk_call E_shutdown (mt_shutdown k) else Ret ())) (\<lambda>_.
     set_connected False)"

definition gw_symbol_info :: "'s mt5 \<Rightarrow> string \<Rightarrow> ('s world, symbol_info option) prog" where
  "gw_symbol_info m symbol = (case m of None \<Rightarrow> Ret None
     | Some k \<Rightarrow> sdk_call (E_symbol_info symbol) (mt_symbol_info k symbol))"

definition gw_ensure_symbol :: "'s mt5 \<Rightarrow> string \<Rightarrow> ('s world, symbol_info option) prog" where
  "gw_ensure_symbol m symbol = (case m of
       None \<Rightarrow> Ret None
     | Some k \<Rightarrow>
         bindP (sdk_call (E_symbol_info symbol) (mt_symbol_info k symbol)) (\<lambda>info.
         if (case info of None \<Rightarrow> False | Some i \<Rightarrow> si_visible i \<noteq> Some False) then Ret info
         else bindP (sdk_call (E_symbol_select symbol True) (mt_symbol_select k symbol True)) (\<lambda>selected.
              if \<not> selected then Ret None
              else sdk_call (E_symbol_info symbol) (mt_symbol_info k symbol))))"

definition gw_symbol_info_tick :: "'s mt5 \<Rightarrow> string \<Rightarrow> ('s world, tick option) prog" where
  "gw_symbol_info_tick m symbol = (case m of None \<Rightarrow> Ret None
     | Some k \<Rightarrow> sdk_call (E_symbol_info_tick symbol) (mt_symbol_info_tick k symbol))"

text \<open>\<open>datetime.fromtimestamp(tick.time, tz=UTC)\<close>, every failure of which is caught.\<close>

definition tick_datetime :: "tick_time \<Rightarrow> datetime option" where
  "tick_datetime t = (case t of
       TimeInvalid \<Rightarrow> None
     | TimeInt s \<Rightarrow> (case fromtimestamp s of Inl _ \<Rightarrow> None | Inr d \<Rightarrow> Some d))"

definition gw_server_time :: "'s mt5 \<Rightarrow> string \<Rightarrow> ('s world, datetime option) prog" where
  "gw_server_time m reference_symbol =
     bindP (gw_symbol_info_tick m reference_symbol) (\<lambda>t.
     Ret (case t of None \<Rightarrow> None | Some tk \<Rightarrow> tick_datetime (tk_time tk)))"

definition gw_positions_get :: "'s mt5 \<Rightarrow> ('s world, sdk_object list option) prog" where
  "gw_positions_get m = (case m of None \<Rightarrow> Ret None
     | Some k \<Rightarrow> sdk_call E_positions_get (mt_positions_get k))"

definition gw_orders_get :: "'s mt5 \<Rightarrow> ('s world, sdk_object list option) prog" where
  "gw_orders_get m = (case m of None \<Rightarrow> Ret None
     | Some k \<Rightarrow> sdk_call E_orders_get (mt_orders_get k))"

definition gw_history_deals_get ::
  "'s mt5 \<Rightarrow> datetime \<Rightarrow> datetime \<Rightarrow> ('s world, sdk_object list) prog"
where
  "gw_history_deals_get m date_from date_to = (case m of
       None \<Rightarrow> Ret []
     | Some k \<Rightarrow>
         bindP (sdk_call (E_history_deals_get date_from date_to) (mt_history_deals_get k date_from date_to))
           (\<lambda>result. Ret (case result of None \<Rightarrow> [] | Some ds \<Rightarrow> ds)))"

definition gw_order_calc_profit ::
  "'s mt5 \<Rightarrow> int \<Rightarrow> string \<Rightarrow> pyfloat \<Rightarrow> pyfloat \<Rightarrow> pyfloat \<Rightarrow> ('s world, pyfloat option) prog"
where
  "gw_order_calc_profit m order_type symbol volume price_open price_close = (case m of
       None \<Rightarrow> Ret None
     | Some k \<Rightarrow> sdk_call (E_order_calc_profit order_type symbol volume price_open price_close)
                   (mt_order_calc_profit k order_type symbol volume price_open price_close))"

definition gw_order_check :: "'s mt5 \<Rightarrow> order_request \<Rightarrow> ('s world, trade_result option) prog" where
  "gw_order_check m request = (case m of None \<Rightarrow> Ret None
     | Some k \<Rightarrow> sdk_call (E_order_check request) (mt_order_check k request))"

definition gw_order_send :: "'s mt5 \<Rightarrow> order_request \<Rightarrow> ('s world, trade_result option) prog" where
  "gw_order_send m request = (case m of None \<Rightarrow> Ret None
     | Some k \<Rightarrow> sdk_call (E_order_send request) (mt_order_send k request))"

end
