(* ===== verification/VolumeCalculator.thy ===== *)
theory VolumeCalculator
  imports Gateway
begin

section \<open>Position size (app/services/volume_calculator.py)\<close>

text \<open>
  \<open>calculate_risk_based_volume\<close>: the volume whose loss at the stop, priced by the broker's own
  \<open>order_calc_profit\<close>, is the permitted part of the equity, rounded down to the volume step.
  The pure arithmetic after the broker's answer is \<open>size_volume\<close>.
\<close>

definition ORDER_TYPE_BUY :: int where
  "ORDER_TYPE_BUY = 0"

definition ORDER_TYPE_SELL :: int where
  "ORDER_TYPE_SELL = 1"

definition order_type_of :: "string \<Rightarrow> int" where
  "order_type_of action = (if action = action_value BUY then ORDER_TYPE_BUY else ORDER_TYPE_SELL)"

record volume_result =
  vr_ok :: bool
  vr_volume :: "pyfloat option"
  vr_reason :: "reason option"

definition vr_fail :: "pyfloat option \<Rightarrow> reason \<Rightarrow> volume_result" where
  "vr_fail v r = \<lparr>vr_ok = False, vr_volume = v, vr_reason = Some r\<rparr>"

definition size_volume ::
  "pyfloat \<Rightarrow> pyfloat \<Rightarrow> pyfloat \<Rightarrow> pyfloat \<Rightarrow> pyfloat \<Rightarrow> pyfloat \<Rightarrow> volume_result result"
where
  "size_volume loss_for_one_lot equity risk_percent volume_min volume_max volume_step =
     (let risk_per_lot = f_abs loss_for_one_lot
      in if fle risk_per_lot (Fin 0) then Inr (vr_fail None NonPositivePerLotRisk)
         else bindE (fdiv risk_percent (Fin 100)) (\<lambda>fraction.
              let allowed_loss = fmul equity fraction
              in bindE (fdiv allowed_loss risk_per_lot) (\<lambda>raw_volume.
                 if fle volume_step (Fin 0) then Inr (vr_fail None InvalidVolumeStep)
                 else bindE (fdiv raw_volume volume_step) (\<lambda>ratio.
                      bindE (py_floor ratio) (\<lambda>steps.
                      bindE (float_of_int steps) (\<lambda>fsteps.
                      let volume = round_digits 8 (fmul fsteps volume_step)
                      in if flt volume volume_min then Inr (vr_fail (Some volume) VolumeBelowMinimum)
                         else Inr \<lparr>vr_ok = True, vr_volume = Some (fmin volume volume_max),
                                   vr_reason = None\<rparr>))))))"

text \<open>A missing stop loss makes the comparison \<open>stop_loss <= 0\<close> a \<open>TypeError\<close>.\<close>

definition calculate_risk_based_volume ::
  "'s mt5 \<Rightarrow> string \<Rightarrow> string \<Rightarrow> pyfloat \<Rightarrow> pyfloat option \<Rightarrow> pyfloat \<Rightarrow> pyfloat
     \<Rightarrow> pyfloat \<Rightarrow> pyfloat \<Rightarrow> pyfloat \<Rightarrow> ('s world, volume_result) prog"
where
  "calculate_risk_based_volume gateway symbol action entry_price stop_loss equity risk_percent
     volume_min volume_max volume_step =
     (if fle entry_price (Fin 0) then Ret (vr_fail None InvalidEntryOrStopLoss)
      else case stop_loss of
        None \<Rightarrow> Throw TypeError
      | Some sl \<Rightarrow>
          if fle sl (Fin 0) then Ret (vr_fail None InvalidEntryOrStopLoss)
          else bindP (gw_order_calc_profit gateway (order_type_of action) symbol (Fin 1) entry_price sl)
            (\<lambda>loss. case loss of
                None \<Rightarrow> Ret (vr_fail None OrderCalcProfitFailed)
              | Some loss_for_one_lot \<Rightarrow>
                  liftE (size_volume loss_for_one_lot equity risk_percent volume_min volume_max volume_step)))"

subsection \<open>The volume, exactly\<close>

text \<open>One rounding moves a nonnegative value up by a factor \<open>1 + 2^-53\<close> and a last bit at most.\<close>

definition ulp53 :: rat where
  "ulp53 = 1 / 2 ^ 53"

lemma ulp53_pos: "0 < ulp53" "ulp53 < 1"
  by (simp_all add: ulp53_def)

text \<open>Powers of two, kept folded, and the smallest normal double.\<close>

definition p2 :: "int \<Rightarrow> rat" where
  "p2 e = 2 powi e"

lemma p2_pos [simp]: "0 < p2 e"
  by (simp add: p2_def)

lemma p2_nonneg [simp]: "0 \<le> p2 e"
  by (simp add: less_imp_le)

lemma p2_le_iff [simp]: "p2 a \<le> p2 b \<longleftrightarrow> a \<le> b"
  by (simp only: p2_def powi_2_le_iff)

lemma p2_add: "p2 (a + b) = p2 a * p2 b"
  by (simp only: p2_def powi_2_add)

lemma p2_nat: "p2 (int n) = 2 ^ n"
  by (simp add: p2_def)

lemma round_val_p2 [simp]: "- 1074 \<le> e \<Longrightarrow> round_val (p2 e) = p2 e"
  by (simp only: p2_def round_val_powi)

lemma round_val_p2_le: "- 1074 \<le> e \<Longrightarrow> p2 e \<le> z \<Longrightarrow> p2 e \<le> round_val z"
  using round_val_mono [of "p2 e" z] by simp

lemma round_val_le_p2: "- 1074 \<le> e \<Longrightarrow> z \<le> p2 e \<Longrightarrow> round_val z \<le> p2 e"
  using round_val_mono [of z "p2 e"] by simp

lemma p2_mult_le: "p2 a \<le> x \<Longrightarrow> p2 b \<le> y \<Longrightarrow> p2 (a + b) \<le> x * y"
  unfolding p2_add by (rule mult_mono) (auto intro: order_trans [OF p2_nonneg])

lemma mult_le_p2: "0 \<le> x \<Longrightarrow> x \<le> p2 a \<Longrightarrow> 0 \<le> y \<Longrightarrow> y \<le> p2 b \<Longrightarrow> x * y \<le> p2 (a + b)"
  unfolding p2_add by (rule mult_mono) auto

lemma p2_div_le: "0 < y \<Longrightarrow> p2 a \<le> x \<Longrightarrow> y \<le> p2 b \<Longrightarrow> p2 (a - b) \<le> x / y"
proof -
  assume y: "0 < y" "p2 a \<le> x" "y \<le> p2 b"
  have "p2 (a - b) * y \<le> p2 (a - b) * p2 b" using y by (intro mult_left_mono) auto
  also have "\<dots> = p2 a" by (simp add: p2_add [symmetric])
  finally show ?thesis using y by (simp add: le_divide_eq)
qed

lemma div_le_p2: "p2 b \<le> y \<Longrightarrow> x \<le> p2 a \<Longrightarrow> x / y \<le> p2 (a - b)"
proof -
  assume y: "p2 b \<le> y" "x \<le> p2 a"
  then have "0 < y" using p2_pos [of b] by linarith
  have "p2 a = p2 (a - b) * p2 b" by (simp add: p2_add [symmetric])
  also have "\<dots> \<le> p2 (a - b) * y" using y by (intro mult_left_mono) auto
  finally have "x \<le> p2 (a - b) * y" using y by simp
  then show ?thesis using \<open>0 < y\<close> by (simp add: divide_le_eq)
qed

definition tiny :: rat where
  "tiny = p2 (- 1022)"

lemma tiny_pos [simp]: "0 < tiny"
  by (simp add: tiny_def)

lemma tiny_le: "tiny \<le> 1 / 2 ^ 60"
proof -
  have "p2 (- 1022) \<le> p2 (- 60)" by simp
  also have "p2 (- 60) = 1 / 2 ^ 60" by (simp add: p2_def power_int_def power_one_over)
  finally show ?thesis by (simp only: tiny_def)
qed

lemma round_val_tiny: "round_val tiny = tiny"
  by (simp add: tiny_def)

lemma round_val_up:
  assumes "tiny \<le> x"
  shows "round_val x \<le> x * (1 + ulp53)"
proof -
  have x: "0 < x" using assms tiny_pos by linarith
  with assms have "2 powi (- 1022) \<le> \<bar>x\<bar>" by (simp only: tiny_def p2_def abs_of_pos)
  from round_val_rel_error [OF this] x have "\<bar>round_val x - x\<bar> \<le> x * ulp53" by (simp add: ulp53_def)
  from abs_le_D1 [OF this] show ?thesis by (simp add: algebra_simps)
qed

lemma round_val_up_abs:
  assumes "0 \<le> x"
  shows "round_val x \<le> x * (1 + ulp53) + tiny"
proof (cases "tiny \<le> x")
  case True
  then show ?thesis using round_val_up [OF True] tiny_pos by linarith
next
  case False
  then have "round_val x \<le> round_val (tiny)" by (intro round_val_mono) simp
  also have "\<dots> = tiny" by (rule round_val_tiny)
  also have "\<dots> \<le> x * (1 + ulp53) + tiny" using assms by (simp add: ulp53_def)
  finally show ?thesis .
qed

text \<open>What \<open>size_volume\<close> computes on finite inputs, step by step.\<close>

lemma size_volume_ok:
  assumes "size_volume loss eq rp vmin vmax step = Inr v" and "vr_ok v"
  shows "\<exists>raw ratio steps fsteps vol. bindE (fdiv rp (Fin 100)) (\<lambda>f. fdiv (fmul eq f) (f_abs loss)) = Inr raw
    \<and> \<not> fle (f_abs loss) (Fin 0) \<and> \<not> fle step (Fin 0)
    \<and> fdiv raw step = Inr ratio \<and> py_floor ratio = Inr steps \<and> float_of_int steps = Inr fsteps
    \<and> vol = round_digits 8 (fmul fsteps step) \<and> \<not> flt vol vmin
    \<and> v = \<lparr>vr_ok = True, vr_volume = Some (fmin vol vmax), vr_reason = None\<rparr>"
  using assms
  by (auto simp: size_volume_def Let_def bindE_eq_Inr vr_fail_def split: if_splits)

lemma size_volume_volume:
  "size_volume loss eq rp vmin vmax step = Inr v \<Longrightarrow> vr_ok v \<Longrightarrow> \<exists>x. vr_volume v = Some x"
  by (drule (1) size_volume_ok) auto

text \<open>Within the broker's limits: not below the minimum unless the maximum is, never above the maximum.\<close>

lemma size_volume_limits:
  assumes "size_volume loss eq rp vmin vmax step = Inr v" and "vr_ok v" and "vr_volume v = Some x"
    and "vmin \<noteq> NaN" and "vmax \<noteq> NaN" and "x \<noteq> NaN"
  shows "fle x vmax" and "fle vmin x \<or> x = vmax"
proof -
  from size_volume_ok [OF assms(1,2)] obtain vol where v: "x = fmin vol vmax" "\<not> flt vol vmin"
    using assms(3) by auto
  then have "vol \<noteq> NaN" using assms(6) by (cases vmax) (auto simp: fmin_def)
  then show "fle x vmax" using v assms(5) by (simp add: fmin_le_right)
  show "fle vmin x \<or> x = vmax" using v \<open>vol \<noteq> NaN\<close> assms(4) by (auto simp: fmin_def not_flt_fle)
qed

text \<open>
  The rounding down: the volume is at most the raw volume, up to three roundings and the
  eighth decimal.
\<close>

lemma floor_volume_le:
  assumes raw: "0 \<le> raw" and step: "0 < step"
    and ratio: "fdiv (Fin raw) (Fin step) = Inr ratio" and steps: "py_floor ratio = Inr steps"
    and f: "float_of_int steps = Inr (Fin fs)"
  shows "fs * step \<le> raw * (1 + ulp53)" and "0 \<le> fs"
proof -
  from ratio step obtain q where q: "ratio = Fin q" "q = round_val (raw / step)"
    using steps by (cases "rnd (raw / step)") (auto simp: rnd_eq_Fin_iff)
  have "0 \<le> q" using q(2) raw step by (simp add: round_val_nonneg)
  have st: "steps = \<lfloor>q\<rfloor>" using steps q by simp
  have fs: "fs = round_val (of_int steps)"
    using f by (auto simp: float_of_int_def rnd_eq_Fin_iff split: pyfloat.splits)
  show "0 \<le> fs" using \<open>0 \<le> q\<close> by (simp add: fs st round_val_nonneg)
  have "of_int steps \<le> q" by (simp add: st)
  then have "fs \<le> round_val q" unfolding fs by (rule round_val_mono)
  also have "\<dots> = q" by (simp add: q)
  finally have fsq: "fs \<le> q" .
  show "fs * step \<le> raw * (1 + ulp53)"
  proof (cases "tiny \<le> raw / step")
    case True
    have "fs \<le> raw / step * (1 + ulp53)" using fsq round_val_up [OF True] q(2) by simp
    then show ?thesis using step by (simp add: field_simps)
  next
    case False
    then have "q \<le> round_val (1 / 2)"
      unfolding q(2) by (intro round_val_mono) (use tiny_le in simp)
    also have "round_val (1/2) = 1/2" using round_val_powi [of "-1"] by (simp add: power_int_minus)
    finally have "steps \<le> 0" by (simp add: st)
    then have "fs \<le> 0" unfolding fs using r64.nonpos by simp
    then have "fs * step \<le> 0" using step by (simp add: mult_le_0_iff)
    also have "0 \<le> raw * (1 + ulp53)" using raw by (simp add: ulp53_def)
    finally show ?thesis .
  qed
qed

lemma round_even_le: "of_int (round_even x) \<le> x + 1 / 2"
  using abs_le_D1 [OF round_even_error [of x]] by (simp only: diff_le_eq add.commute)

lemma round_digits_8_le:
  assumes "0 \<le> x" and "round_digits 8 (Fin x) = Fin y"
  shows "y \<le> (x + 1 / (2 * 10 ^ 8)) * (1 + ulp53) + tiny"
proof -
  let ?z = "of_int (round_even (x * 10 ^ 8)) / 10 ^ 8 :: rat"
  have y: "y = round_val ?z" using assms(2) by (auto simp: rnd_eq_Fin_iff)
  have z0: "0 \<le> ?z" using round_even_mono [of 0 "x * 10 ^ 8"] assms(1) by simp
  have "?z \<le> (x * 10 ^ 8 + 1 / 2) / 10 ^ 8" using round_even_le by (intro divide_right_mono) auto
  then have z: "?z \<le> x + 1 / (2 * 10 ^ 8)" by (simp add: field_simps)
  have "y \<le> ?z * (1 + ulp53) + tiny" unfolding y by (rule round_val_up_abs [OF z0])
  also have "?z * (1 + ulp53) \<le> (x + 1 / (2 * 10 ^ 8)) * (1 + ulp53)"
    by (rule mult_right_mono [OF z]) (simp add: ulp53_def)
  finally show ?thesis by simp
qed


text \<open>The raw volume, priced at one lot's loss, is the permitted loss up to three roundings.\<close>

lemma rnd_mid:
  assumes "0 \<le> z" and "z \<le> p2 900"
  shows "rnd z = Fin (round_val z)"
proof -
  have "round_val z \<le> p2 900" by (rule round_val_le_p2 [OF _ assms(2)]) simp
  moreover have "0 \<le> round_val z" by (rule round_val_nonneg) fact
  moreover have "p2 900 < p2 (int 1024)" by (simp add: less_le_not_le)
  ultimately show ?thesis by (simp only: rnd_eq_Fin_iff abs_of_nonneg p2_nat) simp
qed

text \<open>Inputs within these ranges keep every intermediate value normal and finite.\<close>

definition moderate :: "rat \<Rightarrow> bool" where
  "moderate x \<longleftrightarrow> p2 (- 100) \<le> x \<and> x \<le> p2 100"

lemma moderate_pos: "moderate x \<Longrightarrow> 0 < x"
  unfolding moderate_def using p2_pos [of "- 100"] by linarith

lemma round_val_up_p2:
  assumes "- 1022 \<le> e" and "p2 e \<le> x"
  shows "round_val x \<le> x * (1 + ulp53)"
proof -
  have "p2 (- 1022) \<le> p2 e" using assms(1) by simp
  with assms(2) have "tiny \<le> x" unfolding tiny_def by linarith
  then show ?thesis by (rule round_val_up)
qed

text \<open>A rounding of a value between two powers of two, with its three bounds.\<close>

lemma round_val_range:
  assumes "p2 a \<le> x" and "x \<le> p2 b" and "- 1022 \<le> a" and "- 1074 \<le> b"
  shows "p2 a \<le> round_val x" and "round_val x \<le> p2 b" and "round_val x \<le> x * (1 + ulp53)"
    and "0 \<le> x" and "b \<le> 900 \<Longrightarrow> rnd x = Fin (round_val x)"
proof -
  show x0: "0 \<le> x" using assms(1) p2_pos [of a] by linarith
  show "p2 a \<le> round_val x" using assms by (intro round_val_p2_le) auto
  show "round_val x \<le> p2 b" using assms by (intro round_val_le_p2) auto
  show "round_val x \<le> x * (1 + ulp53)" using assms by (intro round_val_up_p2)
  assume "b \<le> 900"
  then have "p2 b \<le> p2 900" by simp
  with assms(2) have "x \<le> p2 900" by linarith
  then show "rnd x = Fin (round_val x)" by (rule rnd_mid [OF x0])
qed

lemma raw_volume_moderate:
  assumes "moderate eq" and "moderate rp" and "moderate L"
    and "bindE (fdiv (Fin rp) (Fin 100)) (\<lambda>f. fdiv (fmul (Fin eq) f) (Fin L)) = Inr raw"
  shows "\<exists>r. raw = Fin r \<and> 0 \<le> r \<and> r \<le> p2 310 \<and> r * L \<le> eq * rp / 100 * (1 + ulp53) ^ 3"
proof -
  let ?u = "1 + ulp53"
  let ?f = "round_val (rp / 100)"
  let ?a = "round_val (eq * ?f)"
  let ?r = "round_val (?a / L)"
  note b = assms(1-3) [unfolded moderate_def]
  note pos = assms(1-3) [THEN moderate_pos]
  have "p2 (- 107) = p2 (- 100) / 128" by (simp add: p2_def power_int_def power_one_over)
  then have rp: "p2 (- 107) \<le> rp / 100" "rp / 100 \<le> p2 100" using b pos by linarith+
  note f = round_val_range [OF rp, simplified]
  have f0: "0 \<le> ?f" using f(1) p2_pos [of "- 107"] by linarith
  have "p2 (- 100 + - 107) \<le> eq * ?f" "eq * ?f \<le> p2 (100 + 100)"
    using b pos f0 by (intro p2_mult_le mult_le_p2 f(1) f(2); simp)+
  then have ef: "p2 (- 207) \<le> eq * ?f" "eq * ?f \<le> p2 200" by simp_all
  note a = round_val_range [OF ef, simplified]
  have "p2 (- 207 - 100) \<le> ?a / L" "?a / L \<le> p2 (200 - - 100)"
    using b pos by (intro p2_div_le div_le_p2 a(1) a(2); simp)+
  then have aL: "p2 (- 307) \<le> ?a / L" "?a / L \<le> p2 300" by simp_all
  note r = round_val_range [OF aL, simplified]
  have r0: "0 \<le> ?r" using r(1) p2_pos [of "- 307"] by linarith
  have "p2 300 \<le> p2 310" by simp
  then have r310: "?r \<le> p2 310" using r(2) by linarith
  have fin: "rnd (rp / 100) = Fin ?f" "rnd (eq * ?f) = Fin ?a" "rnd (?a / L) = Fin ?r"
    using f(5) a(5) r(5) by simp_all
  have raw: "raw = Fin ?r" using assms(4) pos fin by simp
  have u: "0 \<le> ?u" using ulp53_pos by simp
  have "?r * L \<le> ?a / L * ?u * L" using r(3) pos(3) by (intro mult_right_mono) auto
  also have "\<dots> = ?a * ?u" using pos(3) by simp
  also have "\<dots> \<le> eq * ?f * ?u * ?u" using a(3) u by (intro mult_right_mono) auto
  also have "\<dots> \<le> eq * (rp / 100 * ?u) * ?u * ?u" using f(3) u pos(1) by (intro mult_right_mono mult_left_mono) auto
  also have "\<dots> = eq * rp / 100 * ?u ^ 3" by (simp add: power3_eq_cube)
  finally show ?thesis using raw r0 r310 by blast
qed

text \<open>
  The risk bound: the loss at the stop of the computed volume exceeds the permitted part of the
  equity by a relative \<open>2^-50\<close> and one unit of the eighth decimal of a lot at most.
\<close>

lemma ulp53_powers: "(1 + ulp53) ^ 6 \<le> 1 + 1 / 2 ^ 50"
  "tiny * (1 + ulp53) + tiny + (1 + ulp53) / (2 * 10 ^ 8) \<le> 1 / 10 ^ 8"
proof -
  show "(1 + ulp53) ^ 6 \<le> 1 + 1 / 2 ^ 50" by (simp add: ulp53_def power_divide)
  have "tiny * (1 + ulp53) + tiny \<le> 1 / 2 ^ 60 * 2 + 1 / 2 ^ 60"
    using tiny_le ulp53_pos tiny_pos by (intro add_mono mult_mono) auto
  then show "tiny * (1 + ulp53) + tiny + (1 + ulp53) / (2 * 10 ^ 8) \<le> 1 / 10 ^ 8"
    by (simp add: ulp53_def)
qed

lemma rounded_volume_le:
  assumes "0 \<le> z" and "z \<le> p2 311"
  shows "\<exists>x. round_digits 8 (rnd z) = Fin x
    \<and> x \<le> z * (1 + ulp53) ^ 2 + (tiny * (1 + ulp53) + tiny + (1 + ulp53) / (2 * 10 ^ 8))"
proof -
  have "p2 311 \<le> p2 900" by simp
  with assms(2) have z9: "z \<le> p2 900" by linarith
  have z1: "rnd z = Fin (round_val z)" by (rule rnd_mid [OF assms(1) z9])
  have r0: "0 \<le> round_val z" by (rule round_val_nonneg [OF assms(1)])
  have r1: "round_val z \<le> p2 311" by (rule round_val_le_p2 [OF _ assms(2)]) simp
  let ?q = "of_int (round_even (round_val z * 10 ^ 8)) / 10 ^ 8 :: rat"
  have q0: "0 \<le> ?q" using round_even_mono [of 0 "round_val z * 10 ^ 8"] r0 by simp
  have "?q \<le> (round_val z * 10 ^ 8 + 1 / 2) / 10 ^ 8" using round_even_le by (intro divide_right_mono) auto
  then have "?q \<le> p2 311 + 1" using r1 by (simp add: field_simps)
  also have "\<dots> \<le> p2 311 + p2 311" using p2_le_iff [of 0 311] by (simp add: p2_def)
  also have "\<dots> = p2 (1 + 311)" by (simp only: p2_add p2_def) simp
  also have "\<dots> \<le> p2 900" by simp
  finally have f: "round_digits 8 (Fin (round_val z)) = Fin (round_val ?q)"
    using rnd_mid [OF q0] by simp
  have u: "0 \<le> 1 + ulp53" using ulp53_pos by simp
  have "round_val ?q \<le> (round_val z + 1 / (2 * 10 ^ 8)) * (1 + ulp53) + tiny"
    by (rule round_digits_8_le [OF r0 f])
  also have "\<dots> \<le> (z * (1 + ulp53) + tiny + 1 / (2 * 10 ^ 8)) * (1 + ulp53) + tiny"
    using round_val_up_abs [OF assms(1)] u by (intro add_right_mono mult_right_mono) auto
  also have "\<dots> = z * (1 + ulp53) ^ 2 + (tiny * (1 + ulp53) + tiny + (1 + ulp53) / (2 * 10 ^ 8))"
    by (simp add: power2_eq_square algebra_simps)
  finally show ?thesis using f z1 by auto
qed

lemma volume_risk_bound:
  assumes m: "moderate eq" "moderate rp" "moderate \<bar>loss\<bar>" and step: "0 < step"
    and v: "size_volume (Fin loss) (Fin eq) (Fin rp) vmin vmax (Fin step) = Inr v" "vr_ok v"
    and x: "vr_volume v = Some (Fin x)"
  shows "x * \<bar>loss\<bar> \<le> eq * rp / 100 * (1 + 1 / 2 ^ 50) + \<bar>loss\<bar> / 10 ^ 8"
proof -
  let ?L = "\<bar>loss\<bar>" and ?u = "1 + ulp53"
  let ?c = "tiny * ?u + tiny + ?u / (2 * 10 ^ 8)"
  obtain raw ratio steps fsteps vol where
    raw: "bindE (fdiv (Fin rp) (Fin 100)) (\<lambda>f. fdiv (fmul (Fin eq) f) (Fin ?L)) = Inr raw" and
    ratio: "fdiv raw (Fin step) = Inr ratio" and steps: "py_floor ratio = Inr steps" and
    fsteps: "float_of_int steps = Inr fsteps" and vol: "vol = round_digits 8 (fmul fsteps (Fin step))" and
    veq: "v = \<lparr>vr_ok = True, vr_volume = Some (fmin vol vmax), vr_reason = None\<rparr>"
    using size_volume_ok [OF v] by auto
  from raw_volume_moderate [OF m raw] obtain r where r: "raw = Fin r" "0 \<le> r" "r \<le> p2 310"
    and rL: "r * ?L \<le> eq * rp / 100 * ?u ^ 3" by auto
  from fsteps obtain fs where fs: "fsteps = Fin fs"
    by (cases "rnd (of_int steps)") (auto simp: float_of_int_def)
  have pos: "0 < ?L" "0 \<le> ?u" "0 < eq" "0 < rp" using m [THEN moderate_pos] ulp53_pos by auto
  have zr: "fs * step \<le> r * ?u" and "0 \<le> fs"
    using floor_volume_le [OF r(2) step _ steps] ratio fsteps unfolding r(1) fs by blast+
  then have z0: "0 \<le> fs * step" using step by simp
  have "r * ?u \<le> p2 310 * p2 1" using r ulp53_pos pos by (intro mult_mono) (auto simp: p2_def)
  then have "fs * step \<le> p2 (310 + 1)" using zr unfolding p2_add by linarith
  then obtain y where y: "vol = Fin y" and yz: "y \<le> fs * step * ?u ^ 2 + ?c"
    using rounded_volume_le [OF z0] vol fs by auto
  have "x \<le> y" using x fmin_le_left [of vol vmax] unfolding veq y by simp
  also note yz
  also have "fs * step * ?u ^ 2 \<le> r * ?u * ?u ^ 2" using zr pos by (intro mult_right_mono) auto
  also have "r * ?u * ?u ^ 2 = r * ?u ^ 3" by (simp add: power2_eq_square power3_eq_cube)
  finally have "x * ?L \<le> (r * ?u ^ 3 + ?c) * ?L" using pos by (intro mult_right_mono) auto
  also have "\<dots> = r * ?L * ?u ^ 3 + ?c * ?L" by (simp add: algebra_simps)
  also have "\<dots> \<le> eq * rp / 100 * ?u ^ 3 * ?u ^ 3 + 1 / 10 ^ 8 * ?L"
    using rL pos ulp53_powers(2) by (intro add_mono mult_right_mono) auto
  also have "eq * rp / 100 * ?u ^ 3 * ?u ^ 3 = eq * rp / 100 * ?u ^ 6"
    by (simp add: power_add [symmetric])
  also have "\<dots> \<le> eq * rp / 100 * (1 + 1 / 2 ^ 50)"
    using ulp53_powers(1) pos by (intro mult_left_mono) auto
  finally show ?thesis by simp
qed

end
