(* ===== verification/RiskService.thy ===== *)
theory RiskService
  imports Enums PyTime
begin

section \<open>Risk predicates (app/services/risk_service.py)\<close>

text \<open>
  The pure checks of the pipeline, each with its two answers. Times are datetimes, prices and
  percentages floats, and every comparison is the one the code writes, so the answers on NaN
  and on the boundaries are those of the code.
\<close>

definition FUTURE_TOLERANCE_SECONDS :: int where
  "FUTURE_TOLERANCE_SECONDS = 5"

record risk_check_result =
  rc_ok :: bool
  rc_status :: "execution_status option"
  rc_reason :: "reason option"

definition rc_pass :: risk_check_result where
  "rc_pass = \<lparr>rc_ok = True, rc_status = None, rc_reason = None\<rparr>"

definition rc_fail :: "execution_status \<Rightarrow> reason \<Rightarrow> risk_check_result" where
  "rc_fail st r = \<lparr>rc_ok = False, rc_status = Some st, rc_reason = Some r\<rparr>"

text \<open>\<open>timedelta.total_seconds\<close> of a number of microseconds.\<close>

definition total_seconds :: "int \<Rightarrow> pyfloat" where
  "total_seconds us = rnd (of_int us / 1000000)"

definition check_freshness :: "datetime \<Rightarrow> int \<Rightarrow> datetime \<Rightarrow> risk_check_result" where
  "check_freshness signal_timestamp max_age_seconds now =
     (let ts = (if dt_offset signal_timestamp = None then signal_timestamp\<lparr>dt_offset := Some 0\<rparr>
                else signal_timestamp);
          age = total_seconds (epoch_us now - epoch_us ts)
      in if flt (fint max_age_seconds) age
         then rc_fail REJECTED_STALE (SignalAgeExceeds age max_age_seconds)
         else if flt age (fint (- FUTURE_TOLERANCE_SECONDS))
         then rc_fail REJECTED_FUTURE_TIMESTAMP (SignalInFuture (fneg age))
         else rc_pass)"

definition check_risk_percent :: "pyfloat \<Rightarrow> pyfloat \<Rightarrow> risk_check_result" where
  "check_risk_percent risk_percent max_risk_percent =
     (if fle risk_percent (Fin 0) \<or> flt max_risk_percent risk_percent
      then rc_fail REJECTED_RISK (RiskPercentOutside risk_percent max_risk_percent)
      else rc_pass)"

definition check_stop_loss :: "string \<Rightarrow> pyfloat option \<Rightarrow> pyfloat \<Rightarrow> bool \<Rightarrow> risk_check_result" where
  "check_stop_loss action stop_loss entry_price require_stop_loss =
     (case stop_loss of
        None \<Rightarrow> if require_stop_loss then rc_fail REJECTED_STOP_LOSS StopLossRequired else rc_pass
      | Some sl \<Rightarrow>
          if action = action_value BUY \<and> fle entry_price sl
          then rc_fail REJECTED_STOP_LOSS BuyStopLossNotBelow
          else if action = action_value SELL \<and> fle sl entry_price
          then rc_fail REJECTED_STOP_LOSS SellStopLossNotAbove
          else rc_pass)"

definition check_spread :: "pyfloat \<Rightarrow> pyfloat \<Rightarrow> pyfloat \<Rightarrow> int \<Rightarrow> risk_check_result result" where
  "check_spread bid ask point max_spread_points =
     (if fle bid (Fin 0) \<or> fle ask (Fin 0) \<or> fle point (Fin 0) \<or> flt ask bid
      then Inr (rc_fail REJECTED_SPREAD InvalidQuoteData)
      else bindE (fdiv (fsub ask bid) point) (\<lambda>spread_points.
        Inr (if flt (fint max_spread_points) spread_points
             then rc_fail REJECTED_SPREAD (SpreadExceeds spread_points max_spread_points)
             else rc_pass)))"

definition check_daily_trade_limit :: "int \<Rightarrow> int \<Rightarrow> risk_check_result" where
  "check_daily_trade_limit trades_today max_trades_per_day =
     (if max_trades_per_day \<le> trades_today
      then rc_fail REJECTED_DAILY_TRADE_LIMIT (TradesAlreadyExecuted trades_today)
      else rc_pass)"

definition check_position_limit :: "int \<Rightarrow> int \<Rightarrow> risk_check_result" where
  "check_position_limit open_positions max_open_positions =
     (if max_open_positions \<le> open_positions
      then rc_fail REJECTED_POSITION_LIMIT (PositionsAlreadyOpen open_positions)
      else rc_pass)"

definition check_daily_loss :: "pyfloat \<Rightarrow> pyfloat \<Rightarrow> pyfloat \<Rightarrow> risk_check_result result" where
  "check_daily_loss current_equity baseline_equity max_daily_loss_percent =
     (if fle baseline_equity (Fin 0)
      then Inr (rc_fail REJECTED_DAILY_LOSS InvalidBaselineEquity)
      else bindE (fdiv (fsub baseline_equity current_equity) baseline_equity) (\<lambda>q.
        let loss_percent = fmul q (Fin 100)
        in Inr (if fle max_daily_loss_percent loss_percent
                then rc_fail REJECTED_DAILY_LOSS (DailyLossExceeds loss_percent max_daily_loss_percent)
                else rc_pass)))"

text \<open>\<open>strftime("%Y-%m-%d")\<close> of a datetime, and the midnight of its date labelled UTC.\<close>

definition trading_day_key :: "datetime \<Rightarrow> string" where
  "trading_day_key now = date_text now"

definition start_of_trading_day :: "datetime \<Rightarrow> datetime" where
  "start_of_trading_day now = \<lparr>dt_year = dt_year now, dt_month = dt_month now, dt_day = dt_day now,
     dt_hour = 0, dt_minute = 0, dt_second = 0, dt_us = 0, dt_offset = Some 0\<rparr>"

subsection \<open>Ages in exact microseconds\<close>

text \<open>
  The age is a float number of seconds; the comparison with a whole number of seconds is still
  exact, since a microsecond is wider than the rounding.
\<close>

lemma round_val_near_int:
  assumes "\<bar>n\<bar> \<le> 2 ^ 32"
  shows "round_val (of_int n + 1 / 2 ^ 20) = of_int n + 1 / 2 ^ 20"
proof (rule round_val_exact, rule is_dyadic53I [of _ "n * 2 ^ 20 + 1" "- 20"])
  show "of_int n + 1 / 2 ^ 20 = of_int (n * 2 ^ 20 + 1) * (2 :: rat) powi - 20"
    by (simp add: power_int_minus field_simps)
  show "\<bar>n * 2 ^ 20 + 1\<bar> \<le> 2 ^ 53" using assms by (simp add: abs_le_iff)
qed simp

lemma rnd_small: "round_val x = x \<Longrightarrow> \<bar>x\<bar> \<le> 4611686018427387904 \<Longrightarrow> rnd x = Fin x"
  by (simp add: rnd_code)

lemma rnd_near_int:
  assumes "\<bar>n\<bar> \<le> 2 ^ 32"
  shows "rnd (of_int n) = Fin (of_int n)" and "rnd (of_int n + 1 / 2 ^ 20) = Fin (of_int n + 1 / 2 ^ 20)"
proof -
  have "of_int n \<le> (of_int (2 ^ 32) :: rat)" "of_int (- (2 ^ 32)) \<le> (of_int n :: rat)"
    using assms by (simp_all only: of_int_le_iff abs_le_iff) simp
  then have "(of_int n :: rat) \<le> 4294967296" "- 4294967296 \<le> (of_int n :: rat)" by simp_all
  then have "\<bar>of_int n\<bar> \<le> (4611686018427387904 :: rat)"
    and "\<bar>of_int n + 1 / 2 ^ 20\<bar> \<le> (4611686018427387904 :: rat)" by (simp_all add: abs_le_iff)
  with assms show "rnd (of_int n) = Fin (of_int n)" "rnd (of_int n + 1 / 2 ^ 20) = Fin (of_int n + 1 / 2 ^ 20)"
    by (auto intro!: rnd_small simp only: round_val_near_int round_val_of_int)
      (simp add: round_val_of_int)
qed

lemma less_total_seconds:
  assumes "\<bar>n\<bar> \<le> 2 ^ 32"
  shows "flt (fint n) (total_seconds us) \<longleftrightarrow> n * 1000000 < us"
proof (cases "n * 1000000 < us")
  case True
  then have "(of_int (n * 1000000 + 1) :: rat) \<le> of_int us" by (simp only: of_int_le_iff)
  then have "of_int n + 1 / 2 ^ 20 \<le> (of_int us / 1000000 :: rat)" by (simp add: field_simps)
  then have "fle (Fin (of_int n + 1 / 2 ^ 20)) (total_seconds us)"
    by (metis rnd_mono rnd_near_int(2) [OF assms] total_seconds_def)
  moreover have "flt (fint n) (Fin (of_int n + 1 / 2 ^ 20))" by (simp add: fint_def)
  ultimately show ?thesis using True flt_fle_trans by blast
next
  case False
  then have "(of_int us :: rat) \<le> of_int (n * 1000000)" by (simp only: of_int_le_iff)
  then have "of_int us / 1000000 \<le> (of_int n :: rat)" by (simp add: divide_le_eq)
  then have "fle (total_seconds us) (fint n)"
    by (metis rnd_mono rnd_near_int(1) [OF assms] total_seconds_def fint_def)
  then show ?thesis using False fle_flt_trans flt_irrefl by blast
qed

lemma total_seconds_minus: "total_seconds (- us) = fneg (total_seconds us)"
  by (simp add: total_seconds_def rnd_def Let_def round_val_minus)

lemma total_seconds_less:
  assumes "\<bar>n\<bar> \<le> 2 ^ 32"
  shows "flt (total_seconds us) (fint n) \<longleftrightarrow> us < n * 1000000"
proof -
  have neg: "flt (fneg a) (fneg b) = flt b a" for a b by (cases a; cases b) auto
  have "flt (total_seconds us) (fint n) = flt (fint (- n)) (total_seconds (- us))"
    using neg [of "fint n" "total_seconds us"] by (simp add: total_seconds_minus fint_def)
  also have "\<dots> \<longleftrightarrow> - n * 1000000 < - us" using assms by (intro less_total_seconds) simp
  finally show ?thesis by simp
qed

text \<open>A timestamp without an offset is taken as UTC.\<close>

definition signal_us :: "datetime \<Rightarrow> int" where
  "signal_us t = epoch_us (if dt_offset t = None then t\<lparr>dt_offset := Some 0\<rparr> else t)"

lemma check_freshness_status:
  assumes "0 \<le> max_age" and "max_age \<le> 2 ^ 32"
  shows "rc_status (check_freshness ts max_age now) =
    (if max_age * 1000000 < epoch_us now - signal_us ts then Some REJECTED_STALE
     else if epoch_us now - signal_us ts < - 5000000 then Some REJECTED_FUTURE_TIMESTAMP
     else None)"
  using assms less_total_seconds [of max_age "epoch_us now - signal_us ts"]
    total_seconds_less [of "- 5" "epoch_us now - signal_us ts"]
  by (auto simp: check_freshness_def Let_def signal_us_def rc_fail_def rc_pass_def FUTURE_TOLERANCE_SECONDS_def)

lemma rc_ok_iff_status:
  "rc_ok (check_freshness ts max_age now) \<longleftrightarrow> rc_status (check_freshness ts max_age now) = None"
  "rc_ok (check_risk_percent rp mx) \<longleftrightarrow> rc_status (check_risk_percent rp mx) = None"
  "rc_ok (check_stop_loss a sl e req) \<longleftrightarrow> rc_status (check_stop_loss a sl e req) = None"
  "rc_ok (check_daily_trade_limit n k) \<longleftrightarrow> rc_status (check_daily_trade_limit n k) = None"
  "rc_ok (check_position_limit n k) \<longleftrightarrow> rc_status (check_position_limit n k) = None"
  by (simp_all add: check_freshness_def check_risk_percent_def check_stop_loss_def check_daily_trade_limit_def
      check_position_limit_def rc_pass_def rc_fail_def Let_def split: option.split)

subsection \<open>Prices and losses\<close>

lemma check_risk_percent_ok:
  "rp \<noteq> NaN \<Longrightarrow> mx \<noteq> NaN \<Longrightarrow>
   rc_ok (check_risk_percent rp mx) \<longleftrightarrow> flt (Fin 0) rp \<and> fle rp mx"
  by (cases rp; cases mx) (auto simp: check_risk_percent_def rc_pass_def rc_fail_def)

lemma check_stop_loss_ok:
  assumes "sl \<noteq> NaN" and "entry \<noteq> NaN"
  shows "rc_ok (check_stop_loss (action_value a) (Some sl) entry req) \<longleftrightarrow>
    (case a of BUY \<Rightarrow> flt sl entry | SELL \<Rightarrow> flt entry sl)"
  using assms
  by (cases a; cases sl; cases entry) (auto simp: check_stop_loss_def rc_pass_def rc_fail_def)

text \<open>A finite or infinite number over a positive one, rounded; it keeps the order.\<close>

definition quot :: "pyfloat \<Rightarrow> rat \<Rightarrow> pyfloat" where
  "quot x p = (case x of Fin d \<Rightarrow> rnd (d / p) | z \<Rightarrow> z)"

lemma fdiv_quot: "0 < p \<Longrightarrow> fdiv x (Fin p) = Inr (quot x p)"
  by (cases x) (simp_all add: quot_def signed_inf_def)

lemma fle_infinite [simp]: "fle NInf x \<longleftrightarrow> x \<noteq> NaN" "fle x PInf \<longleftrightarrow> x \<noteq> NaN"
  by (cases x; simp)+

lemma quot_mono: "0 < p \<Longrightarrow> fle x y \<Longrightarrow> fle (quot x p) (quot y p)"
  by (cases x; cases y) (auto simp: quot_def intro!: rnd_mono divide_right_mono)

lemma fmul_100_mono: "fle x y \<Longrightarrow> fle (fmul x (Fin 100)) (fmul y (Fin 100))"
  by (cases x; cases y) (auto simp: signed_inf_def intro!: rnd_mono)

definition spread_points :: "rat \<Rightarrow> rat \<Rightarrow> rat \<Rightarrow> pyfloat" where
  "spread_points b a p = quot (rnd (a - b)) p"

lemma check_spread_Fin:
  "check_spread (Fin b) (Fin a) (Fin p) n =
     Inr (if b \<le> 0 \<or> a \<le> 0 \<or> p \<le> 0 \<or> a < b then rc_fail REJECTED_SPREAD InvalidQuoteData
      else if flt (fint n) (spread_points b a p)
      then rc_fail REJECTED_SPREAD (SpreadExceeds (spread_points b a p) n) else rc_pass)"
  by (auto simp: check_spread_def fsub_def Let_def fdiv_quot spread_points_def simp del: fdiv.simps)

text \<open>A narrower quote never fails where a wider one passed.\<close>

lemma spread_points_mono:
  "0 < p \<Longrightarrow> a' - b' \<le> a - b \<Longrightarrow> fle (spread_points b' a' p) (spread_points b a p)"
  unfolding spread_points_def by (intro quot_mono rnd_mono)

lemma rc_pass_neq_fail [simp]: "rc_fail st r \<noteq> rc_pass" "rc_pass \<noteq> rc_fail st r"
  by (simp_all add: rc_pass_def rc_fail_def)

lemma check_spread_mono:
  assumes "0 < b" and "b \<le> b'" and "b' \<le> a'" and "a' \<le> a"
    and "check_spread (Fin b) (Fin a) (Fin p) n = Inr rc_pass"
  shows "check_spread (Fin b') (Fin a') (Fin p) n = Inr rc_pass"
proof -
  from assms(5) have p: "0 < p" and n: "\<not> flt (fint n) (spread_points b a p)"
    by (auto simp: check_spread_Fin split: if_splits)
  have "fle (spread_points b' a' p) (spread_points b a p)"
    using assms p by (intro spread_points_mono) auto
  then have "\<not> flt (fint n) (spread_points b' a' p)" using n flt_fle_trans by blast
  with assms p show ?thesis by (auto simp: check_spread_Fin)
qed

text \<open>The loss of the day in percent, as the code computes it.\<close>

definition loss_percent :: "rat \<Rightarrow> rat \<Rightarrow> pyfloat" where
  "loss_percent eq base = fmul (quot (rnd (base - eq)) base) (Fin 100)"

lemma check_daily_loss_Fin:
  assumes "0 < base"
  shows "check_daily_loss (Fin eq) (Fin base) mx =
    Inr (if fle mx (loss_percent eq base)
         then rc_fail REJECTED_DAILY_LOSS (DailyLossExceeds (loss_percent eq base) mx) else rc_pass)"
  using assms by (simp add: check_daily_loss_def fsub_def loss_percent_def fdiv_quot Let_def del: fdiv.simps)

lemma loss_percent_antimono:
  "0 < base \<Longrightarrow> eq' \<le> eq \<Longrightarrow> fle (loss_percent eq base) (loss_percent eq' base)"
  unfolding loss_percent_def by (intro fmul_100_mono quot_mono rnd_mono) auto

lemma loss_percent_no_loss: "0 < base \<Longrightarrow> base \<le> eq \<Longrightarrow> fle (loss_percent eq base) (Fin 0)"
  using loss_percent_antimono [of base base eq] by (simp add: loss_percent_def quot_def)

end
