(* ===== verification/SymbolMapper.thy ===== *)
theory SymbolMapper
  imports PyText
begin

section \<open>Symbol mapping (app/services/symbol_mapper.py)\<close>

text \<open>
  The explicit map from a caller's symbol to the broker's. The JSON text of the file is parsed
  by \<open>json.loads\<close>; the model starts from the parsed value and from whether the file exists. A
  member's value is a string, or another value with the text \<open>str\<close> gives for it.
\<close>

datatype json_value = JStr string | JOther string

text \<open>The document: an object with its items (a dict, so with distinct keys), or not an object.\<close>

datatype json_document = JsonObject "(string \<times> json_value) list" | JsonNonObject

fun json_str :: "json_value \<Rightarrow> string" where
  "json_str (JStr s) = s"
| "json_str (JOther s) = s"

type_synonym symbol_mapper = "string \<rightharpoonup> string"

text \<open>\<open>SymbolMapper.from_file\<close>: no file gives the empty map, a non-object raises \<open>TypeError\<close>.\<close>

definition from_file :: "json_document option \<Rightarrow> symbol_mapper result" where
  "from_file file = (case file of
       None \<Rightarrow> Inr Map.empty
     | Some (JsonObject kvs) \<Rightarrow> Inr (map_of (map (\<lambda>(k, v). (k, json_str v)) kvs))
     | Some JsonNonObject \<Rightarrow> Inl TypeError)"

definition resolve :: "symbol_mapper \<Rightarrow> string \<Rightarrow> string option" where
  "resolve m symbol_raw = m symbol_raw"

subsection \<open>Lemmas\<close>

text \<open>A symbol resolves only to what the file says for exactly that symbol.\<close>

lemma from_file_resolve_Some:
  assumes "from_file (Some (JsonObject kvs)) = Inr m" and "resolve m s = Some b"
  shows "\<exists>v. (s, v) \<in> set kvs \<and> b = json_str v"
  using assms by (auto simp: from_file_def resolve_def dest!: map_of_SomeD)

lemma from_file_resolve_all:
  assumes "distinct (map fst kvs)" and "(s, v) \<in> set kvs" and "from_file (Some (JsonObject kvs)) = Inr m"
  shows "resolve m s = Some (json_str v)"
proof -
  have "map fst (map (\<lambda>(k, v). (k, json_str v)) kvs) = map fst kvs" by (induction kvs) auto
  with assms show ?thesis
    by (auto simp: from_file_def resolve_def intro!: map_of_is_SomeI simp del: map_map)
qed

end
