(* ===== verification/Config.thy ===== *)
theory Config
  imports PyFloat PyText
begin

section \<open>Settings (app/config.py)\<close>

text \<open>
  The settings as pydantic leaves them after parsing the environment, the bounds of the
  \<open>Field\<close> declarations, and the two model validators in their order. A refused configuration
  is a \<open>ValueError\<close> (pydantic's \<open>ValidationError\<close> is one).
\<close>

record settings =
  cfg_environment :: string
  cfg_host :: string
  cfg_port :: int
  cfg_dry_run :: bool
  cfg_live_execution_enabled :: bool
  cfg_database_path :: string
  cfg_mt5_terminal_path :: string
  cfg_mt5_login :: string
  cfg_mt5_password :: string
  cfg_mt5_server :: string
  cfg_magic_number :: int
  cfg_max_risk_percent :: pyfloat
  cfg_max_daily_loss_percent :: pyfloat
  cfg_max_open_positions :: int
  cfg_max_trades_per_day :: int
  cfg_max_spread_points :: int
  cfg_require_stop_loss :: bool
  cfg_allow_market_buy :: bool
  cfg_allow_market_sell :: bool
  cfg_max_signal_age_seconds :: int
  cfg_symbol_map_path :: string
  cfg_allow_remote_binding :: bool

definition default_settings :: settings where
  "default_settings = \<lparr>
     cfg_environment = ''development'', cfg_host = ''127.0.0.1'', cfg_port = 8200,
     cfg_dry_run = True, cfg_live_execution_enabled = False,
     cfg_database_path = ''./data/bridge.db'',
     cfg_mt5_terminal_path = [], cfg_mt5_login = [], cfg_mt5_password = [], cfg_mt5_server = [],
     cfg_magic_number = 881100,
     cfg_max_risk_percent = flit 1, cfg_max_daily_loss_percent = flit 3,
     cfg_max_open_positions = 3, cfg_max_trades_per_day = 5, cfg_max_spread_points = 30,
     cfg_require_stop_loss = True, cfg_allow_market_buy = True, cfg_allow_market_sell = True,
     cfg_max_signal_age_seconds = 60,
     cfg_symbol_map_path = ''./examples/symbol-map.example.json'',
     cfg_allow_remote_binding = False\<rparr>"

text \<open>\<open>Field(gt=0, le=100, allow_inf_nan=False)\<close>, and the integer bounds.\<close>

definition percent_field :: "pyfloat \<Rightarrow> bool" where
  "percent_field x \<longleftrightarrow> is_finite x \<and> flt (Fin 0) x \<and> fle x (Fin 100)"

definition fields_valid :: "settings \<Rightarrow> bool" where
  "fields_valid s \<longleftrightarrow>
     1 \<le> cfg_port s \<and> cfg_port s \<le> 65535
     \<and> 0 \<le> cfg_magic_number s
     \<and> percent_field (cfg_max_risk_percent s)
     \<and> percent_field (cfg_max_daily_loss_percent s)
     \<and> 1 \<le> cfg_max_open_positions s
     \<and> 1 \<le> cfg_max_trades_per_day s
     \<and> 1 \<le> cfg_max_spread_points s
     \<and> 1 \<le> cfg_max_signal_age_seconds s"

definition live_execution_allowed :: "settings \<Rightarrow> bool" where
  "live_execution_allowed s \<longleftrightarrow> \<not> cfg_dry_run s \<and> cfg_live_execution_enabled s"

definition enforce_local_binding :: "settings \<Rightarrow> settings result" where
  "enforce_local_binding s =
     (if cfg_host s \<notin> set [''127.0.0.1'', ''localhost'', ''::1''] \<and> \<not> cfg_allow_remote_binding s
      then Inl ValueError else Inr s)"

definition validate_live_execution_config :: "settings \<Rightarrow> settings result" where
  "validate_live_execution_config s =
     (if cfg_dry_run s \<or> \<not> cfg_live_execution_enabled s then Inr s
      else if strip (cfg_mt5_server s) = [] then Inl ValueError
      else if strip (cfg_mt5_login s) = [] then Inl ValueError
      else if \<not> isdigit (strip (cfg_mt5_login s)) then Inl ValueError
      else Inr s)"

text \<open>\<open>Settings(...)\<close> on parsed values.\<close>

definition make_settings :: "settings \<Rightarrow> settings result" where
  "make_settings s =
     bindE (if fields_valid s then Inr s else Inl ValueError) (\<lambda>s.
     bindE (enforce_local_binding s) validate_live_execution_config)"

subsection \<open>Lemmas\<close>

lemma make_settings_Inr:
  "make_settings s = Inr t \<longleftrightarrow>
     t = s \<and> fields_valid s
     \<and> (cfg_host s \<in> {''127.0.0.1'', ''localhost'', ''::1''} \<or> cfg_allow_remote_binding s)
     \<and> (live_execution_allowed s \<longrightarrow>
          strip (cfg_mt5_server s) \<noteq> [] \<and> isdigit (strip (cfg_mt5_login s)))"
  by (auto simp: make_settings_def enforce_local_binding_def validate_live_execution_config_def
      live_execution_allowed_def isdigit_def split: if_splits)

lemma make_settings_total: "make_settings s = Inr s \<or> make_settings s = Inl ValueError"
  by (auto simp: make_settings_def enforce_local_binding_def validate_live_execution_config_def)

text \<open>What \<open>isdigit\<close> accepts and \<open>int()\<close> reads: decimal digits of any number up to the limit.\<close>

lemma int_tail_digits: "list_all is_dec s \<Longrightarrow> int_tail acc s \<noteq> None"
  by (induction acc s rule: int_tail.induct) auto

lemma int_unsigned_digits:
  "list_all is_dec s \<Longrightarrow> s \<noteq> [] \<Longrightarrow> length s \<le> 4300 \<Longrightarrow> int_unsigned s \<noteq> None"
  by (cases s) (auto simp: int_unsigned_def int_tail_digits list_all_iff)

lemma py_int_digits:
  assumes "list_all is_dec (strip s)" and "strip s \<noteq> []" and "length (strip s) \<le> 4300"
  shows "\<exists>n. py_int s = Inr n"
proof -
  obtain c cs where c: "strip s = c # cs" using assms(2) by (cases "strip s") auto
  with assms(1) have "is_dec c" by simp
  then have "c \<noteq> CHR ''+''" "c \<noteq> CHR ''-''" by (auto simp: is_dec_def)
  moreover obtain n where "int_unsigned (c # cs) = Some n"
    using int_unsigned_digits [OF assms] c by fastforce
  ultimately show ?thesis by (simp add: py_int_def c Let_def)
qed

end
