(* ===== verification/ExecutionService.thy ===== *)
theory ExecutionService
  imports VolumeCalculator RiskService SymbolMapper Config
begin

section \<open>The execution pipeline (app/services/execution_service.py)\<close>

text \<open>
  \<open>ExecutionService\<close>: the pipeline \<open>process_signal\<close> from a claimed signal to a terminal status,
  the reconciliation of a signal a crash left behind, and the read-only snapshots. A method is a
  program of atomic steps. A \<open>return finish(...)\<close> in the middle of the pipeline is an early
  return: a stage answers \<open>Inl status\<close> when it has finished the signal, \<open>Inr\<close> when the
  pipeline goes on.
\<close>

definition MAX_MT5_CONNECT_ATTEMPTS :: nat where
  "MAX_MT5_CONNECT_ATTEMPTS = 3"

text \<open>\<open>timedelta(days=3)\<close> in microseconds.\<close>

definition RECONCILIATION_LOOKBACK :: int where
  "RECONCILIATION_LOOKBACK = 3 * day_us"

definition TRADE_RETCODE_PLACED :: int where
  "TRADE_RETCODE_PLACED = 10008"

definition TRADE_RETCODE_DONE :: int where
  "TRADE_RETCODE_DONE = 10009"

definition TRADE_RETCODE_DONE_PARTIAL :: int where
  "TRADE_RETCODE_DONE_PARTIAL = 10010"

definition account_key_for :: "account_info \<Rightarrow> string option" where
  "account_key_for account = (case (ai_server account, ai_login account) of
       (Some server, Some login) \<Rightarrow>
         if server = [] \<or> strip server = [] \<or> login = 0 then None
         else Some (server @ ''|'' @ str_int login)
     | _ \<Rightarrow> None)"

text \<open>The collaborators \<open>__init__\<close> stores, with the clock of the process.\<close>

record 's service =
  es_mt5 :: "'s mt5"
  es_now :: "'s clock"
  es_symbol_mapper :: symbol_mapper
  es_settings :: settings

subsection \<open>Helpers\<close>

fun connect_attempts :: "nat \<Rightarrow> 's service \<Rightarrow> ('s world, bool) prog" where
  "connect_attempts 0 svc = Ret False"
| "connect_attempts (Suc n) svc =
     (let cfg = es_settings svc
      in bindP (liftE (if cfg_mt5_login cfg \<noteq> [] then map_sum id Some (py_int (cfg_mt5_login cfg))
                       else Inr None)) (\<lambda>login.
         bindP (gw_initialize (es_mt5 svc) (truthy_str (Some (cfg_mt5_terminal_path cfg))) login
                 (truthy_str (Some (cfg_mt5_password cfg))) (truthy_str (Some (cfg_mt5_server cfg)))) (\<lambda>success.
         if success then Ret True else connect_attempts n svc)))"

definition ensure_connected :: "'s service \<Rightarrow> ('s world, bool) prog" where
  "ensure_connected svc =
     bindP (gw_connected (es_mt5 svc)) (\<lambda>c.
     if c then Ret True else connect_attempts MAX_MT5_CONNECT_ATTEMPTS svc)"

definition resolve_filling_mode :: "'s mt5 \<Rightarrow> symbol_info \<Rightarrow> int" where
  "resolve_filling_mode m symbol_info = (case (gw_raw m, si_filling_mode symbol_info) of
       (Some mt5, Some filling_mode) \<Rightarrow>
         if filling_mode AND 1 \<noteq> 0 then mt_ORDER_FILLING_FOK mt5
         else if filling_mode AND 2 \<noteq> 0 then mt_ORDER_FILLING_IOC mt5
         else mt_ORDER_FILLING_RETURN mt5
     | _ \<Rightarrow> 1)"

definition build_order_request ::
  "'s service \<Rightarrow> string \<Rightarrow> string \<Rightarrow> pyfloat \<Rightarrow> pyfloat \<Rightarrow> pyfloat option \<Rightarrow> pyfloat option
     \<Rightarrow> symbol_info \<Rightarrow> string \<Rightarrow> order_request"
where
  "build_order_request svc symbol action volume price stop_loss take_profit symbol_info signal_id =
     \<lparr>rq_action = (case gw_raw (es_mt5 svc) of Some mt5 \<Rightarrow> mt_TRADE_ACTION_DEAL mt5 | None \<Rightarrow> 1),
      rq_symbol = symbol, rq_volume = volume, rq_type = order_type_of action, rq_price = price,
      rq_deviation = 20, rq_magic = cfg_magic_number (es_settings svc),
      rq_comment = meb_comment signal_id,
      rq_type_time = (case gw_raw (es_mt5 svc) of Some mt5 \<Rightarrow> mt_ORDER_TIME_GTC mt5 | None \<Rightarrow> 0),
      rq_type_filling = resolve_filling_mode (es_mt5 svc) symbol_info,
      rq_sl = stop_loss, rq_tp = take_profit\<rparr>"

definition is_check_success :: "int option \<Rightarrow> bool" where
  "is_check_success retcode \<longleftrightarrow> retcode = Some 0 \<or> retcode = Some TRADE_RETCODE_DONE"

text \<open>\<open>getattr(result, name, default)\<close> of a trade result that may be None.\<close>

definition result_retcode :: "trade_result option \<Rightarrow> int option" where
  "result_retcode r = (case r of None \<Rightarrow> None | Some t \<Rightarrow> tr_retcode t)"

definition result_comment :: "string \<Rightarrow> trade_result option \<Rightarrow> string" where
  "result_comment dflt r = (case r of None \<Rightarrow> dflt
     | Some t \<Rightarrow> (case tr_comment t of None \<Rightarrow> dflt | Some c \<Rightarrow> c))"

definition dflt_value :: "'a \<Rightarrow> 'a option \<Rightarrow> 'a" where
  "dflt_value d x = (case x of None \<Rightarrow> d | Some v \<Rightarrow> v)"

subsection \<open>Early return\<close>

definition bindR ::
  "('w, 'r + 'a) prog \<Rightarrow> ('a \<Rightarrow> ('w, 'r + 'b) prog) \<Rightarrow> ('w, 'r + 'b) prog"
where
  "bindR m k = bindP m (\<lambda>res. case res of Inl st \<Rightarrow> Ret (Inl st) | Inr a \<Rightarrow> k a)"

definition return_early :: "('w, 'r) prog \<Rightarrow> ('w, 'r + 'a) prog" where
  "return_early m = bindP m (\<lambda>st. Ret (Inl st))"

definition go_on :: "('w, 'a) prog \<Rightarrow> ('w, 'r + 'a) prog" where
  "go_on m = bindP m (\<lambda>a. Ret (Inr a))"

text \<open>\<open>finish\<close>: the execution row first, then the signal row, in two transactions.\<close>

definition finish ::
  "'s service \<Rightarrow> string \<Rightarrow> int \<Rightarrow> execution_status \<Rightarrow> reason option \<Rightarrow> execution_field list
     \<Rightarrow> ('s world, execution_status) prog"
where
  "finish svc signal_id execution_id status message extra =
     bindP (utcnow (es_now svc)) (\<lambda>t.
     bindP (db_step (update_execution execution_id
              ([F_status status, F_finished_at (isoformat t), F_result_message message] @ extra))) (\<lambda>_.
     bindP (db_write_now (es_now svc) (\<lambda>now. update_signal_status now signal_id status
              (if is_rejection status then message else None) None)) (\<lambda>_.
     Ret status)))"

text \<open>\<open>if not check.ok: return finish(check.status, check.reason)\<close>.\<close>

definition require_ok ::
  "'s service \<Rightarrow> string \<Rightarrow> int \<Rightarrow> risk_check_result \<Rightarrow> ('s world, execution_status + unit) prog"
where
  "require_ok svc signal_id execution_id check =
     (if rc_ok check then Ret (Inr ())
      else case rc_status check of
             None \<Rightarrow> Throw AttributeError
           | Some st \<Rightarrow> return_early (finish svc signal_id execution_id st (rc_reason check) []))"

subsection \<open>The pipeline\<close>

text \<open>The row \<open>process_signal\<close> inserts before anything else.\<close>

definition execution_fields :: "'s service \<Rightarrow> signal_row \<Rightarrow> datetime \<Rightarrow> execution_row" where
  "execution_fields svc signal_row started_at = \<lparr>ex_id = 0,
     ex_signal_id = sg_signal_id signal_row,
     ex_account_key = None,
     ex_attempt = sg_attempt_count signal_row,
     ex_started_at = isoformat started_at,
     ex_finished_at = None,
     ex_dry_run = (if cfg_dry_run (es_settings svc) then 1 else 0),
     ex_mt5_symbol = None,
     ex_requested_action = sg_action signal_row,
     ex_calculated_volume = None,
     ex_entry_price = None,
     ex_stop_loss = sg_stop_loss signal_row,
     ex_take_profit = sg_take_profit signal_row,
     ex_order_check_retcode = None,
     ex_order_send_retcode = None,
     ex_order_ticket = None,
     ex_deal_ticket = None,
     ex_executed_volume = None,
     ex_executed_price = None,
     ex_result_message = None,
     ex_status = PROCESSING\<rparr>"

definition open_execution :: "'s service \<Rightarrow> signal_row \<Rightarrow> ('s world, int) prog" where
  "open_execution svc signal_row =
     bindP (utcnow (es_now svc)) (\<lambda>started_at.
     db_step (insert_execution (execution_fields svc signal_row started_at)))"

text \<open>2, 6: freshness, and whether the action is enabled.\<close>

definition screen_signal ::
  "'s service \<Rightarrow> signal_row \<Rightarrow> int \<Rightarrow> ('s world, execution_status + unit) prog"
where
  "screen_signal svc signal_row execution_id =
     (let cfg = es_settings svc; signal_id = sg_signal_id signal_row; action = sg_action signal_row
      in bindP (liftE (fromisoformat (sg_signal_timestamp signal_row))) (\<lambda>signal_timestamp.
         bindP (utcnow (es_now svc)) (\<lambda>now.
         bindR (require_ok svc signal_id execution_id
                  (check_freshness signal_timestamp (cfg_max_signal_age_seconds cfg) now)) (\<lambda>_.
         if action = action_value BUY \<and> \<not> cfg_allow_market_buy cfg
         then return_early (finish svc signal_id execution_id REJECTED_RISK (Some MarketBuyDisabled) [])
         else if action = action_value SELL \<and> \<not> cfg_allow_market_sell cfg
         then return_early (finish svc signal_id execution_id REJECTED_RISK (Some MarketSellDisabled) [])
         else Ret (Inr ())))))"

text \<open>3: the explicit symbol map; the resolved symbol is persisted at once.\<close>

definition map_symbol ::
  "'s service \<Rightarrow> signal_row \<Rightarrow> int \<Rightarrow> ('s world, execution_status + string) prog"
where
  "map_symbol svc signal_row execution_id =
     (case resolve (es_symbol_mapper svc) (sg_symbol_raw signal_row) of
        None \<Rightarrow> return_early (finish svc (sg_signal_id signal_row) execution_id REJECTED_SYMBOL
                  (Some (NoSymbolMapping (sg_symbol_raw signal_row))) [])
      | Some mt5_symbol \<Rightarrow>
          bindP (db_step (update_execution execution_id [F_mt5_symbol mt5_symbol])) (\<lambda>_.
          bindP (db_write_now (es_now svc)
                   (\<lambda>now. set_symbol_normalized now (sg_signal_id signal_row) mt5_symbol)) (\<lambda>_.
          Ret (Inr mt5_symbol))))"

text \<open>4: the connection, and the identity that names the daily state.\<close>

definition connect_account ::
  "'s service \<Rightarrow> string \<Rightarrow> int \<Rightarrow> ('s world, execution_status + string \<times> pyfloat) prog"
where
  "connect_account svc signal_id execution_id =
     bindP (ensure_connected svc) (\<lambda>c.
     if \<not> c then return_early (finish svc signal_id execution_id FAILED_MT5_UNAVAILABLE
                   (Some UnableToConnect) [])
     else bindP (gw_account_info (es_mt5 svc)) (\<lambda>info. case info of
            None \<Rightarrow> return_early (finish svc signal_id execution_id FAILED_MT5_UNAVAILABLE
                      (Some UnableToRetrieveAccount) [])
          | Some account \<Rightarrow> (case account_key_for account of
                None \<Rightarrow> return_early (finish svc signal_id execution_id FAILED_MT5_UNAVAILABLE
                          (Some UnableToDetermineIdentity) [])
              | Some account_key \<Rightarrow>
                  bindP (db_step (update_execution execution_id [F_account_key account_key])) (\<lambda>_.
                  Ret (Inr (account_key, ai_equity account))))))"

text \<open>5: the symbol, the quote and the broker's clock.\<close>

record market =
  mk_symbol_info :: symbol_info
  mk_bid :: pyfloat
  mk_ask :: pyfloat
  mk_entry_price :: pyfloat
  mk_broker_now :: datetime

definition entry_price_of :: "string \<Rightarrow> tick \<Rightarrow> pyfloat" where
  "entry_price_of action t = (if action = action_value BUY then tk_ask t else tk_bid t)"

definition market_data ::
  "'s service \<Rightarrow> signal_row \<Rightarrow> int \<Rightarrow> string \<Rightarrow> ('s world, execution_status + market) prog"
where
  "market_data svc signal_row execution_id mt5_symbol =
     (let signal_id = sg_signal_id signal_row; action = sg_action signal_row
      in bindP (gw_ensure_symbol (es_mt5 svc) mt5_symbol) (\<lambda>info. case info of
           None \<Rightarrow> return_early (finish svc signal_id execution_id REJECTED_SYMBOL_UNAVAILABLE
                     (Some (SymbolUnavailable mt5_symbol)) [])
         | Some symbol_info \<Rightarrow>
         bindP (gw_symbol_info_tick (es_mt5 svc) mt5_symbol) (\<lambda>quote. case quote of
           None \<Rightarrow> return_early (finish svc signal_id execution_id FAILED_MT5_UNAVAILABLE
                     (Some UnableToRetrieveTick) [])
         | Some t \<Rightarrow>
         bindP (db_step (update_execution execution_id [F_entry_price (Some (entry_price_of action t))])) (\<lambda>_.
         bindP (gw_server_time (es_mt5 svc) mt5_symbol) (\<lambda>server. case server of
           None \<Rightarrow> return_early (finish svc signal_id execution_id FAILED_BROKER_TIME_UNKNOWN
                     (Some UnableToDetermineBrokerTime) [])
         | Some broker_now \<Rightarrow>
             Ret (Inr \<lparr>mk_symbol_info = symbol_info, mk_bid = tk_bid t, mk_ask = tk_ask t,
                       mk_entry_price = entry_price_of action t, mk_broker_now = broker_now\<rparr>))))))"

text \<open>7, 8: stop loss and spread.\<close>

definition quote_checks ::
  "'s service \<Rightarrow> signal_row \<Rightarrow> int \<Rightarrow> market \<Rightarrow> ('s world, execution_status + unit) prog"
where
  "quote_checks svc signal_row execution_id mk =
     (let cfg = es_settings svc; signal_id = sg_signal_id signal_row
      in bindR (require_ok svc signal_id execution_id
           (check_stop_loss (sg_action signal_row) (sg_stop_loss signal_row) (mk_entry_price mk)
              (cfg_require_stop_loss cfg))) (\<lambda>_.
         bindP (liftE (check_spread (mk_bid mk) (mk_ask mk) (dflt_value (Fin 0) (si_point (mk_symbol_info mk)))
                  (cfg_max_spread_points cfg))) (\<lambda>spread_check.
         require_ok svc signal_id execution_id spread_check)))"

text \<open>9, 10: trades of the broker day on this account, and open positions of the bridge.\<close>

definition bridge_positions :: "int \<Rightarrow> sdk_object list \<Rightarrow> sdk_object list" where
  "bridge_positions magic_number positions =
     filter (\<lambda>p. get_attr p ''magic'' ANone = AInt magic_number) positions"

definition count_checks ::
  "'s service \<Rightarrow> string \<Rightarrow> int \<Rightarrow> string \<Rightarrow> datetime \<Rightarrow> ('s world, execution_status + unit) prog"
where
  "count_checks svc signal_id execution_id account_key broker_now =
     (let cfg = es_settings svc; day_start = isoformat (start_of_trading_day broker_now)
      in bindP (db_read (count_executed_trades_since account_key day_start)) (\<lambda>trades_today.
         bindR (require_ok svc signal_id execution_id
                  (check_daily_trade_limit trades_today (cfg_max_trades_per_day cfg))) (\<lambda>_.
         bindP (gw_positions_get (es_mt5 svc)) (\<lambda>result. case result of
           None \<Rightarrow> bindP (gw_last_error (es_mt5 svc)) (\<lambda>_.
                   return_early (finish svc signal_id execution_id FAILED_MT5_STATE_UNKNOWN
                     (Some PositionQueryFailed) []))
         | Some positions \<Rightarrow>
             require_ok svc signal_id execution_id
               (check_position_limit (int (length (bridge_positions (cfg_magic_number cfg) positions)))
                  (cfg_max_open_positions cfg))))))"

text \<open>11, 12: the loss of the day against its first equity, and the risk asked for.\<close>

definition loss_checks ::
  "'s service \<Rightarrow> signal_row \<Rightarrow> int \<Rightarrow> string \<Rightarrow> pyfloat \<Rightarrow> datetime
     \<Rightarrow> ('s world, execution_status + unit) prog"
where
  "loss_checks svc signal_row execution_id account_key current_equity broker_now =
     (let cfg = es_settings svc; signal_id = sg_signal_id signal_row;
          trading_day = trading_day_key broker_now
      in bindP (db_read (get_daily_loss_baseline account_key trading_day)) (\<lambda>stored.
         bindP (case stored of
                  Some b \<Rightarrow> Ret b
                | None \<Rightarrow> bindP (db_step_now (es_now svc)
                            (\<lambda>now. set_daily_loss_baseline now account_key trading_day current_equity))
                            (\<lambda>_. Ret current_equity)) (\<lambda>baseline.
         bindP (liftE (check_daily_loss current_equity baseline (cfg_max_daily_loss_percent cfg))) (\<lambda>loss_check.
         bindR (require_ok svc signal_id execution_id loss_check) (\<lambda>_.
         require_ok svc signal_id execution_id
           (check_risk_percent (sg_risk_percent signal_row) (cfg_max_risk_percent cfg)))))))"

text \<open>13, 14: the volume.\<close>

definition size_order ::
  "'s service \<Rightarrow> signal_row \<Rightarrow> int \<Rightarrow> string \<Rightarrow> pyfloat \<Rightarrow> market
     \<Rightarrow> ('s world, execution_status + pyfloat option) prog"
where
  "size_order svc signal_row execution_id mt5_symbol current_equity mk =
     (let signal_id = sg_signal_id signal_row; si = mk_symbol_info mk
      in bindP (calculate_risk_based_volume (es_mt5 svc) mt5_symbol (sg_action signal_row)
           (mk_entry_price mk) (sg_stop_loss signal_row) current_equity (sg_risk_percent signal_row)
           (dflt_value (flit (1/100)) (si_volume_min si)) (dflt_value (Fin 100) (si_volume_max si))
           (dflt_value (flit (1/100)) (si_volume_step si))) (\<lambda>volume_result.
         if \<not> vr_ok volume_result
         then return_early (finish svc signal_id execution_id
                (if vr_reason volume_result = Some VolumeBelowMinimum then REJECTED_VOLUME_BELOW_MINIMUM
                 else REJECTED_VOLUME) (vr_reason volume_result) [])
         else bindP (db_step (update_execution execution_id
                [F_calculated_volume (vr_volume volume_result)])) (\<lambda>_.
              Ret (Inr (vr_volume volume_result)))))"

text \<open>15: the broker's own check of the very request that would be sent.\<close>

definition check_order ::
  "'s service \<Rightarrow> string \<Rightarrow> int \<Rightarrow> order_request \<Rightarrow> ('s world, execution_status + unit) prog"
where
  "check_order svc signal_id execution_id request =
     bindP (gw_order_check (es_mt5 svc) request) (\<lambda>check_result.
     let check_retcode = result_retcode check_result
     in bindP (db_step (update_execution execution_id [F_order_check_retcode check_retcode])) (\<lambda>_.
        if check_result = None \<or> \<not> is_check_success check_retcode
        then return_early (finish svc signal_id execution_id REJECTED_ORDER_CHECK
               (Some (OrderCheckFailed check_retcode
                        (result_comment ''order_check returned no result'' check_result))) [])
        else Ret (Inr ())))"

text \<open>16: the irreversible boundary, and what each answer of the broker means.\<close>

definition send_order ::
  "'s service \<Rightarrow> string \<Rightarrow> int \<Rightarrow> order_request \<Rightarrow> ('s world, execution_status) prog"
where
  "send_order svc signal_id execution_id request =
     bindP (gw_order_send (es_mt5 svc) request) (\<lambda>send_result.
     let send_retcode = result_retcode send_result
     in bindP (db_step (update_execution execution_id [F_order_send_retcode send_retcode])) (\<lambda>_.
     case send_result of
       None \<Rightarrow> finish svc signal_id execution_id REVIEW_REQUIRED (Some NoSendResult) []
     | Some res \<Rightarrow>
        let comment = result_comment [] send_result;
            tickets = [F_order_ticket (tr_order res), F_deal_ticket (tr_deal res)];
            exposure_fields = tickets @ [F_executed_volume (tr_volume res), F_executed_price (tr_price res)]
        in if send_retcode = Some TRADE_RETCODE_DONE
           then finish svc signal_id execution_id EXECUTED
                  (Some (BrokerComment (if comment = [] then ''order_send success'' else comment)))
                  exposure_fields
           else if send_retcode = Some TRADE_RETCODE_DONE_PARTIAL
           then finish svc signal_id execution_id EXECUTED_PARTIAL
                  (Some (BrokerComment (if comment = [] then ''order_send partial fill'' else comment)))
                  exposure_fields
           else if send_retcode = Some TRADE_RETCODE_PLACED
           then finish svc signal_id execution_id REVIEW_REQUIRED (Some (UnexpectedPlaced comment)) tickets
           else finish svc signal_id execution_id FAILED_ORDER_SEND
                  (Some (OrderSendFailed send_retcode comment)) []))"

text \<open>
  The stages in the order of the code. A volume result that is ok holds a volume
  (\<open>size_volume_ok\<close>), so the exception in its place is never raised.
\<close>

definition end_of :: "('w, 'r + 'r) prog \<Rightarrow> ('w, 'r) prog" where
  "end_of m = bindP m (\<lambda>res. Ret (case res of Inl st \<Rightarrow> st | Inr st \<Rightarrow> st))"

definition process_signal :: "'s service \<Rightarrow> signal_row \<Rightarrow> ('s world, execution_status) prog" where
  "process_signal svc signal_row =
     (let signal_id = sg_signal_id signal_row; action = sg_action signal_row; cfg = es_settings svc
      in bindP (open_execution svc signal_row) (\<lambda>execution_id. end_of (
         bindR (screen_signal svc signal_row execution_id) (\<lambda>_.
         bindR (map_symbol svc signal_row execution_id) (\<lambda>mt5_symbol.
         bindR (connect_account svc signal_id execution_id) (\<lambda>(account_key, current_equity).
         bindR (market_data svc signal_row execution_id mt5_symbol) (\<lambda>mk.
         bindR (quote_checks svc signal_row execution_id mk) (\<lambda>_.
         bindR (count_checks svc signal_id execution_id account_key (mk_broker_now mk)) (\<lambda>_.
         bindR (loss_checks svc signal_row execution_id account_key current_equity (mk_broker_now mk)) (\<lambda>_.
         bindR (size_order svc signal_row execution_id mt5_symbol current_equity mk) (\<lambda>volume.
         bindP (liftE (case volume of None \<Rightarrow> Inl TypeError | Some v \<Rightarrow> Inr v)) (\<lambda>v.
         let request = build_order_request svc mt5_symbol action v (mk_entry_price mk)
                         (sg_stop_loss signal_row) (sg_take_profit signal_row) (mk_symbol_info mk) signal_id
         in bindR (check_order svc signal_id execution_id request) (\<lambda>_.
            if cfg_dry_run cfg \<or> \<not> live_execution_allowed cfg
            then return_early (finish svc signal_id execution_id DRY_RUN_APPROVED (Some DryRunSendSkipped) [])
            else go_on (send_order svc signal_id execution_id request))))))))))))))"

subsection \<open>Restart recovery\<close>

definition find_deal_by_comment ::
  "'s service \<Rightarrow> string \<Rightarrow> ('s world, (attr \<times> attr) option) prog"
where
  "find_deal_by_comment svc comment =
     bindP (utcnow (es_now svc)) (\<lambda>now.
     bindP (gw_history_deals_get (es_mt5 svc)
              (utc_of_us (epoch_us now - RECONCILIATION_LOOKBACK)) now) (\<lambda>deals.
     Ret (map_option (\<lambda>deal. (get_attr deal ''order'' ANone, get_attr deal ''ticket'' ANone))
            (find (\<lambda>deal. get_attr deal ''comment'' (AStr []) = AStr comment) deals))))"

definition reconcile_stuck_signal :: "'s service \<Rightarrow> signal_row \<Rightarrow> ('s world, execution_status) prog" where
  "reconcile_stuck_signal svc signal_row =
     (let signal_id = sg_signal_id signal_row;
          set_status = (\<lambda>st reason. db_write_now (es_now svc)
             (\<lambda>now. update_signal_status now signal_id st reason None))
      in bindP (ensure_connected svc) (\<lambda>c.
         if \<not> c
         then bindP (set_status REVIEW_REQUIRED (Some ReconcileMT5Unavailable)) (\<lambda>_. Ret REVIEW_REQUIRED)
         else bindP (find_deal_by_comment svc (meb_comment signal_id)) (\<lambda>found.
              if found \<noteq> None
              then bindP (set_status RECOVERED_EXECUTED None) (\<lambda>_. Ret RECOVERED_EXECUTED)
              else bindP (set_status REVIEW_REQUIRED (Some ReconcileNoHistory)) (\<lambda>_. Ret REVIEW_REQUIRED))))"

subsection \<open>Read-only snapshots\<close>

definition ACCOUNT_FIELDS :: "string list" where
  "ACCOUNT_FIELDS = [''balance'', ''equity'', ''margin'', ''margin_free'', ''margin_level'', ''profit'',
     ''currency'']"

definition POSITION_FIELDS :: "string list" where
  "POSITION_FIELDS = [''ticket'', ''symbol'', ''type'', ''volume'', ''price_open'', ''price_current'',
     ''sl'', ''tp'', ''profit'', ''swap'', ''magic'', ''time'']"

definition ORDER_FIELDS :: "string list" where
  "ORDER_FIELDS = [''ticket'', ''symbol'', ''type'', ''volume_current'', ''price_open'', ''sl'', ''tp'',
     ''magic'', ''time_setup'']"

type_synonym snapshot = "(string \<times> attr) list"

text \<open>\<open>getattr\<close> of the account object; its typed fields are attributes too.\<close>

definition account_attr :: "account_info \<Rightarrow> string \<Rightarrow> attr" where
  "account_attr a name =
     (if name = ''equity'' then AFloat (ai_equity a)
      else if name = ''server'' then (case ai_server a of None \<Rightarrow> ANone | Some s \<Rightarrow> AStr s)
      else if name = ''login'' then (case ai_login a of None \<Rightarrow> ANone | Some n \<Rightarrow> AInt n)
      else get_attr (ai_attrs a) name ANone)"

definition account_snapshot :: "'s service \<Rightarrow> ('s world, snapshot option) prog" where
  "account_snapshot svc =
     bindP (ensure_connected svc) (\<lambda>c.
     if \<not> c then Ret None
     else bindP (gw_account_info (es_mt5 svc)) (\<lambda>info.
          Ret (map_option (\<lambda>account. map (\<lambda>f. (f, account_attr account f)) ACCOUNT_FIELDS) info)))"

definition item_snapshot :: "string list \<Rightarrow> sdk_object \<Rightarrow> snapshot" where
  "item_snapshot names item = map (\<lambda>f. (f, get_attr item f ANone)) names"

definition positions_snapshot :: "'s service \<Rightarrow> ('s world, snapshot list option) prog" where
  "positions_snapshot svc =
     bindP (ensure_connected svc) (\<lambda>c.
     if \<not> c then Ret None
     else bindP (gw_positions_get (es_mt5 svc)) (\<lambda>positions.
          Ret (map_option (map (item_snapshot POSITION_FIELDS)) positions)))"

definition orders_snapshot :: "'s service \<Rightarrow> ('s world, snapshot list option) prog" where
  "orders_snapshot svc =
     bindP (ensure_connected svc) (\<lambda>c.
     if \<not> c then Ret None
     else bindP (gw_orders_get (es_mt5 svc)) (\<lambda>orders.
          Ret (map_option (map (item_snapshot ORDER_FIELDS)) orders)))"

end
