(* ===== verification/SignalModel.thy ===== *)
theory SignalModel
  imports Enums PyTime Database
begin

section \<open>Request and response models (app/models/signal.py)\<close>

text \<open>
  \<open>SignalCreate\<close> with its field constraints and validators, from the typed values pydantic
  has parsed out of the JSON body; the two response models.
\<close>

record signal_create =
  sc_signal_id :: string
  sc_timestamp :: datetime
  sc_symbol :: string
  sc_action :: string
  sc_risk_percent :: pyfloat
  sc_stop_loss :: "pyfloat option"
  sc_take_profit :: "pyfloat option"
  sc_strategy :: "string option"
  sc_comment :: "string option"

definition newline :: char where
  "newline = char_of (10 :: nat)"

definition safe_char :: "char \<Rightarrow> bool" where
  "safe_char c = (let n = of_char c :: nat
     in 65 \<le> n \<and> n \<le> 90 \<or> 97 \<le> n \<and> n \<le> 122 \<or> 48 \<le> n \<and> n \<le> 57
        \<or> c \<in> set ''._:-'')"

text \<open>
  \<open>re.match\<close> of \<open>^[A-Za-z0-9._:\-]+$\<close>: the \<open>$\<close> also matches before a newline that ends
  the string.
\<close>

definition safe_signal_id :: "string \<Rightarrow> bool" where
  "safe_signal_id s =
     (let body = (if s \<noteq> [] \<and> last s = newline then butlast s else s)
      in body \<noteq> [] \<and> list_all safe_char body)"

definition length_between :: "nat \<Rightarrow> nat \<Rightarrow> string \<Rightarrow> bool" where
  "length_between lo hi s \<longleftrightarrow> lo \<le> length s \<and> length s \<le> hi"

definition positive_finite :: "pyfloat \<Rightarrow> bool" where
  "positive_finite x \<longleftrightarrow> is_finite x \<and> flt (Fin 0) x"

definition optionally :: "('a \<Rightarrow> bool) \<Rightarrow> 'a option \<Rightarrow> bool" where
  "optionally p x = (case x of None \<Rightarrow> True | Some v \<Rightarrow> p v)"

definition validate_signal_id :: "string \<Rightarrow> string result" where
  "validate_signal_id value = (if \<not> safe_signal_id value then Inl ValueError else Inr value)"

definition validate_action :: "string \<Rightarrow> string result" where
  "validate_action value = (let normalized = upper (strip value)
     in if normalized \<notin> set [action_value BUY, action_value SELL] then Inl ValueError
        else Inr normalized)"

text \<open>\<open>SignalCreate(...)\<close>: the value with its action normalised, or a \<open>ValidationError\<close>.\<close>

definition make_signal :: "signal_create \<Rightarrow> signal_create result" where
  "make_signal s =
     bindE (if length_between 1 160 (sc_signal_id s) then validate_signal_id (sc_signal_id s)
            else Inl ValueError) (\<lambda>sid.
     bindE (if length_between 1 50 (sc_symbol s) then Inr (sc_symbol s) else Inl ValueError) (\<lambda>symb.
     bindE (validate_action (sc_action s)) (\<lambda>act.
     bindE (if is_finite (sc_risk_percent s) \<and> flt (Fin 0) (sc_risk_percent s)
               \<and> fle (sc_risk_percent s) (Fin 100) then Inr (sc_risk_percent s) else Inl ValueError) (\<lambda>rp.
     bindE (if optionally positive_finite (sc_stop_loss s) then Inr (sc_stop_loss s)
            else Inl ValueError) (\<lambda>sl.
     bindE (if optionally positive_finite (sc_take_profit s) then Inr (sc_take_profit s)
            else Inl ValueError) (\<lambda>tp.
     Inr (s\<lparr>sc_signal_id := sid, sc_symbol := symb, sc_action := act, sc_risk_percent := rp,
            sc_stop_loss := sl, sc_take_profit := tp\<rparr>)))))))"

record signal_accepted_response =
  sar_accepted :: bool
  sar_duplicate :: bool
  sar_signal_id :: string
  sar_status :: execution_status

record signal_status_response =
  ssr_signal_id :: string
  ssr_status :: execution_status
  ssr_rejection_reason :: "reason option"
  ssr_symbol_raw :: string
  ssr_symbol_normalized :: "string option"
  ssr_action :: string
  ssr_risk_percent :: pyfloat
  ssr_stop_loss :: "pyfloat option"
  ssr_take_profit :: "pyfloat option"
  ssr_attempt_count :: int
  ssr_received_at :: string
  ssr_updated_at :: string

subsection \<open>Lemmas\<close>

text \<open>The identifiers the pattern matches, written out.\<close>

lemma safe_char_iff:
  "safe_char c \<longleftrightarrow> c \<in> set ''ABCDEFGHIJKLMNOPQRSTUVWXYZabcdefghijklmnopqrstuvwxyz0123456789._:-''"
proof -
  have "\<forall>c. safe_char c \<longleftrightarrow> c \<in> set ''ABCDEFGHIJKLMNOPQRSTUVWXYZabcdefghijklmnopqrstuvwxyz0123456789._:-''"
    by code_simp
  then show ?thesis by blast
qed

lemma newline_unsafe: "\<not> safe_char newline"
  by (simp add: safe_char_def newline_def Let_def) code_simp

lemma newline_char: "newline = CHR 0x0A"
  by (simp add: newline_def) code_simp

lemma safe_signal_id_iff:
  "safe_signal_id s \<longleftrightarrow> (\<exists>body. body \<noteq> [] \<and> list_all safe_char body \<and> (s = body \<or> s = body @ [newline]))"
proof (cases "s \<noteq> [] \<and> last s = newline")
  case True
  then have s: "s = butlast s @ [newline]" by (metis append_butlast_last_id)
  have u: "\<not> list_all safe_char s" using s newline_unsafe by (metis list_all_append list.pred_inject(2))
  have "safe_signal_id s \<longleftrightarrow> butlast s \<noteq> [] \<and> list_all safe_char (butlast s)" using True by (simp add: safe_signal_id_def Let_def)
  also have "\<dots> \<longleftrightarrow> (\<exists>body. body \<noteq> [] \<and> list_all safe_char body \<and> (s = body \<or> s = body @ [newline]))"
    using s u by (metis butlast_snoc)
  finally show ?thesis .
next
  case False
  then show ?thesis by (auto simp: safe_signal_id_def)
qed

lemma validate_action_Inr:
  "validate_action v = Inr a \<Longrightarrow> a = action_value BUY \<or> a = action_value SELL"
  by (auto simp: validate_action_def Let_def split: if_splits)

lemma make_signal_Inr:
  assumes "make_signal s = Inr t"
  shows "sc_signal_id t = sc_signal_id s" and "safe_signal_id (sc_signal_id t)"
    and "1 \<le> length (sc_signal_id t)" and "length (sc_signal_id t) \<le> 160"
    and "sc_action t \<in> {''BUY'', ''SELL''}"
    and "is_finite (sc_risk_percent t)" and "flt (Fin 0) (sc_risk_percent t)"
    and "fle (sc_risk_percent t) (Fin 100)"
    and "optionally positive_finite (sc_stop_loss t)"
    and "optionally positive_finite (sc_take_profit t)"
    and "sc_timestamp t = sc_timestamp s"
  using assms
  by (auto simp: make_signal_def bindE_eq_Inr validate_signal_id_def length_between_def
      dest!: validate_action_Inr split: if_splits)

end
