(* ===== verification/Api.thy ===== *)
theory Api
  imports ExecutionService SignalModel
begin

section \<open>The HTTP API (app/api, app/services/signal_service.py, app/main.py)\<close>

text \<open>
  \<open>SignalService\<close> and the request handlers. A handler's answer is the response body or the
  error response FastAPI makes of an \<open>HTTPException\<close>; an exception stays an exception.
  FastAPI, the JSON codec and the routing are not modelled.
\<close>

datatype 'a http_response = HttpOk 'a | HttpError int string

subsection \<open>SignalService\<close>

definition signal_dict_of :: "signal_create \<Rightarrow> signal_dict" where
  "signal_dict_of signal = \<lparr>sd_signal_id = sc_signal_id signal,
     sd_timestamp = isoformat (sc_timestamp signal), sd_symbol = sc_symbol signal,
     sd_action = sc_action signal, sd_risk_percent = sc_risk_percent signal,
     sd_stop_loss = sc_stop_loss signal, sd_take_profit = sc_take_profit signal,
     sd_strategy = sc_strategy signal, sd_comment = sc_comment signal\<rparr>"

text \<open>The clock is read before the lock is taken. Answers the row and whether it is a duplicate.\<close>

definition submit :: "'s clock \<Rightarrow> signal_create \<Rightarrow> ('s world, signal_row option \<times> bool) prog" where
  "submit now signal =
     bindP (utcnow now) (\<lambda>t.
     bindP (db_step (\<lambda>d. let (r, d') = insert_signal_if_new (isoformat t) (signal_dict_of signal) d
              in (Inr r, d'))) (\<lambda>(row, created).
     Ret (row, \<not> created)))"

definition service_get :: "string \<Rightarrow> ('s world, signal_row option) prog" where
  "service_get signal_id = db_read (get_signal signal_id)"

subsection \<open>/api/signals\<close>

definition submit_signal ::
  "'s clock \<Rightarrow> signal_create \<Rightarrow> ('s world, signal_accepted_response http_response) prog"
where
  "submit_signal now signal =
     bindP (submit now signal) (\<lambda>(row, duplicate). case row of
        None \<Rightarrow> Throw TypeError
      | Some r \<Rightarrow> Ret (HttpOk \<lparr>sar_accepted = True, sar_duplicate = duplicate,
                    sar_signal_id = sg_signal_id r, sar_status = sg_status r\<rparr>))"

definition status_response :: "signal_row \<Rightarrow> signal_status_response" where
  "status_response r = \<lparr>ssr_signal_id = sg_signal_id r, ssr_status = sg_status r,
     ssr_rejection_reason = sg_rejection_reason r, ssr_symbol_raw = sg_symbol_raw r,
     ssr_symbol_normalized = sg_symbol_normalized r, ssr_action = sg_action r,
     ssr_risk_percent = sg_risk_percent r, ssr_stop_loss = sg_stop_loss r,
     ssr_take_profit = sg_take_profit r, ssr_attempt_count = sg_attempt_count r,
     ssr_received_at = sg_received_at r, ssr_updated_at = sg_updated_at r\<rparr>"

definition api_get_signal :: "string \<Rightarrow> ('s world, signal_status_response http_response) prog" where
  "api_get_signal signal_id =
     bindP (service_get signal_id) (\<lambda>row. Ret (case row of
        None \<Rightarrow> HttpError 404 ''signal not found''
      | Some r \<Rightarrow> HttpOk (status_response r)))"

text \<open>The request as the client sends it: pydantic answers 422 to what \<open>make_signal\<close> refuses.\<close>

definition post_signals ::
  "'s clock \<Rightarrow> signal_create \<Rightarrow> ('s world, signal_accepted_response http_response) prog"
where
  "post_signals now body = (case make_signal body of
       Inl _ \<Rightarrow> Ret (HttpError 422 ''validation error'')
     | Inr signal \<Rightarrow> submit_signal now signal)"

subsection \<open>/api/account, /api/positions, /api/orders\<close>

definition or_503 :: "('w, 'a option) prog \<Rightarrow> ('w, 'a http_response) prog" where
  "or_503 m = bindP m (\<lambda>snapshot. Ret (case snapshot of
       None \<Rightarrow> HttpError 503 ''MT5 is not connected''
     | Some s \<Rightarrow> HttpOk s))"

definition api_account :: "'s service \<Rightarrow> ('s world, snapshot http_response) prog" where
  "api_account svc = or_503 (account_snapshot svc)"

definition api_positions :: "'s service \<Rightarrow> ('s world, snapshot list http_response) prog" where
  "api_positions svc = or_503 (positions_snapshot svc)"

definition api_orders :: "'s service \<Rightarrow> ('s world, snapshot list http_response) prog" where
  "api_orders svc = or_503 (orders_snapshot svc)"

subsection \<open>/health, /api/status\<close>

definition api_health :: "(string \<times> string) list" where
  "api_health = [(''status'', ''ok'')]"

datatype status_field = SfText string | SfBool bool

definition version :: string where
  "version = ''0.1.0''"

definition api_status :: "'s service \<Rightarrow> bool \<Rightarrow> ('s world, (string \<times> status_field) list) prog" where
  "api_status svc worker_running =
     (let cfg = es_settings svc
      in bindP (gw_connected (es_mt5 svc)) (\<lambda>connected.
         Ret [(''service'', SfText ''MT5 Execution Bridge''),
              (''version'', SfText version),
              (''environment'', SfText (cfg_environment cfg)),
              (''dryRun'', SfBool (cfg_dry_run cfg)),
              (''liveExecutionEnabled'', SfBool (cfg_live_execution_enabled cfg)),
              (''mt5Connected'', SfBool connected),
              (''workerRunning'', SfBool worker_running)]))"

subsection \<open>BodySizeLimitMiddleware\<close>

definition MAX_REQUEST_BODY_BYTES :: int where
  "MAX_REQUEST_BODY_BYTES = 16 * 1024"

definition body_size_limit ::
  "string option \<Rightarrow> ('w, 'a http_response) prog \<Rightarrow> ('w, 'a http_response) prog"
where
  "body_size_limit content_length call_next = (case content_length of
       None \<Rightarrow> call_next
     | Some text \<Rightarrow> bindP (liftE (py_int text)) (\<lambda>n.
         if MAX_REQUEST_BODY_BYTES < n then Ret (HttpError 413 ''request body too large'')
         else call_next))"

end
