(* ===== verification/ExecutionWorker.thy ===== *)
theory ExecutionWorker
  imports Api
begin

section \<open>The worker and the whole process (app/worker/execution_worker.py, app/main.py)\<close>

text \<open>
  \<open>ExecutionWorker\<close> claims a signal and processes it in a thread, while the event loop serves
  requests; at startup it first reconciles what a crash left behind. The process is a step
  relation: each step is one atomic step of one thread, a new request, a claim, a start, a
  graceful stop, a crash, or a change outside the process. The database file and the outside
  world outlive a crash; the threads and the gateway object do not.
\<close>

subsection \<open>Startup recovery\<close>

fun recover_rows :: "'s service \<Rightarrow> signal_row list \<Rightarrow> ('s world, unit) prog" where
  "recover_rows svc [] = Ret ()"
| "recover_rows svc (row # rows) = bindP (reconcile_stuck_signal svc row) (\<lambda>_. recover_rows svc rows)"

definition recover_on_startup :: "'s service \<Rightarrow> ('s world, unit) prog" where
  "recover_on_startup svc = bindP (db_read find_stuck_processing) (recover_rows svc)"

subsection \<open>One turn of the loop\<close>

text \<open>\<open>claim_next_pending\<close> reads the clock only when there is a pending signal.\<close>

definition claim :: "'s clock \<Rightarrow> 's world \<Rightarrow> signal_row option \<times> 's world" where
  "claim now w =
     (if next_pending (w_db w) = None then (None, w)
      else let (t, s) = now (w_ext w);
               (r, d) = claim_next_pending (utcnow_iso t) (w_db w)
           in (r, w\<lparr>w_ext := s, w_db := d\<rparr>))"

subsection \<open>The lifespan of the application\<close>

text \<open>
  \<open>lifespan\<close>: before the first request \<open>worker.start()\<close>, whose synchronous part is the recovery (the
  flag \<open>_running\<close> and the new task are the phase \<open>Running\<close> below). At the end \<open>worker.stop()\<close> ends the
  loop, which the phase \<open>Stopping\<close> shows, but not a thread that is processing a signal; then the gateway
  is shut down and the database closed. A call on a closed database raises and ends the thread that makes
  it, and the process ends with its threads: the step \<open>crash\<close> stands for both, at any point.
\<close>

definition worker_start :: "'s service \<Rightarrow> ('s world, unit) prog" where
  [simp]: "worker_start svc = recover_on_startup svc"

definition lifespan_startup :: "'s service \<Rightarrow> ('s world, unit) prog" where
  [simp]: "lifespan_startup svc = worker_start svc"

definition lifespan_shutdown :: "'s service \<Rightarrow> ('s world, unit) prog" where
  [simp]: "lifespan_shutdown svc = gw_shutdown (es_mt5 svc)"

subsection \<open>The process\<close>

datatype phase = Down | Starting | Running | Stopping

text \<open>
  \<open>sy_handler\<close> is what the event loop is executing (recovery, a request handler, the shutdown
  of the gateway); \<open>sy_threads\<close> holds the running \<open>process_signal\<close> threads with their signal.
  The code runs one worker loop; the model allows any number of them.
\<close>

record 's process =
  sy_world :: "'s world"
  sy_phase :: phase
  sy_handler :: "('s world, unit) prog option"
  sy_threads :: "(string \<times> ('s world, execution_status) prog) list"

definition ignore :: "('w, 'a) prog \<Rightarrow> ('w, unit) prog" where
  "ignore m = bindP m (\<lambda>_. Ret ())"

text \<open>What the event loop executes for a request.\<close>

inductive request_handler :: "'s service \<Rightarrow> ('s world, unit) prog \<Rightarrow> bool" for svc where
  post: "request_handler svc (ignore (post_signals (es_now svc) body))"
| get_signal: "request_handler svc (ignore (api_get_signal signal_id))"
| account: "request_handler svc (ignore (api_account svc))"
| positions: "request_handler svc (ignore (api_positions svc))"
| orders: "request_handler svc (ignore (api_orders svc))"
| status: "request_handler svc (ignore (api_status svc running))"

definition reset_gateway :: "'s world \<Rightarrow> 's world" where
  "reset_gateway w = w\<lparr>w_connected := False\<rparr>"

inductive step :: "'s service \<Rightarrow> 's process \<Rightarrow> 's process \<Rightarrow> bool" for svc where
  start:
    "sy_phase p = Down \<Longrightarrow>
     step svc p (p\<lparr>sy_world := reset_gateway (sy_world p), sy_phase := Starting,
                   sy_handler := Some (lifespan_startup svc), sy_threads := []\<rparr>)"
| handler_step:
    "sy_handler p = Some (Atomic f) \<Longrightarrow> f (sy_world p) = (q, w) \<Longrightarrow>
     step svc p (p\<lparr>sy_world := w, sy_handler := Some q\<rparr>)"
| handler_return:
    "sy_handler p = Some (Ret ()) \<Longrightarrow>
     step svc p (p\<lparr>sy_handler := None,
                   sy_phase := (if sy_phase p = Starting then Running else sy_phase p)\<rparr>)"
| handler_raise:
    "sy_handler p = Some (Throw e) \<Longrightarrow>
     step svc p (p\<lparr>sy_handler := None,
                   sy_phase := (if sy_phase p = Starting then Down else sy_phase p)\<rparr>)"
| request:
    "sy_phase p = Running \<Longrightarrow> sy_handler p = None \<Longrightarrow> request_handler svc h \<Longrightarrow>
     step svc p (p\<lparr>sy_handler := Some h\<rparr>)"
| idle:
    "sy_phase p = Running \<Longrightarrow> sy_handler p = None \<Longrightarrow> claim (es_now svc) (sy_world p) = (None, w) \<Longrightarrow>
     step svc p (p\<lparr>sy_world := w\<rparr>)"
| claimed:
    "sy_phase p = Running \<Longrightarrow> sy_handler p = None \<Longrightarrow> claim (es_now svc) (sy_world p) = (Some row, w) \<Longrightarrow>
     step svc p (p\<lparr>sy_world := w,
                   sy_threads := (sg_signal_id row, process_signal svc row) # sy_threads p\<rparr>)"
| thread_step:
    "sy_threads p = ts @ (sid, Atomic f) # us \<Longrightarrow> f (sy_world p) = (q, w) \<Longrightarrow>
     step svc p (p\<lparr>sy_world := w, sy_threads := ts @ (sid, q) # us\<rparr>)"
| thread_return:
    "sy_threads p = ts @ (sid, Ret st) # us \<Longrightarrow> step svc p (p\<lparr>sy_threads := ts @ us\<rparr>)"
| thread_raise:
    "sy_threads p = ts @ (sid, Throw e) # us \<Longrightarrow> step svc p (p\<lparr>sy_threads := ts @ us\<rparr>)"
| stop:
    "sy_phase p = Running \<Longrightarrow> sy_handler p = None \<Longrightarrow>
     step svc p (p\<lparr>sy_phase := Stopping, sy_handler := Some (lifespan_shutdown svc)\<rparr>)"
| crash:
    "step svc p (p\<lparr>sy_phase := Down, sy_handler := None, sy_threads := []\<rparr>)"
| outside:
    "step svc p (p\<lparr>sy_world := (sy_world p)\<lparr>w_ext := s\<rparr>\<rparr>)"

text \<open>A first start on a new database file.\<close>

definition initial :: "'s \<Rightarrow> 's process" where
  "initial s = \<lparr>sy_world = \<lparr>w_ext = s, w_db = empty_db, w_connected = False, w_log = []\<rparr>,
     sy_phase = Down, sy_handler = None, sy_threads = []\<rparr>"

inductive reachable :: "'s service \<Rightarrow> 's process \<Rightarrow> bool" for svc where
  init: "reachable svc (initial s)"
| step: "reachable svc p \<Longrightarrow> step svc p q \<Longrightarrow> reachable svc q"

end
