(* ===== verification/Effects.thy ===== *)
theory Effects
  imports ExecutionWorker
begin

section \<open>The effect of a program on the database\<close>

text \<open>
  A program touches the database only by a relation \<open>E\<close> if each of its steps does, whatever other
  threads do in between, and none of its steps sends an order. Every program that never writes has
  every reflexive effect; the locale proves it once for the primitive steps, the combinators and
  the gateway, and is interpreted for each relation of interest.
\<close>

text \<open>The order requests a log shows as sent.\<close>

fun sent_request :: "sdk_event \<Rightarrow> order_request list" where
  "sent_request (E_order_send rq res) = [rq]"
| "sent_request _ = []"

definition order_sends :: "sdk_event list \<Rightarrow> order_request list" where
  "order_sends es = concat (map sent_request es)"

lemma order_sends_simps [simp]:
  "order_sends [] = []" "order_sends (e # es) = sent_request e @ order_sends es"
  "order_sends (es @ fs) = order_sends es @ order_sends fs"
  by (simp_all add: order_sends_def)

definition effect_step :: "(db \<Rightarrow> db \<Rightarrow> bool) \<Rightarrow> 's world \<Rightarrow> 's world \<Rightarrow> bool" where
  "effect_step E w w' \<longleftrightarrow> E (w_db w) (w_db w') \<and> (\<exists>es. w_log w' = w_log w @ es \<and> order_sends es = [])"

lemma effect_step_sends: "effect_step E w w' \<Longrightarrow> order_sends (w_log w') = order_sends (w_log w)"
  by (auto simp: effect_step_def)

definition effects :: "(db \<Rightarrow> db \<Rightarrow> bool) \<Rightarrow> ('s world, 'a) prog \<Rightarrow> bool" where
  "effects E p = guarantees (effect_step E) p"

lemma effects_mono:
  assumes "effects E p" and "\<And>d d'. E d d' \<Longrightarrow> E' d d'"
  shows "effects E' p"
proof -
  have "effect_step E' w w'" if "effect_step E w w'" for w w' :: "'a world"
    using that assms(2) unfolding effect_step_def by blast
  then show ?thesis
    unfolding effects_def guarantees_def
    by (rule conforms_weaken [OF assms(1) [unfolded effects_def guarantees_def]])
qed

lemma effects_run:
  assumes "effects E p" and "E (w_db w) (w_db w)" and "\<And>a b c. E a b \<Longrightarrow> E b c \<Longrightarrow> E a c"
  shows "E (w_db w) (w_db (snd (run p w)))"
proof (rule guarantees_run [where I = "\<lambda>v. E (w_db w) (w_db v)", OF assms(1) [unfolded effects_def] assms(2)])
  fix v v' :: "'a world" assume "effect_step E v v'" "E (w_db w) (w_db v)"
  then show "E (w_db w) (w_db v')" using assms(3) unfolding effect_step_def by blast
qed

text \<open>\<open>commits E p\<close>: the same of the database alone, orders sent or not.\<close>

definition commits :: "(db \<Rightarrow> db \<Rightarrow> bool) \<Rightarrow> ('s world, 'a) prog \<Rightarrow> bool" where
  "commits E p \<longleftrightarrow> guarantees (\<lambda>w w'. E (w_db w) (w_db w')) p"

lemma commits_Atomic: "commits E (Atomic f) \<longleftrightarrow> (\<forall>w. E (w_db w) (w_db (snd (f w))) \<and> commits E (fst (f w)))"
  by (simp add: commits_def guarantees_simps)

named_theorems quiet_intros

lemmas gateway_defs = gw_last_error_def gw_account_info_def gw_connected_def gw_initialize_def
  gw_shutdown_def gw_symbol_info_def gw_ensure_symbol_def gw_symbol_info_tick_def gw_server_time_def
  gw_positions_get_def gw_orders_get_def gw_history_deals_get_def gw_order_calc_profit_def
  gw_order_check_def

locale database_effect =
  fixes E :: "db \<Rightarrow> db \<Rightarrow> bool"
  assumes same [simp]: "E d d"
begin

lemma touch_Ret [quiet_intros]: "effects E (Ret a)"
  by (simp add: effects_def guarantees_simps)

lemma touch_Throw [quiet_intros]: "effects E (Throw e)"
  by (simp add: effects_def guarantees_simps)

lemma touch_liftE [quiet_intros]: "effects E (liftE r)"
  by (simp add: effects_def guarantees_liftE)

lemma touch_bindP [quiet_intros]: "effects E m \<Longrightarrow> (\<And>a. effects E (k a)) \<Longrightarrow> effects E (bindP m k)"
  unfolding effects_def by (rule guarantees_bindP)

lemma touch_catchP [quiet_intros]: "effects E m \<Longrightarrow> (\<And>e. effects E (h e)) \<Longrightarrow> effects E (catchP m h)"
  unfolding effects_def by (rule guarantees_catchP)

lemma touch_bindR [quiet_intros]: "effects E m \<Longrightarrow> (\<And>a. effects E (k a)) \<Longrightarrow> effects E (bindR m k)"
  unfolding bindR_def by (auto intro!: touch_bindP touch_Ret split: sum.split)

lemma touch_return_early [quiet_intros]: "effects E m \<Longrightarrow> effects E (return_early m)"
  unfolding return_early_def by (intro quiet_intros)

lemma touch_go_on [quiet_intros]: "effects E m \<Longrightarrow> effects E (go_on m)"
  unfolding go_on_def by (intro quiet_intros)

lemma touch_if [quiet_intros]:
  "(b \<Longrightarrow> effects E p) \<Longrightarrow> (\<not> b \<Longrightarrow> effects E q) \<Longrightarrow> effects E (if b then p else q)"
  by simp

lemma touch_option [quiet_intros]:
  "effects E p \<Longrightarrow> (\<And>x. effects E (k x)) \<Longrightarrow> effects E (case v of None \<Rightarrow> p | Some x \<Rightarrow> k x)"
  by (cases v) simp_all

lemma touch_prod [quiet_intros]: "(\<And>x y. effects E (k x y)) \<Longrightarrow> effects E (case v of (x, y) \<Rightarrow> k x y)"
  by (cases v) simp

lemma touch_Let [quiet_intros]: "(\<And>x. effects E (k x)) \<Longrightarrow> effects E (let x = v in k x)"
  by simp

lemma touch_gets [quiet_intros]: "effects E (gets g)"
  by (simp add: effects_def gets_def guarantees_atomically effect_step_def same)

lemma touch_db_read [quiet_intros]: "effects E (db_read f)"
  unfolding db_read_def by (rule touch_gets)

lemma touch_set_connected [quiet_intros]: "effects E (set_connected b)"
  by (simp add: effects_def set_connected_def modify_def guarantees_atomically effect_step_def same)

lemma touch_utcnow [quiet_intros]: "effects E (utcnow now)"
  by (simp add: effects_def utcnow_def guarantees_atomically effect_step_def same Let_def split: prod.split)

lemma touch_sdk_call: "(\<And>r. sent_request (ev r) = []) \<Longrightarrow> effects E (sdk_call ev f)"
  by (simp add: effects_def sdk_call_def guarantees_atomically effect_step_def same Let_def split: prod.split)

lemma touch_db_step: "(\<And>d. E d (snd (f d))) \<Longrightarrow> effects E (db_step f)"
  by (simp add: effects_def db_step_def guarantees_atomically effect_step_def same case_prod_beta)

lemma touch_db_step_now: "(\<And>t d. E d (snd (f t d))) \<Longrightarrow> effects E (db_step_now now f)"
  by (simp add: effects_def db_step_now_def guarantees_atomically effect_step_def same case_prod_beta Let_def)

lemma touch_db_write: "(\<And>d. E d (f d)) \<Longrightarrow> effects E (db_write f)"
  unfolding db_write_def by (rule touch_db_step) simp

lemma touch_db_write_now: "(\<And>t d. E d (f t d)) \<Longrightarrow> effects E (db_write_now now f)"
  unfolding db_write_now_def by (rule touch_db_step_now) simp

lemma touch_gateway [quiet_intros]:
  "effects E (gw_last_error m)" "effects E (gw_account_info m)" "effects E (gw_connected m)"
  "effects E (gw_initialize m path login password server)" "effects E (gw_shutdown m)"
  "effects E (gw_symbol_info m s)" "effects E (gw_ensure_symbol m s)" "effects E (gw_symbol_info_tick m s)"
  "effects E (gw_server_time m s)" "effects E (gw_positions_get m)" "effects E (gw_orders_get m)"
  "effects E (gw_history_deals_get m t1 t2)" "effects E (gw_order_calc_profit m i s v x y)"
  "effects E (gw_order_check m rq)"
  unfolding gateway_defs by (intro quiet_intros touch_sdk_call; simp)+

lemma touch_connect_attempts [quiet_intros]: "effects E (connect_attempts n svc)"
  by (induction n) (auto intro!: quiet_intros simp: Let_def)

lemma touch_ensure_connected [quiet_intros]: "effects E (ensure_connected svc)"
  unfolding ensure_connected_def by (intro quiet_intros)

lemma touch_bind_liftE: "(\<And>a. r = Inr a \<Longrightarrow> effects E (k a)) \<Longrightarrow> effects E (bindP (liftE r) k)"
  by (cases r) (simp_all add: touch_Throw)

lemma commits_effects: "effects E p \<Longrightarrow> commits E p"
  unfolding commits_def effects_def guarantees_def by (auto simp: effect_step_def elim: conforms_weaken)

lemma commits_bindP: "commits E m \<Longrightarrow> (\<And>a. commits E (k a)) \<Longrightarrow> commits E (bindP m k)"
  unfolding commits_def by (rule guarantees_bindP)

lemma commits_bindR: "commits E m \<Longrightarrow> (\<And>a. commits E (k a)) \<Longrightarrow> commits E (bindR m k)"
  unfolding bindR_def
  by (rule commits_bindP) (auto intro: commits_effects touch_Ret split: sum.split)

lemma commits_order_send: "commits E (gw_order_send m rq)"
  unfolding commits_def
  by (cases m) (simp_all add: gw_order_send_def guarantees_simps sdk_call_def guarantees_atomically
      case_prod_beta Let_def same)

lemma commits_prod: "(\<And>x y. commits E (k x y)) \<Longrightarrow> commits E (case v of (x, y) \<Rightarrow> k x y)"
  by (cases v) simp

lemma commits_if: "commits E p \<Longrightarrow> commits E q \<Longrightarrow> commits E (if b then p else q)"
  by simp

lemma commits_pure: "commits E (Ret a)" "commits E (liftE r)"
  by (rule commits_effects, intro quiet_intros)+

end

text \<open>Programs that leave the database, or its executions, as they are.\<close>

abbreviation read_only :: "('s world, 'a) prog \<Rightarrow> bool" where
  "read_only p \<equiv> effects (=) p"

interpretation ro: database_effect "(=)"
  by unfold_locales simp

definition same_executions :: "db \<Rightarrow> db \<Rightarrow> bool" where
  "same_executions d d' \<longleftrightarrow> db_executions d' = db_executions d"

interpretation se: database_effect same_executions
  by unfold_locales (simp add: same_executions_def)

end
