(* ===== verification/Footprint.thy ===== *)
theory Footprint
  imports Effects
begin

section \<open>What each program may do\<close>

text \<open>
  Two facts about every method, under any interference between its steps: which signals it may
  change (\<open>evolves\<close>), and that it sends no order. Only \<open>process_signal\<close> sends, at most once,
  with the tag of its own signal; a monitor with one bit (may still send) follows it.
\<close>

subsection \<open>Quiet programs\<close>

text \<open>What validation has established of a stored signal, in columns no method changes.\<close>

definition payload_ok :: "signal_row \<Rightarrow> bool" where
  "payload_ok r \<longleftrightarrow> safe_signal_id (sg_signal_id r) \<and> sg_action r \<in> {''BUY'', ''SELL''}
     \<and> is_finite (sg_risk_percent r) \<and> flt (Fin 0) (sg_risk_percent r) \<and> fle (sg_risk_percent r) (Fin 100)
     \<and> optionally positive_finite (sg_stop_loss r) \<and> optionally positive_finite (sg_take_profit r)"

text \<open>
  A step on the database: old signals evolve, a new one is valid, executions are only added or
  updated in place, and baselines are only added.
\<close>

definition execution_keys :: "db \<Rightarrow> (int \<times> string) list" where
  "execution_keys d = map (\<lambda>e. (ex_id e, ex_signal_id e)) (db_executions d)"

definition db_effect :: "(string \<Rightarrow> bool) \<Rightarrow> db \<Rightarrow> db \<Rightarrow> bool" where
  "db_effect own d d' \<longleftrightarrow> evolves own d d'
     \<and> (\<forall>sid r. get_signal sid d = None \<longrightarrow> get_signal sid d' = Some r \<longrightarrow> payload_ok r)
     \<and> (\<exists>ks. execution_keys d' = execution_keys d @ ks) \<and> (\<exists>bs. db_baselines d' = db_baselines d @ bs)"

lemma db_effect_refl [simp]: "db_effect own d d"
  by (simp add: db_effect_def)

lemma execution_keys_update [simp]: "execution_keys (set_execution eid as d) = execution_keys d"
  by (auto simp: execution_keys_def set_execution_def update_where_def)

lemma db_baselines_set_execution: "db_baselines (set_execution eid as d) = db_baselines d"
  by (simp add: set_execution_def)

lemma execution_keys_other [simp]:
  "execution_keys (d\<lparr>db_signals := ss\<rparr>) = execution_keys d"
  "execution_keys (d\<lparr>db_signals_seq := n\<rparr>) = execution_keys d"
  "execution_keys (d\<lparr>db_baselines := bs\<rparr>) = execution_keys d"
  by (simp_all add: execution_keys_def)

lemma execution_keys_insert:
  "\<exists>ks. execution_keys (snd (insert_execution rec d)) = execution_keys d @ ks"
  by (auto simp: execution_keys_def insert_execution_def Let_def)

lemma db_effect_old:
  assumes "evolves own d d'" and "map sg_signal_id (db_signals d') = map sg_signal_id (db_signals d)"
    and "\<exists>ks. execution_keys d' = execution_keys d @ ks" and "\<exists>bs. db_baselines d' = db_baselines d @ bs"
  shows "db_effect own d d'"
proof -
  from assms(2) have "sg_signal_id ` set (db_signals d') = sg_signal_id ` set (db_signals d)"
    by (metis set_map)
  then have "get_signal sid d = None \<longleftrightarrow> get_signal sid d' = None" for sid by (simp only: get_signal_None)
  with assms show ?thesis by (simp add: db_effect_def)
qed

lemma db_effect_update_signal_status:
  "st \<noteq> PENDING \<Longrightarrow> db_effect (\<lambda>s. s = sid) d (update_signal_status now sid st rs nrm d)"
  by (rule db_effect_old [OF evolves_update_signal_status])
    (auto simp: update_signal_status_def intro!: map_update_where)

lemma db_effect_set_symbol_normalized:
  "db_effect (\<lambda>s. s = sid) d (set_symbol_normalized now sid nrm d)"
  by (rule db_effect_old [OF evolves_set_symbol_normalized])
    (auto simp: set_symbol_normalized_def intro!: map_update_where)

lemma db_effect_executions:
  "db_effect own d (snd (insert_execution rec d))" "db_effect own d (snd (update_execution eid as d))"
  "db_effect own d (snd (set_daily_loss_baseline now k day eq d))"
proof -
  show "db_effect own d (snd (insert_execution rec d))"
    by (rule db_effect_old) (simp_all add: evolves_insert_execution execution_keys_insert, simp add: insert_execution_def Let_def)
  show "db_effect own d (snd (update_execution eid as d))"
    by (rule db_effect_old [OF evolves_update_execution]) (auto simp: db_baselines_set_execution)
  show "db_effect own d (snd (set_daily_loss_baseline now k day eq d))"
    by (rule db_effect_old) (simp_all add: evolves_set_baseline, simp_all add: set_daily_loss_baseline_def)
qed

lemma make_signal_payload:
  assumes "make_signal b = Inr s"
  shows "payload_ok (new_signal_row i now (signal_dict_of s))"
proof -
  have "optionally positive_finite x \<Longrightarrow> sql_real x = x" for x
    by (cases x) (auto simp: sql_real_def optionally_def positive_finite_def is_finite_def)
  with make_signal_Inr [OF assms] show ?thesis
    by (simp add: payload_ok_def new_signal_row_def signal_dict_of_def)
qed

lemma db_effect_insert_signal:
  assumes "\<And>i. payload_ok (new_signal_row i now s)"
  shows "db_effect own d (snd (insert_signal_if_new now s d))"
  using evolves_insert_signal [of own d now s] assms
  by (auto simp: db_effect_def insert_signal_if_new_def Let_def get_signal_append split: option.splits if_splits)

abbreviation quiet_step :: "(string \<Rightarrow> bool) \<Rightarrow> 's world \<Rightarrow> 's world \<Rightarrow> bool" where
  "quiet_step own \<equiv> effect_step (db_effect own)"

lemma quiet_step_evolves: "quiet_step own w w' \<Longrightarrow> evolves own (w_db w) (w_db w')"
  by (simp add: effect_step_def db_effect_def)

abbreviation quiet :: "(string \<Rightarrow> bool) \<Rightarrow> ('s world, 'a) prog \<Rightarrow> bool" where
  "quiet own \<equiv> effects (db_effect own)"

interpretation quiet: database_effect "db_effect own" for own
  by unfold_locales simp

lemma quiet_mono:
  assumes "quiet own p" and "\<And>s. own s \<Longrightarrow> own' s"
  shows "quiet own' p"
proof -
  have "row_evolves (own' s) r r'" if "row_evolves (own s) r r'" for s r r'
    using that assms(2) by (auto simp: row_evolves_def)
  then have "quiet_step own' w w'" if "quiet_step own w w'" for w w' :: "'a world"
    using that unfolding effect_step_def db_effect_def evolves_def
    by (fastforce split: option.splits)
  with assms(1) show ?thesis
    unfolding effects_def guarantees_def by (auto elim: conforms_weaken)
qed

subsection \<open>The helpers of the pipeline\<close>

lemma quiet_update_execution [quiet_intros]: "quiet own (db_step (update_execution eid as))"
  by (rule quiet.touch_db_step) (rule db_effect_executions)

lemma quiet_finish [quiet_intros]:
  "st \<noteq> PENDING \<Longrightarrow> quiet (\<lambda>s. s = sid) (finish svc sid eid st msg extra)"
  unfolding finish_def
  by (intro quiet_intros quiet.touch_db_write_now) (rule db_effect_update_signal_status)

text \<open>No check answers \<open>PENDING\<close> or \<open>PROCESSING\<close>.\<close>

definition settles :: "risk_check_result \<Rightarrow> bool" where
  "settles c \<longleftrightarrow> rc_status c \<notin> {Some PENDING, Some PROCESSING}"

lemma settles_checks [simp]:
  "settles (check_freshness ts age now)" "settles (check_risk_percent rp fx)"
  "settles (check_stop_loss a sl e req)" "settles (check_daily_trade_limit n mx)"
  "settles (check_position_limit n mx)"
  "check_spread bid ask pt mx = Inr c \<Longrightarrow> settles c"
  "check_daily_loss eq base mxl = Inr c \<Longrightarrow> settles c"
  by (auto simp: settles_def check_freshness_def check_risk_percent_def check_stop_loss_def check_spread_def
      check_daily_trade_limit_def check_position_limit_def check_daily_loss_def rc_pass_def rc_fail_def Let_def
      bindE_eq_Inr split: option.splits if_splits)

lemma quiet_require_ok: "settles c \<Longrightarrow> quiet (\<lambda>s. s = sid) (require_ok svc sid eid c)"
  unfolding require_ok_def settles_def
  by (auto intro!: quiet_intros split: option.split)

lemma quiet_require_checked [quiet_intros]:
  "quiet (\<lambda>s. s = sid) (require_ok svc sid eid (check_freshness ts age now))"
  "quiet (\<lambda>s. s = sid) (require_ok svc sid eid (check_risk_percent rp fx))"
  "quiet (\<lambda>s. s = sid) (require_ok svc sid eid (check_stop_loss a sl e req))"
  "quiet (\<lambda>s. s = sid) (require_ok svc sid eid (check_daily_trade_limit n mx))"
  "quiet (\<lambda>s. s = sid) (require_ok svc sid eid (check_position_limit n mx))"
  by (rule quiet_require_ok; simp)+

lemma quiet_bind_liftE:
  "(\<And>a. r = Inr a \<Longrightarrow> quiet own (k a)) \<Longrightarrow> quiet own (bindP (liftE r) k)"
  by (cases r) (simp_all add: quiet.touch_Throw)

subsection \<open>The stages\<close>

lemma quiet_open_execution [quiet_intros]: "quiet own (open_execution svc row)"
  unfolding open_execution_def
  by (intro quiet_intros quiet.touch_db_step) (rule db_effect_executions)

lemma quiet_screen_signal [quiet_intros]:
  "quiet (\<lambda>s. s = sg_signal_id row) (screen_signal svc row eid)"
  unfolding screen_signal_def Let_def by (intro quiet_intros) simp_all

lemma quiet_map_symbol [quiet_intros]:
  "quiet (\<lambda>s. s = sg_signal_id row) (map_symbol svc row eid)"
  unfolding map_symbol_def
  by (intro quiet_intros quiet.touch_db_write_now) (simp_all add: db_effect_set_symbol_normalized)

lemma quiet_connect_account [quiet_intros]: "quiet (\<lambda>s. s = sid) (connect_account svc sid eid)"
  unfolding connect_account_def by (intro quiet_intros) simp_all

lemma quiet_market_data [quiet_intros]:
  "quiet (\<lambda>s. s = sg_signal_id row) (market_data svc row eid symb)"
  unfolding market_data_def Let_def by (intro quiet_intros) simp_all

lemma quiet_quote_checks [quiet_intros]:
  "quiet (\<lambda>s. s = sg_signal_id row) (quote_checks svc row eid mk)"
  unfolding quote_checks_def Let_def
  by (intro quiet.touch_bindR quiet_require_checked quiet_bind_liftE quiet_require_ok) auto

lemma quiet_count_checks [quiet_intros]: "quiet (\<lambda>s. s = sid) (count_checks svc sid eid key t)"
  unfolding count_checks_def Let_def by (intro quiet_intros) simp_all

lemma quiet_loss_checks [quiet_intros]:
  "quiet (\<lambda>s. s = sg_signal_id row) (loss_checks svc row eid key eq t)"
  unfolding loss_checks_def Let_def
  by (intro quiet.touch_bindP [of _ "db_read f" for f] quiet.touch_db_read
      quiet.touch_bindP [of _ "case v of None \<Rightarrow> p | Some x \<Rightarrow> k x" for v p k] quiet.touch_option quiet.touch_Ret
      quiet.touch_bindP [of _ "db_step_now n f" for n f] quiet.touch_db_step_now db_effect_executions
      quiet.touch_bindR quiet_require_checked quiet_bind_liftE quiet_require_ok) auto

lemma quiet_volume [quiet_intros]:
  "quiet own (calculate_risk_based_volume m symb act e sl eq rp vmin vmax vstep)"
  unfolding calculate_risk_based_volume_def by (intro quiet_intros)

lemma quiet_size_order [quiet_intros]:
  "quiet (\<lambda>s. s = sg_signal_id row) (size_order svc row eid symb eq mk)"
  unfolding size_order_def Let_def by (intro quiet_intros) simp_all

lemma quiet_check_order [quiet_intros]: "quiet (\<lambda>s. s = sid) (check_order svc sid eid rq)"
  unfolding check_order_def Let_def by (intro quiet_intros) simp_all

subsection \<open>Everything but the pipeline sends nothing\<close>

lemma quiet_find_deal [quiet_intros]: "quiet own (find_deal_by_comment svc c)"
  unfolding find_deal_by_comment_def by (intro quiet_intros)

lemma quiet_reconcile [quiet_intros]:
  "quiet (\<lambda>s. s = sg_signal_id row) (reconcile_stuck_signal svc row)"
  unfolding reconcile_stuck_signal_def Let_def
  by (intro quiet_intros quiet.touch_db_write_now) (simp_all add: db_effect_update_signal_status)

lemma quiet_recover_rows: "quiet (\<lambda>s. s \<in> sg_signal_id ` set rows) (recover_rows svc rows)"
proof (induction rows)
  case (Cons row rows)
  have "quiet (\<lambda>s. s \<in> sg_signal_id ` set (row # rows)) (reconcile_stuck_signal svc row)"
    by (rule quiet_mono [OF quiet_reconcile]) simp
  moreover have "quiet (\<lambda>s. s \<in> sg_signal_id ` set (row # rows)) (recover_rows svc rows)"
    by (rule quiet_mono [OF Cons.IH]) simp
  ultimately show ?case by (auto intro: quiet_intros)
qed (simp add: quiet_intros)

lemma quiet_snapshots [quiet_intros]:
  "quiet own (account_snapshot svc)" "quiet own (positions_snapshot svc)" "quiet own (orders_snapshot svc)"
  unfolding account_snapshot_def positions_snapshot_def orders_snapshot_def by (intro quiet_intros)+

lemma quiet_submit [quiet_intros]: "make_signal b = Inr s \<Longrightarrow> quiet own (submit now s)"
  unfolding submit_def
  by (intro quiet_intros quiet.touch_db_step)
    (auto simp: case_prod_beta Let_def intro!: db_effect_insert_signal make_signal_payload)

lemma quiet_or_503 [quiet_intros]: "quiet own m \<Longrightarrow> quiet own (or_503 m)"
  unfolding or_503_def by (intro quiet_intros)

lemma quiet_post_signals [quiet_intros]: "quiet own (post_signals now body)"
  unfolding post_signals_def submit_signal_def by (auto intro!: quiet_intros split: sum.split)

lemma quiet_ignore [quiet_intros]: "quiet own m \<Longrightarrow> quiet own (ignore m)"
  unfolding ignore_def by (intro quiet_intros)

lemma quiet_api [quiet_intros]:
  "quiet own (api_get_signal sid)" "quiet own (api_account svc)" "quiet own (api_positions svc)"
  "quiet own (api_orders svc)" "quiet own (api_status svc b)"
  unfolding api_get_signal_def service_get_def api_account_def api_positions_def api_orders_def api_status_def
  by (intro quiet_intros)+

lemma quiet_request_handler: "request_handler svc h \<Longrightarrow> quiet (\<lambda>_. False) h"
  by (induction rule: request_handler.induct) (intro quiet_intros)+

subsection \<open>The pipeline sends at most once\<close>

definition send_monitor :: "string \<Rightarrow> bool \<Rightarrow> 's world \<Rightarrow> 's world \<Rightarrow> bool \<Rightarrow> bool" where
  "send_monitor sid may w w' may' \<longleftrightarrow> db_effect (\<lambda>s. s = sid) (w_db w) (w_db w')
     \<and> ((\<exists>es. w_log w' = w_log w @ es \<and> order_sends es = []) \<and> may' = may
        \<or> may \<and> \<not> may' \<and> (\<exists>rq res. rq_comment rq = meb_comment sid
                             \<and> w_log w' = w_log w @ [E_order_send rq res]))"

lemma conforms_guarantees:
  assumes "guarantees G p" and "\<And>w w'. G w w' \<Longrightarrow> R s w w' s"
  shows "conforms R p (\<lambda>_ s'. s' = s) s"
  using assms(1)
proof (induction p)
  case (Atomic f)
  then have g: "G w (snd (f w))" "guarantees G (fst (f w))" for w by (simp_all add: guarantees_simps)
  have "R s w (snd (f w)) s \<and> conforms R (fst (f w)) (\<lambda>_ s'. s' = s) s" for w
    using assms(2) [OF g(1)] Atomic.IH [OF g(2)] by blast
  then show ?case unfolding conforms_Atomic by blast
qed auto

lemma conforms_quiet:
  "quiet (\<lambda>s. s = sid) p \<Longrightarrow> conforms (send_monitor sid) p (\<lambda>_ s. s = may) may"
  unfolding effects_def by (erule conforms_guarantees) (simp add: send_monitor_def effect_step_def)

abbreviation sends_once :: "string \<Rightarrow> ('s world, 'a) prog \<Rightarrow> bool" where
  "sends_once sid p \<equiv> conforms (send_monitor sid) p (\<lambda>_ _. True) True"

lemma sends_once_quiet: "quiet (\<lambda>s. s = sid) p \<Longrightarrow> sends_once sid p"
  by (rule conforms_mono [OF conforms_quiet [where may = True]]) simp_all

lemma sends_once_bindP:
  assumes "quiet (\<lambda>s. s = sid) m" and "\<And>a. sends_once sid (k a)"
  shows "sends_once sid (bindP m k)"
  by (rule conforms_bindI [OF conforms_quiet [OF assms(1)]]) (use assms(2) in auto)

lemma sends_once_bindR:
  assumes "quiet (\<lambda>s. s = sid) m" and "\<And>a. sends_once sid (k a)"
  shows "sends_once sid (bindR m k)"
  unfolding bindR_def
  by (rule sends_once_bindP [OF assms(1)]) (auto simp: assms(2) split: sum.split)

lemma sends_once_then_quiet:
  assumes "sends_once sid m" and "\<And>a. quiet (\<lambda>s. s = sid) (k a)"
  shows "sends_once sid (bindP m k)"
  by (rule conforms_bindI [OF assms(1)])
    (auto intro: conforms_mono [OF conforms_quiet [OF assms(2)]])

lemma sends_once_prod: "(\<And>x y. sends_once sid (k x y)) \<Longrightarrow> sends_once sid (case v of (x, y) \<Rightarrow> k x y)"
  by (cases v) simp

lemma sends_once_order_send:
  assumes "rq_comment rq = meb_comment sid"
  shows "sends_once sid (gw_order_send m rq)"
proof (cases m)
  case None
  then show ?thesis by (simp add: gw_order_send_def)
next
  case (Some k)
  then show ?thesis
    using assms
    by (auto simp: gw_order_send_def sdk_call_def conforms_atomically send_monitor_def case_prod_beta Let_def)
qed

lemma sends_once_send_order:
  assumes "rq_comment rq = meb_comment sid"
  shows "sends_once sid (send_order svc sid eid rq)"
  unfolding send_order_def Let_def
  by (rule sends_once_then_quiet [OF sends_once_order_send [OF assms]]) (intro quiet_intros; simp)

lemma build_order_request_comment [simp]:
  "rq_comment (build_order_request svc symb act v pr sl tp si sid) = meb_comment sid"
  by (simp add: build_order_request_def)

lemma sends_once_end_of: "sends_once sid m \<Longrightarrow> sends_once sid (end_of m)"
  unfolding end_of_def by (rule sends_once_then_quiet) (simp_all add: quiet.touch_Ret)

lemma sends_once_go_on: "sends_once sid m \<Longrightarrow> sends_once sid (go_on m)"
  unfolding go_on_def by (rule sends_once_then_quiet) (simp_all add: quiet.touch_Ret)

lemmas sends_once_intros = sends_once_end_of sends_once_bindR sends_once_prod sends_once_go_on

lemmas quiet_stages = quiet_open_execution quiet_screen_signal quiet_map_symbol quiet_connect_account
  quiet_market_data quiet_quote_checks quiet_count_checks quiet_loss_checks quiet_size_order quiet_check_order

theorem sends_once_process_signal: "sends_once (sg_signal_id row) (process_signal svc row)"
  unfolding process_signal_def Let_def
  apply (rule sends_once_bindP [OF quiet_open_execution])
  apply (intro sends_once_intros quiet_stages)
  apply (rule sends_once_bindP [OF quiet.touch_liftE])
  apply (intro sends_once_bindR quiet_check_order)
  apply (auto intro!: sends_once_quiet sends_once_go_on sends_once_send_order quiet_intros)
  done

lemma quiet_end_of [quiet_intros]: "quiet own m \<Longrightarrow> quiet own (end_of m)"
  unfolding end_of_def by (intro quiet_intros)

text \<open>Without both live flags the pipeline sends nothing at all.\<close>

theorem quiet_process_signal_dry:
  assumes "\<not> live_execution_allowed (es_settings svc)"
  shows "quiet (\<lambda>s. s = sg_signal_id row) (process_signal svc row)"
  using assms unfolding process_signal_def Let_def
  by (intro quiet.touch_bindP quiet.touch_bindR quiet_end_of quiet_stages quiet.touch_prod quiet.touch_liftE)
    (auto intro!: quiet_intros)

end
