(* ===== verification/System.thy ===== *)
theory System
  imports Footprint "HOL-Library.Multiset"
begin

section \<open>Invariants of the whole process\<close>

text \<open>
  What holds in every reachable state of the process, over all interleavings of requests,
  worker threads, crashes, restarts and changes outside: the database is well-formed, a signal
  is attempted at most once, and the orders sent are covered, tag by tag, by signals that have
  been claimed.
\<close>

subsection \<open>The accounting of orders\<close>

definition sent_tags :: "sdk_event list \<Rightarrow> string multiset" where
  "sent_tags es = mset (map rq_comment (order_sends es))"

text \<open>The signals that have left \<open>PENDING\<close>.\<close>

definition claimed_ids :: "db \<Rightarrow> string set" where
  "claimed_ids d = {sid. \<exists>r. get_signal sid d = Some r \<and> sg_status r \<noteq> PENDING}"

definition claimed_tags :: "db \<Rightarrow> string multiset" where
  "claimed_tags d = image_mset meb_comment (mset_set (claimed_ids d))"

text \<open>The tags the running threads may still send, one bit for each thread.\<close>

definition open_tags :: "(string \<times> 'p) list \<Rightarrow> bool list \<Rightarrow> string multiset" where
  "open_tags threads mays = mset (map (\<lambda>(t, m). meb_comment (fst t)) (filter snd (zip threads mays)))"

definition follows :: "string \<times> ('s world, execution_status) prog \<Rightarrow> bool \<Rightarrow> bool" where
  "follows t may \<longleftrightarrow> conforms (send_monitor (fst t)) (snd t) (\<lambda>_ _. True) may"

definition attempts_ok :: "db \<Rightarrow> bool" where
  "attempts_ok d \<longleftrightarrow> (\<forall>sid r. get_signal sid d = Some r \<longrightarrow>
     0 \<le> sg_attempt_count r \<and> sg_attempt_count r \<le> 1 \<and> (sg_status r = PENDING \<longrightarrow> sg_attempt_count r = 0))"

definition process_inv :: "'s process \<Rightarrow> bool" where
  "process_inv p \<longleftrightarrow> db_ok (w_db (sy_world p)) \<and> attempts_ok (w_db (sy_world p))
     \<and> (\<forall>h. sy_handler p = Some h \<longrightarrow> quiet (\<lambda>_. True) h)
     \<and> (\<exists>mays. list_all2 follows (sy_threads p) mays
          \<and> sent_tags (w_log (sy_world p)) + open_tags (sy_threads p) mays
              \<subseteq># claimed_tags (w_db (sy_world p)))"

lemma sent_tags_append [simp]:
  "sent_tags (es @ fs) = sent_tags es + mset (map rq_comment (order_sends fs))"
  by (simp add: sent_tags_def)

lemma finite_claimed_ids [simp]: "finite (claimed_ids d)"
proof (rule finite_subset)
  show "claimed_ids d \<subseteq> sg_signal_id ` set (db_signals d)"
    using get_signal_Some by (fastforce simp: claimed_ids_def)
qed simp

lemma evolves_claimed: "evolves own d d' \<Longrightarrow> claimed_ids d \<subseteq> claimed_ids d'"
  using evolves_Some by (fastforce simp: claimed_ids_def row_evolves_def)

lemma evolves_claimed_tags: "evolves own d d' \<Longrightarrow> claimed_tags d \<subseteq># claimed_tags d'"
  unfolding claimed_tags_def
  by (intro image_mset_subseteq_mono subset_imp_msubset_mset_set evolves_claimed) simp_all

lemma evolves_attempts:
  assumes "evolves own d d'" and "attempts_ok d"
  shows "attempts_ok d'"
  unfolding attempts_ok_def
proof (intro allI impI)
  fix sid r' assume r': "get_signal sid d' = Some r'"
  show "0 \<le> sg_attempt_count r' \<and> sg_attempt_count r' \<le> 1 \<and> (sg_status r' = PENDING \<longrightarrow> sg_attempt_count r' = 0)"
  proof (cases "get_signal sid d")
    case None
    then show ?thesis using evolves_None [OF assms(1) None r'] by simp
  next
    case (Some r)
    with evolves_Some [OF assms(1) Some] r' assms(2) show ?thesis
      by (fastforce simp: attempts_ok_def row_evolves_def)
  qed
qed

lemma open_tags_simps [simp]:
  "open_tags [] [] = {#}"
  "open_tags (t # ts) (m # ms) = (if m then {#meb_comment (fst t)#} else {#}) + open_tags ts ms"
  by (simp_all add: open_tags_def case_prod_beta)

lemma open_tags_append [simp]:
  "length ts = length ms \<Longrightarrow> open_tags (ts @ us) (ms @ ns) = open_tags ts ms + open_tags us ns"
  by (simp add: open_tags_def)

subsection \<open>Each kind of step keeps the invariant\<close>

lemma quiet_Atomic: "quiet own (Atomic f) \<longleftrightarrow> (\<forall>w. quiet_step own w (snd (f w)) \<and> quiet own (fst (f w)))"
  by (simp add: effects_def guarantees_simps)

lemma process_inv_evolves:
  assumes "process_inv p" and "evolves own (w_db (sy_world p)) (w_db w)"
    and "order_sends (w_log w) = order_sends (w_log (sy_world p))"
    and "sy_world q = w" and "sy_threads q = sy_threads p \<or> sy_threads q = []"
    and "\<And>h. sy_handler q = Some h \<Longrightarrow> quiet (\<lambda>_. True) h"
  shows "process_inv q"
proof -
  from assms(1) obtain mays where m: "list_all2 follows (sy_threads p) mays"
    and le: "sent_tags (w_log (sy_world p)) + open_tags (sy_threads p) mays \<subseteq># claimed_tags (w_db (sy_world p))"
    by (auto simp: process_inv_def)
  have "claimed_tags (w_db (sy_world p)) \<subseteq># claimed_tags (w_db w)" by (rule evolves_claimed_tags [OF assms(2)])
  with le assms(3) have le': "sent_tags (w_log w) + open_tags (sy_threads p) mays \<subseteq># claimed_tags (w_db w)"
    by (simp add: sent_tags_def)
  then have "sent_tags (w_log w) \<subseteq># claimed_tags (w_db w)"
    by (meson mset_subset_eq_add_left subset_mset.order_trans)
  with m le' have "\<exists>mays. list_all2 follows (sy_threads q) mays
      \<and> sent_tags (w_log w) + open_tags (sy_threads q) mays \<subseteq># claimed_tags (w_db w)"
    using assms(5) by fastforce
  with assms show ?thesis
    by (auto simp: process_inv_def evolves_db_ok evolves_attempts)
qed

lemma process_inv_threads_end:
  assumes "process_inv p" and "sy_threads p = ts @ t # us"
    and "sy_world q = sy_world p" and "sy_handler q = sy_handler p" and "sy_threads q = ts @ us"
  shows "process_inv q"
proof -
  from assms(1,2) obtain ms m ns where "list_all2 follows ts ms" "follows t m" "list_all2 follows us ns"
    and le: "sent_tags (w_log (sy_world p)) + open_tags (ts @ t # us) (ms @ m # ns)
               \<subseteq># claimed_tags (w_db (sy_world p))"
    by (auto simp: process_inv_def list_all2_append1 list_all2_Cons1)
  then have f: "list_all2 follows (ts @ us) (ms @ ns)" and l: "length ts = length ms"
    by (auto intro: list_all2_appendI dest: list_all2_lengthD)
  have "sent_tags (w_log (sy_world p)) + open_tags (ts @ us) (ms @ ns)
      \<subseteq># sent_tags (w_log (sy_world p)) + open_tags (ts @ t # us) (ms @ m # ns)"
    by (simp add: l)
  then have "sent_tags (w_log (sy_world p)) + open_tags (ts @ us) (ms @ ns) \<subseteq># claimed_tags (w_db (sy_world p))"
    using le by (rule subset_mset.order_trans)
  with f assms show ?thesis by (auto simp: process_inv_def)
qed

lemma process_inv_thread_step:
  assumes inv: "process_inv p" and th: "sy_threads p = ts @ (sid, Atomic f) # us"
    and f: "f (sy_world p) = (q, w)"
  shows "process_inv (p\<lparr>sy_world := w, sy_threads := ts @ (sid, q) # us\<rparr>)"
proof -
  from inv th obtain ms m ns where ms: "list_all2 follows ts ms" "list_all2 follows us ns"
    and m: "follows (sid, Atomic f) m"
    and le: "sent_tags (w_log (sy_world p)) + open_tags (ts @ (sid, Atomic f) # us) (ms @ m # ns)
               \<subseteq># claimed_tags (w_db (sy_world p))"
    by (auto simp: process_inv_def list_all2_append1 list_all2_Cons1)
  have l: "length ts = length ms" using ms(1) by (rule list_all2_lengthD)
  from m f obtain m' where mon: "send_monitor sid m (sy_world p) w m'" and m': "follows (sid, q) m'"
    unfolding follows_def fst_conv snd_conv conforms_Atomic by (metis fst_conv snd_conv)
  from mon have ev: "evolves (\<lambda>s. s = sid) (w_db (sy_world p)) (w_db w)" by (simp add: send_monitor_def db_effect_def)
  from mon have "sent_tags (w_log w) + open_tags (ts @ (sid, q) # us) (ms @ m' # ns)
      = sent_tags (w_log (sy_world p)) + open_tags (ts @ (sid, Atomic f) # us) (ms @ m # ns)"
    by (auto simp: send_monitor_def l)
  also have "\<dots> \<subseteq># claimed_tags (w_db w)"
    using le evolves_claimed_tags [OF ev] by (rule subset_mset.order_trans)
  finally have le': "sent_tags (w_log w) + open_tags (ts @ (sid, q) # us) (ms @ m' # ns) \<subseteq># claimed_tags (w_db w)" .
  have "list_all2 follows (ts @ (sid, q) # us) (ms @ m' # ns)"
    using ms m' by (auto intro!: list_all2_appendI)
  with le' inv ev show ?thesis
    by (auto simp: process_inv_def evolves_db_ok evolves_attempts simp del: open_tags_append)
qed

lemma process_inv_idle:
  assumes "process_inv p" and "claim now (sy_world p) = (None, w)"
  shows "w = sy_world p"
proof (cases "next_pending (w_db (sy_world p))")
  case None
  with assms(2) show ?thesis by (simp add: claim_def)
next
  case (Some row)
  obtain t s where n: "now (w_ext (sy_world p)) = (t, s)" by (cases "now (w_ext (sy_world p))")
  from assms(1) have ok: "db_ok (w_db (sy_world p))" by (simp add: process_inv_def)
  from claim_next_pending_Some [OF ok Some, of "isoformat (utc_of_us t)"] assms(2) Some n show ?thesis
    by (auto simp: claim_def)
qed

text \<open>What a successful claim gives: the oldest pending signal, now claimed and attempted once more.\<close>

lemma claim_Some:
  assumes ok: "db_ok (w_db w)" and c: "claim now w = (Some row', w')"
  obtains row t where "next_pending (w_db w) = Some row" and "row' = claim_row t row"
    and "get_signal (sg_signal_id row) (w_db w) = Some row" and "sg_status row = PENDING"
    and "db_ok (w_db w')" and "w_log w' = w_log w" and "w_connected w' = w_connected w"
    and "\<And>sid. get_signal sid (w_db w') =
           (if sid = sg_signal_id row then Some (claim_row t row) else get_signal sid (w_db w))"
proof -
  obtain row where row: "next_pending (w_db w) = Some row"
    using c by (cases "next_pending (w_db w)") (auto simp: claim_def)
  obtain t s where n: "now (w_ext w) = (t, s)" by (cases "now (w_ext w)")
  let ?t = "isoformat (utc_of_us t)"
  from claim_next_pending_Some [OF ok row, of ?t] obtain d' where
    d': "claim_next_pending ?t (w_db w) = (Some (claim_row ?t row), d')" "db_ok d'"
      "get_signal (sg_signal_id row) (w_db w) = Some row"
      "\<forall>sid. get_signal sid d' =
            (if sid = sg_signal_id row then Some (claim_row ?t row) else get_signal sid (w_db w))"
    by blast
  with c row n have "row' = claim_row ?t row" "w' = w\<lparr>w_ext := s, w_db := d'\<rparr>"
    by (auto simp: claim_def)
  with that [OF row] d' next_pending_Some(2) [OF row] show thesis by simp
qed

lemma process_inv_claimed:
  assumes inv: "process_inv p" and c: "claim now (sy_world p) = (Some row', w)"
  shows "process_inv (p\<lparr>sy_world := w,
           sy_threads := (sg_signal_id row', process_signal svc row') # sy_threads p\<rparr>)"
proof -
  let ?d = "w_db (sy_world p)"
  have ok: "db_ok ?d" and att: "attempts_ok ?d" using inv by (simp_all add: process_inv_def)
  obtain row t where r: "row' = claim_row t row" "get_signal (sg_signal_id row) ?d = Some row"
      "sg_status row = PENDING" "db_ok (w_db w)" "w_log w = w_log (sy_world p)"
    and g: "\<And>sid. get_signal sid (w_db w) =
              (if sid = sg_signal_id row then Some (claim_row t row) else get_signal sid ?d)"
    using claim_Some [OF ok c] by metis
  have att': "attempts_ok (w_db w)" using att r g by (fastforce simp: attempts_ok_def)
  have fresh: "sg_signal_id row \<notin> claimed_ids ?d" using r by (auto simp: claimed_ids_def)
  have "claimed_ids (w_db w) = insert (sg_signal_id row) (claimed_ids ?d)"
    by (auto simp: claimed_ids_def g)
  with fresh have tags: "claimed_tags (w_db w) = add_mset (meb_comment (sg_signal_id row)) (claimed_tags ?d)"
    by (simp add: claimed_tags_def)
  from inv obtain mays where m: "list_all2 follows (sy_threads p) mays"
    and le: "sent_tags (w_log (sy_world p)) + open_tags (sy_threads p) mays \<subseteq># claimed_tags ?d"
    by (auto simp: process_inv_def)
  have "list_all2 follows ((sg_signal_id row', process_signal svc row') # sy_threads p) (True # mays)"
    using m sends_once_process_signal [of row' svc] by (simp add: follows_def)
  moreover have "sent_tags (w_log w)
      + open_tags ((sg_signal_id row', process_signal svc row') # sy_threads p) (True # mays)
      \<subseteq># claimed_tags (w_db w)"
    using le by (simp add: tags r)
  ultimately show ?thesis using inv r att' by (auto simp: process_inv_def)
qed

lemma quiet_recover_on_startup: "quiet (\<lambda>_. True) (recover_on_startup svc)"
  unfolding recover_on_startup_def
  by (intro quiet_intros quiet_mono [OF quiet_recover_rows]) simp

lemma process_inv_step:
  assumes "step svc p q" and "process_inv p"
  shows "process_inv q"
  using assms
proof (induction rule: step.induct)
  case (start p)
  then show ?case
    by (intro process_inv_evolves [OF start.prems, of "\<lambda>_. True" "reset_gateway (sy_world p)"])
      (auto simp: reset_gateway_def quiet_recover_on_startup)
next
  case (handler_step p f q w)
  then have "quiet (\<lambda>_. True) (Atomic f)" by (simp add: process_inv_def)
  then have "quiet_step (\<lambda>_. True) (sy_world p) w" "quiet (\<lambda>_. True) q"
    using handler_step.hyps by (auto simp: quiet_Atomic dest: spec [of _ "sy_world p"])
  then show ?case
    by (intro process_inv_evolves [OF handler_step.prems, of "\<lambda>_. True" w]) (auto simp: effect_step_def db_effect_def)
next
  case (handler_return p)
  then show ?case by (simp add: process_inv_def)
next
  case (handler_raise p e)
  then show ?case by (simp add: process_inv_def)
next
  case (request p h)
  then show ?case
    using quiet_mono [OF quiet_request_handler] by (auto simp: process_inv_def)
next
  case (idle p w)
  then show ?case using process_inv_idle by force
next
  case (claimed p row w)
  then show ?case by (intro process_inv_claimed)
next
  case (thread_step p ts sid f us q w)
  then show ?case by (intro process_inv_thread_step)
next
  case (thread_return p ts sid st us)
  then show ?case by (intro process_inv_threads_end [OF thread_return.prems]) auto
next
  case (thread_raise p ts sid e us)
  then show ?case by (intro process_inv_threads_end [OF thread_raise.prems]) auto
next
  case (stop p)
  then show ?case by (auto simp: process_inv_def intro: quiet_intros)
next
  case (crash p)
  then show ?case
    by (intro process_inv_evolves [OF crash, of "\<lambda>_. True" "sy_world p"]) auto
next
  case (outside p s)
  then show ?case
    by (intro process_inv_evolves [OF outside, of "\<lambda>_. True" "(sy_world p)\<lparr>w_ext := s\<rparr>"])
      (auto simp: process_inv_def)
qed

theorem reachable_inv: "reachable svc p \<Longrightarrow> process_inv p"
proof (induction rule: reachable.induct)
  case (init s)
  have "get_signal sid empty_db = None" for sid
    by (simp add: get_signal_def select_one_def empty_db_def)
  then show ?case
    by (simp add: process_inv_def initial_def attempts_ok_def sent_tags_def)
next
  case (step p q)
  show ?case by (rule process_inv_step [OF step.hyps(2) step.IH])
qed

subsection \<open>Runs without interference are reachable\<close>

definition ended :: "'s process \<Rightarrow> 'a result \<Rightarrow> 's world \<Rightarrow> 's process" where
  "ended p r w = \<lparr>sy_world = w,
     sy_phase = (if sy_phase p = Starting then (case r of Inl _ \<Rightarrow> Down | Inr _ \<Rightarrow> Running) else sy_phase p),
     sy_handler = None, sy_threads = sy_threads p\<rparr>"

lemma reach_handler:
  assumes "reachable svc p" and "sy_handler p = Some h" and "run h (sy_world p) = (r, w)"
  shows "reachable svc (ended p r w)"
  using assms
proof (induction h arbitrary: p)
  case (Ret a)
  then have "step svc p (p\<lparr>sy_handler := None, sy_phase := (if sy_phase p = Starting then Running else sy_phase p)\<rparr>)"
    by (intro step.handler_return) simp
  with Ret show ?case by (cases p) (auto simp: ended_def intro: reachable.step)
next
  case (Throw e)
  then have "step svc p (p\<lparr>sy_handler := None, sy_phase := (if sy_phase p = Starting then Down else sy_phase p)\<rparr>)"
    by (intro step.handler_raise)
  with Throw show ?case by (cases p) (auto simp: ended_def intro: reachable.step)
next
  case (Atomic f)
  let ?p = "p\<lparr>sy_world := snd (f (sy_world p)), sy_handler := Some (fst (f (sy_world p)))\<rparr>"
  have "step svc p ?p" by (rule step.handler_step [OF Atomic.prems(2)]) simp
  then have "reachable svc ?p" using Atomic.prems(1) by (blast intro: reachable.step)
  from Atomic.IH [OF this, of "sy_world p"] Atomic.prems(3) show ?case
    by (simp add: run_Atomic ended_def cong: if_cong)
qed

lemma reachable_steps: "rtranclp (step svc) p q \<Longrightarrow> reachable svc p \<Longrightarrow> reachable svc q"
  by (induction rule: rtranclp_induct) (auto intro: reachable.step)

lemma steps_thread:
  assumes "sy_threads p = ts @ (sid, h) # us" and "run h (sy_world p) = (r, w)"
  shows "rtranclp (step svc) p (p\<lparr>sy_world := w, sy_threads := ts @ us\<rparr>)"
  using assms
proof (induction h arbitrary: p)
  case (Ret a)
  then have "step svc p (p\<lparr>sy_threads := ts @ us\<rparr>)" by (intro step.thread_return)
  with Ret show ?case by auto
next
  case (Throw e)
  then have "step svc p (p\<lparr>sy_threads := ts @ us\<rparr>)" by (intro step.thread_raise)
  with Throw show ?case by auto
next
  case (Atomic f)
  let ?p = "p\<lparr>sy_world := snd (f (sy_world p)), sy_threads := ts @ (sid, fst (f (sy_world p))) # us\<rparr>"
  have "step svc p ?p" by (rule step.thread_step [OF Atomic.prems(1)]) simp
  moreover have "rtranclp (step svc) ?p (?p\<lparr>sy_world := w, sy_threads := ts @ us\<rparr>)"
    using Atomic.IH [where p = ?p] Atomic.prems(2) by (simp add: run_Atomic)
  ultimately show ?case by (simp add: converse_rtranclp_into_rtranclp)
qed

lemma reach_thread:
  assumes "reachable svc p" and "sy_threads p = ts @ (sid, h) # us" and "run h (sy_world p) = (r, w)"
  shows "reachable svc (p\<lparr>sy_world := w, sy_threads := ts @ us\<rparr>)"
  by (rule reachable_steps [OF steps_thread [OF assms(2,3)] assms(1)])

subsection \<open>What the invariant says of the orders\<close>

lemma reachable_tags:
  "reachable svc p \<Longrightarrow> sent_tags (w_log (sy_world p)) \<subseteq># claimed_tags (w_db (sy_world p))"
  using reachable_inv by (meson mset_subset_eq_add_left process_inv_def subset_mset.order_trans)

lemma count_claimed_tags: "count (claimed_tags d) c = card {sid \<in> claimed_ids d. meb_comment sid = c}"
proof -
  have s: "meb_comment -` {c} \<inter> claimed_ids d = {sid \<in> claimed_ids d. meb_comment sid = c}" by auto
  have "count (claimed_tags d) c = (\<Sum>sid \<in> {sid \<in> claimed_ids d. meb_comment sid = c}. count (mset_set (claimed_ids d)) sid)"
    by (simp add: claimed_tags_def count_image_mset s)
  also have "\<dots> = (\<Sum>sid \<in> {sid \<in> claimed_ids d. meb_comment sid = c}. 1)"
    by (rule sum.cong) (auto simp: count_mset_set)
  finally show ?thesis by simp
qed

end
