(* ===== verification/Running.thy ===== *)
theory Running
  imports ExecutionWorker
begin

section \<open>Running a method alone\<close>

text \<open>
  Rewrite rules that evaluate \<open>run\<close> one step at a time: the primitive steps, and each method
  unfolded only where it is run.
\<close>

lemma run_sdk_call: "run (sdk_call ev f) w = (let (r, s) = f (w_ext w)
     in (r, w\<lparr>w_ext := s, w_log := w_log w @ [ev r]\<rparr>))"
  by (simp add: sdk_call_def run_atomically)

lemma run_set_connected: "run (set_connected b) w = (Inr (), w\<lparr>w_connected := b\<rparr>)"
  by (simp add: set_connected_def run_modify)

lemma run_utcnow: "run (utcnow now) w = (let (t, s) = now (w_ext w) in (Inr (utc_of_us t), w\<lparr>w_ext := s\<rparr>))"
  by (simp add: utcnow_def run_atomically)

lemma run_db_step: "run (db_step f) w = (let (r, d) = f (w_db w) in (r, w\<lparr>w_db := d\<rparr>))"
  by (simp add: db_step_def run_atomically)

lemma run_db_step_now: "run (db_step_now now f) w = (let (t, s) = now (w_ext w);
       (r, d) = f (isoformat (utc_of_us t)) (w_db w)
     in (r, w\<lparr>w_ext := s, w_db := d\<rparr>))"
  by (simp add: db_step_now_def run_atomically)

lemma run_db_write: "run (db_write f) w = (Inr (), w\<lparr>w_db := f (w_db w)\<rparr>)"
  by (simp add: db_write_def run_db_step)

lemma run_db_write_now: "run (db_write_now now f) w = (let (t, s) = now (w_ext w)
     in (Inr (), w\<lparr>w_ext := s, w_db := f (isoformat (utc_of_us t)) (w_db w)\<rparr>))"
  by (simp add: db_write_now_def run_db_step_now split: prod.split)

lemma run_db_read: "run (db_read f) w = (Inr (f (w_db w)), w)"
  by (simp add: db_read_def run_gets)

lemmas run_steps = run_sdk_call run_set_connected run_utcnow run_db_step run_db_step_now run_db_write
  run_db_write_now run_db_read run_bindP run_catchP run_liftE run_gets run_modify

lemmas run_programs =
  arg_cong [OF gw_last_error_def, where f = "\<lambda>p. run p w" for w, unfolded Let_def]
  arg_cong [OF gw_account_info_def, where f = "\<lambda>p. run p w" for w, unfolded Let_def]
  arg_cong [OF gw_connected_def, where f = "\<lambda>p. run p w" for w, unfolded Let_def]
  arg_cong [OF gw_initialize_def, where f = "\<lambda>p. run p w" for w, unfolded Let_def]
  arg_cong [OF gw_shutdown_def, where f = "\<lambda>p. run p w" for w, unfolded Let_def]
  arg_cong [OF gw_symbol_info_def, where f = "\<lambda>p. run p w" for w, unfolded Let_def]
  arg_cong [OF gw_ensure_symbol_def, where f = "\<lambda>p. run p w" for w, unfolded Let_def]
  arg_cong [OF gw_symbol_info_tick_def, where f = "\<lambda>p. run p w" for w, unfolded Let_def]
  arg_cong [OF gw_server_time_def, where f = "\<lambda>p. run p w" for w, unfolded Let_def]
  arg_cong [OF gw_positions_get_def, where f = "\<lambda>p. run p w" for w, unfolded Let_def]
  arg_cong [OF gw_orders_get_def, where f = "\<lambda>p. run p w" for w, unfolded Let_def]
  arg_cong [OF gw_history_deals_get_def, where f = "\<lambda>p. run p w" for w, unfolded Let_def]
  arg_cong [OF gw_order_calc_profit_def, where f = "\<lambda>p. run p w" for w, unfolded Let_def]
  arg_cong [OF gw_order_check_def, where f = "\<lambda>p. run p w" for w, unfolded Let_def]
  arg_cong [OF gw_order_send_def, where f = "\<lambda>p. run p w" for w, unfolded Let_def]
  arg_cong [OF calculate_risk_based_volume_def, where f = "\<lambda>p. run p w" for w, unfolded Let_def]
  arg_cong [OF ensure_connected_def, where f = "\<lambda>p. run p w" for w, unfolded Let_def]
  arg_cong [OF bindR_def, where f = "\<lambda>p. run p w" for w, unfolded Let_def]
  arg_cong [OF return_early_def, where f = "\<lambda>p. run p w" for w, unfolded Let_def]
  arg_cong [OF go_on_def, where f = "\<lambda>p. run p w" for w, unfolded Let_def]
  arg_cong [OF finish_def, where f = "\<lambda>p. run p w" for w, unfolded Let_def]
  arg_cong [OF require_ok_def, where f = "\<lambda>p. run p w" for w, unfolded Let_def]
  arg_cong [OF open_execution_def, where f = "\<lambda>p. run p w" for w, unfolded Let_def]
  arg_cong [OF screen_signal_def, where f = "\<lambda>p. run p w" for w, unfolded Let_def]
  arg_cong [OF map_symbol_def, where f = "\<lambda>p. run p w" for w, unfolded Let_def]
  arg_cong [OF connect_account_def, where f = "\<lambda>p. run p w" for w, unfolded Let_def]
  arg_cong [OF market_data_def, where f = "\<lambda>p. run p w" for w, unfolded Let_def]
  arg_cong [OF quote_checks_def, where f = "\<lambda>p. run p w" for w, unfolded Let_def]
  arg_cong [OF count_checks_def, where f = "\<lambda>p. run p w" for w, unfolded Let_def]
  arg_cong [OF loss_checks_def, where f = "\<lambda>p. run p w" for w, unfolded Let_def]
  arg_cong [OF size_order_def, where f = "\<lambda>p. run p w" for w, unfolded Let_def]
  arg_cong [OF check_order_def, where f = "\<lambda>p. run p w" for w, unfolded Let_def]
  arg_cong [OF send_order_def, where f = "\<lambda>p. run p w" for w, unfolded Let_def]
  arg_cong [OF end_of_def, where f = "\<lambda>p. run p w" for w, unfolded Let_def]
  arg_cong [OF process_signal_def, where f = "\<lambda>p. run p w" for w, unfolded Let_def]
  arg_cong [OF find_deal_by_comment_def, where f = "\<lambda>p. run p w" for w, unfolded Let_def]
  arg_cong [OF reconcile_stuck_signal_def, where f = "\<lambda>p. run p w" for w, unfolded Let_def]
  arg_cong [OF account_snapshot_def, where f = "\<lambda>p. run p w" for w, unfolded Let_def]
  arg_cong [OF positions_snapshot_def, where f = "\<lambda>p. run p w" for w, unfolded Let_def]
  arg_cong [OF orders_snapshot_def, where f = "\<lambda>p. run p w" for w, unfolded Let_def]
  arg_cong [OF submit_def, where f = "\<lambda>p. run p w" for w, unfolded Let_def]
  arg_cong [OF service_get_def, where f = "\<lambda>p. run p w" for w, unfolded Let_def]
  arg_cong [OF submit_signal_def, where f = "\<lambda>p. run p w" for w, unfolded Let_def]
  arg_cong [OF api_get_signal_def, where f = "\<lambda>p. run p w" for w, unfolded Let_def]
  arg_cong [OF post_signals_def, where f = "\<lambda>p. run p w" for w, unfolded Let_def]
  arg_cong [OF or_503_def, where f = "\<lambda>p. run p w" for w, unfolded Let_def]
  arg_cong [OF api_account_def, where f = "\<lambda>p. run p w" for w, unfolded Let_def]
  arg_cong [OF api_positions_def, where f = "\<lambda>p. run p w" for w, unfolded Let_def]
  arg_cong [OF api_orders_def, where f = "\<lambda>p. run p w" for w, unfolded Let_def]
  arg_cong [OF api_status_def, where f = "\<lambda>p. run p w" for w, unfolded Let_def]
  arg_cong [OF recover_on_startup_def, where f = "\<lambda>p. run p w" for w, unfolded Let_def]
  arg_cong [OF ignore_def, where f = "\<lambda>p. run p w" for w, unfolded Let_def]

end
