(* ===== verification/Scenario.thy ===== *)
theory Scenario
  imports System Running
begin

section \<open>A concrete broker\<close>

text \<open>
  A terminal that answers every call the same way, a clock that stands still, and settings that
  allow live orders: the inputs at which the properties are evaluated. The pure values of the
  scenario are computed once, by \<open>code_simp\<close>; a run is then a matter of rewriting.
\<close>

definition demo_account :: account_info where
  "demo_account = \<lparr>ai_server = Some ''Demo'', ai_login = Some 7, ai_equity = Fin 10000, ai_attrs = []\<rparr>"

definition demo_symbol :: symbol_info where
  "demo_symbol = \<lparr>si_point = Some (Fin (1/8)), si_volume_min = Some (Fin (1/8)), si_volume_max = Some (Fin 50),
     si_volume_step = Some (Fin (1/8)), si_filling_mode = Some 2, si_visible = Some True\<rparr>"

definition demo_tick :: tick where
  "demo_tick = \<lparr>tk_bid = Fin 100, tk_ask = Fin (801/8), tk_time = TimeInt 1000000\<rparr>"

definition demo_result :: trade_result where
  "demo_result = \<lparr>tr_retcode = Some 10009, tr_comment = Some ''done'', tr_order = Some 11, tr_deal = Some 12,
     tr_volume = Some (Fin 1), tr_price = Some (Fin (801/8))\<rparr>"

text \<open>The answers that differ from one scenario to the next.\<close>

record answers =
  an_connect :: bool
  an_account :: "account_info option"
  an_symbol :: "symbol_info option"
  an_tick :: "tick option"
  an_positions :: "sdk_object list option"
  an_deals :: "sdk_object list option"
  an_profit :: "pyfloat option"
  an_check :: "trade_result option"
  an_send :: "trade_result option"

definition demo_answers :: answers where
  "demo_answers = \<lparr>an_connect = True, an_account = Some demo_account, an_symbol = Some demo_symbol,
     an_tick = Some demo_tick, an_positions = Some [], an_deals = Some [], an_profit = Some (Fin (- 100)),
     an_check = Some demo_result, an_send = Some demo_result\<rparr>"

definition demo_sdk :: "answers \<Rightarrow> unit sdk" where
  "demo_sdk a = \<lparr>mt_initialize = (\<lambda>_ s. (Inr (an_connect a), s)),
     mt_shutdown = (\<lambda>s. (Inr (), s)),
     mt_last_error = (\<lambda>s. (Inr ''(1, Success)'', s)),
     mt_account_info = (\<lambda>s. (Inr (an_account a), s)),
     mt_symbol_info = (\<lambda>_ s. (Inr (an_symbol a), s)),
     mt_symbol_select = (\<lambda>_ _ s. (Inr True, s)),
     mt_symbol_info_tick = (\<lambda>_ s. (Inr (an_tick a), s)),
     mt_positions_get = (\<lambda>s. (Inr (an_positions a), s)),
     mt_orders_get = (\<lambda>s. (Inr None, s)),
     mt_history_deals_get = (\<lambda>_ _ s. (Inr (an_deals a), s)),
     mt_order_calc_profit = (\<lambda>_ _ _ _ _ s. (Inr (an_profit a), s)),
     mt_order_check = (\<lambda>_ s. (Inr (an_check a), s)),
     mt_order_send = (\<lambda>_ s. (Inr (an_send a), s)),
     mt_TRADE_ACTION_DEAL = 1, mt_ORDER_TIME_GTC = 0, mt_ORDER_FILLING_FOK = 0,
     mt_ORDER_FILLING_IOC = 1, mt_ORDER_FILLING_RETURN = 2\<rparr>"

definition demo_clock :: "unit clock" where
  "demo_clock s = (1000010 * 1000000, s)"

definition live_settings :: settings where
  "live_settings = default_settings\<lparr>cfg_dry_run := False, cfg_live_execution_enabled := True,
     cfg_mt5_login := ''7'', cfg_mt5_server := ''Demo'', cfg_max_risk_percent := Fin 1,
     cfg_max_daily_loss_percent := Fin 3\<rparr>"

definition demo_service :: "answers \<Rightarrow> settings \<Rightarrow> unit service" where
  "demo_service a cfg = \<lparr>es_mt5 = Some (demo_sdk a), es_now = demo_clock,
     es_symbol_mapper = [''XAUUSD'' \<mapsto> ''XAUUSDm''], es_settings = cfg\<rparr>"

definition demo_signal :: signal_create where
  "demo_signal = \<lparr>sc_signal_id = ''s1'', sc_timestamp = utc_of_us (1000000 * 1000000), sc_symbol = ''XAUUSD'',
     sc_action = ''buy'', sc_risk_percent = Fin 1, sc_stop_loss = Some (Fin 99), sc_take_profit = None,
     sc_strategy = None, sc_comment = None\<rparr>"

text \<open>The two instants: the clock of the process, and the timestamp of the signal (also the broker's).\<close>

definition demo_now :: datetime where
  "demo_now = utc_of_us 1000010000000"

definition demo_ts :: datetime where
  "demo_ts = utc_of_us 1000000000000"

text \<open>The row of the signal once submitted and claimed.\<close>

definition demo_valid :: signal_create where
  "demo_valid = demo_signal\<lparr>sc_action := ''BUY''\<rparr>"

definition demo_pending :: signal_row where
  "demo_pending = new_signal_row 1 (isoformat demo_now) (signal_dict_of demo_valid)"

definition demo_row :: signal_row where
  "demo_row = claim_row (isoformat demo_now) demo_pending"

definition demo_db :: "signal_row \<Rightarrow> db" where
  "demo_db r = empty_db\<lparr>db_signals := [r], db_signals_seq := 1\<rparr>"

definition demo_world :: "db \<Rightarrow> unit world" where
  "demo_world d = \<lparr>w_ext = (), w_db = d, w_connected = False, w_log = []\<rparr>"

subsection \<open>Pure values\<close>

lemma make_demo_signal: "make_signal demo_signal = Inr demo_valid"
  by code_simp

lemma demo_clock_now: "demo_clock s = (1000010000000, s)" by (simp add: demo_clock_def)

lemma demo_now_fold: "utc_of_us 1000010000000 = demo_now" "utc_of_us 1000000000000 = demo_ts"
  by (simp_all add: demo_now_def demo_ts_def)

lemma demo_fresh: "check_freshness demo_ts 60 demo_now = rc_pass"
  by code_simp

lemma demo_volume: "size_volume (Fin (- 100)) (Fin 10000) (Fin 1) (Fin (1 / 8)) (Fin 50) (Fin (1 / 8))
  = Inr \<lparr>vr_ok = True, vr_volume = Some (Fin 1), vr_reason = None\<rparr>"
  by code_simp

lemma demo_spread: "check_spread (Fin 100) (Fin (801/8)) (Fin (1 / 8)) 30 = Inr rc_pass"
  by code_simp

lemma demo_loss: "check_daily_loss (Fin 10000) (Fin 10000) (Fin 3) = Inr rc_pass"
  by code_simp

lemma demo_ts_text: "fromisoformat (isoformat demo_ts) = Inr demo_ts"
  by code_simp

lemma demo_broker: "tick_datetime (TimeInt 1000000) = Some demo_ts"
  by code_simp

lemma demo_login: "py_int ''7'' = Inr 7"
  by code_simp


lemma demo_key: "account_key_for demo_account = Some ''Demo|7''" "ai_equity demo_account = Fin 10000"
  by code_simp+

lemmas demo_defs = demo_service_def demo_sdk_def demo_answers_def live_settings_def default_settings_def
  demo_symbol_def demo_tick_def demo_result_def

lemma filling: "(2::int) AND 1 = 0" "(2::int) AND 2 = 2" by simp_all

lemmas demo_pure = demo_clock_now demo_now_fold demo_fresh demo_volume demo_spread demo_loss demo_ts_text
  demo_broker demo_login filling demo_key

lemmas db_defs = insert_execution_def get_signal_def select_one_def update_execution_def set_execution_def sqlite_int_def update_where_def
  set_symbol_normalized_def update_signal_status_def count_executed_trades_since_def counts_as_trade_def
  get_daily_loss_baseline_def set_daily_loss_baseline_def sql_real_def

lemmas check_defs = check_stop_loss_def check_daily_trade_limit_def check_position_limit_def check_risk_percent_def
  rc_pass_def rc_fail_def

lemmas service_defs = execution_fields_def resolve_def truthy_str_def truthy_int_def MAX_MT5_CONNECT_ATTEMPTS_def
  numeral_3_eq_3 entry_price_of_def dflt_value_def bridge_positions_def result_retcode_def result_comment_def
  is_check_success_def TRADE_RETCODE_DONE_def TRADE_RETCODE_PLACED_def TRADE_RETCODE_DONE_PARTIAL_def
  live_execution_allowed_def build_order_request_def order_type_of_def ORDER_TYPE_BUY_def ORDER_TYPE_SELL_def
  resolve_filling_mode_def

lemma demo_pending_simps [simp]:
  "sg_signal_id demo_pending = ''s1''" "sg_status demo_pending = PENDING" "sg_id demo_pending = 1"
  by (simp_all add: demo_pending_def new_signal_row_def signal_dict_of_def demo_valid_def demo_signal_def)

lemma demo_row_simps [simp]:
  "sg_signal_id demo_row = ''s1''" "sg_action demo_row = ''BUY''" "sg_stop_loss demo_row = Some (Fin 99)"
  "sg_take_profit demo_row = None" "sg_risk_percent demo_row = Fin 1" "sg_symbol_raw demo_row = ''XAUUSD''"
  "sg_signal_timestamp demo_row = isoformat demo_ts" "sg_attempt_count demo_row = 1" "sg_status demo_row = PROCESSING"
  by (simp_all add: demo_row_def demo_pending_def claim_row_def new_signal_row_def signal_dict_of_def demo_valid_def
      demo_signal_def demo_ts_def sql_real_def)

lemmas demo_eval = run_steps run_programs demo_defs demo_pure db_defs check_defs service_defs
  demo_world_def demo_db_def empty_db_def

text \<open>The order of the live scenario, and the run that sends it as its last call.\<close>

definition demo_request :: order_request where
  "demo_request = \<lparr>rq_action = 1, rq_symbol = ''XAUUSDm'', rq_volume = Fin 1, rq_type = 0,
     rq_price = Fin (801 / 8), rq_deviation = 20, rq_magic = 881100, rq_comment = meb_comment ''s1'',
     rq_type_time = 0, rq_type_filling = 1, rq_sl = Some (Fin 99), rq_tp = None\<rparr>"

definition demo_run :: "unit service \<Rightarrow> execution_status result \<times> unit world" where
  "demo_run svc = run (process_signal svc demo_row) (demo_world (demo_db demo_row))"

abbreviation live_service :: "unit service" where
  "live_service \<equiv> demo_service demo_answers live_settings"

lemma demo_run_live:
  "case demo_run live_service of (r, w) \<Rightarrow> r = Inr EXECUTED \<and> w_log w \<noteq> []
     \<and> last (w_log w) = E_order_send demo_request (Inr (Some demo_result))
     \<and> order_sends (w_log w) = [demo_request]"
  by (simp add: demo_run_def demo_eval demo_request_def)

subsection \<open>The signal is submitted and claimed\<close>

lemma demo_recover: "run (recover_on_startup svc) (demo_world empty_db) = (Inr (), demo_world empty_db)"
  by (simp add: run_programs run_steps demo_world_def find_stuck_processing_def empty_db_def)

lemma demo_valid_id [simp]: "sc_signal_id demo_valid = ''s1''" "sc_risk_percent demo_valid = Fin 1"
  by (simp_all add: demo_valid_def demo_signal_def)

lemma demo_post:
  "run (ignore (post_signals demo_clock demo_signal)) (demo_world empty_db) = (Inr (), demo_world (demo_db demo_pending))"
  by (simp add: run_programs run_steps make_demo_signal demo_clock_now demo_now_fold demo_world_def demo_db_def
      insert_signal_if_new_def get_signal_def select_one_def empty_db_def Let_def demo_pending_def
      new_signal_row_def signal_dict_of_def)

lemma demo_claim: "claim demo_clock (demo_world (demo_db demo_pending)) = (Some demo_row, demo_world (demo_db demo_row))"
  by (simp add: claim_def next_pending_def select_first_by_def demo_world_def demo_db_def demo_clock_now demo_now_fold
      claim_next_pending_def update_where_def get_signal_def select_one_def demo_row_def claim_row_def)

definition demo_queued :: "unit service \<Rightarrow> unit process" where
  "demo_queued svc = \<lparr>sy_world = demo_world (demo_db demo_pending), sy_phase = Running, sy_handler = None,
     sy_threads = []\<rparr>"

definition demo_process :: "unit service \<Rightarrow> unit process" where
  "demo_process svc = \<lparr>sy_world = demo_world (demo_db demo_row), sy_phase = Running, sy_handler = None,
     sy_threads = [(''s1'', process_signal svc demo_row)]\<rparr>"

lemma reachable_demo_queued: "reachable (demo_service a cfg) (demo_queued (demo_service a cfg))"
proof -
  let ?svc = "demo_service a cfg"
  have now: "es_now ?svc = demo_clock" by (simp add: demo_service_def)
  let ?p = "\<lambda>w ph h ts. \<lparr>sy_world = w, sy_phase = ph, sy_handler = h, sy_threads = ts\<rparr>"
  have "reachable ?svc (?p (demo_world empty_db) Down None [])"
    using reachable.init [of ?svc "()"] by (simp add: initial_def demo_world_def)
  then have "reachable ?svc (?p (demo_world empty_db) Starting (Some (recover_on_startup ?svc)) [])"
    by (rule reachable.step) (use step.start [of "?p (demo_world empty_db) Down None []" ?svc] in
      \<open>simp add: reset_gateway_def demo_world_def\<close>)
  from reach_handler [OF this, of "recover_on_startup ?svc" "Inr ()" "demo_world empty_db"]
  have "reachable ?svc (?p (demo_world empty_db) Running None [])"
    by (simp add: ended_def demo_recover)
  then have "reachable ?svc (?p (demo_world empty_db) Running (Some (ignore (post_signals demo_clock demo_signal))) [])"
    by (rule reachable.step) (use step.request [of "?p (demo_world empty_db) Running None []" ?svc]
      request_handler.post [of ?svc demo_signal] now in simp)
  from reach_handler [OF this, of _ "Inr ()" "demo_world (demo_db demo_pending)"]
  show ?thesis by (simp add: ended_def demo_post demo_queued_def)
qed

lemma reachable_demo_process: "reachable (demo_service a cfg) (demo_process (demo_service a cfg))"
  by (rule reachable.step [OF reachable_demo_queued])
    (use step.claimed [of "demo_queued (demo_service a cfg)" "demo_service a cfg"] in
      \<open>simp add: demo_service_def demo_claim demo_process_def demo_queued_def\<close>)

text \<open>The world after the thread has run to its end, and the process with it.\<close>

definition demo_end :: "unit service \<Rightarrow> unit world" where
  "demo_end svc = snd (demo_run svc)"

definition demo_done :: "unit service \<Rightarrow> unit process" where
  "demo_done svc = \<lparr>sy_world = demo_end svc, sy_phase = Running, sy_handler = None, sy_threads = []\<rparr>"

lemma reachable_demo_done: "reachable (demo_service a cfg) (demo_done (demo_service a cfg))"
  using reach_thread [OF reachable_demo_process [of a cfg], of "[]" "''s1''" "process_signal (demo_service a cfg) demo_row" "[]"]
  by (simp add: demo_process_def demo_done_def demo_end_def demo_run_def prod_eq_iff)

lemma demo_executed: "demo_run live_service = (Inr EXECUTED, demo_end live_service)"
  using demo_run_live by (simp add: demo_end_def prod_eq_iff case_prod_beta)

lemma demo_live_sends: "order_sends (w_log (demo_end live_service)) = [demo_request]"
  using demo_run_live by (simp add: demo_end_def case_prod_beta)

lemma demo_live_log:
  "w_log (demo_end live_service) = butlast (w_log (demo_end live_service)) @ E_order_send demo_request (Inr (Some demo_result)) # []"
  using demo_run_live append_butlast_last_id [of "w_log (demo_end live_service)"]
  by (simp add: demo_end_def case_prod_beta)

subsection \<open>Other answers\<close>

text \<open>A broker whose profit calculation is not a number: the pipeline raises.\<close>

lemma demo_volume_NaN: "size_volume NaN (Fin 10000) (Fin 1) (Fin (1 / 8)) (Fin 50) (Fin (1 / 8)) = Inl ValueError"
  by code_simp

lemma demo_raises:
  "fst (demo_run (demo_service (demo_answers\<lparr>an_profit := Some NaN\<rparr>) live_settings)) = Inl ValueError"
  by (simp add: demo_run_def demo_eval demo_volume_NaN)

text \<open>A restart after a crash in the middle of the pipeline, with and without the deal in the history.\<close>

definition demo_deal :: sdk_object where
  "demo_deal = [(''comment'', AStr (meb_comment ''s1'')), (''order'', AInt 11), (''ticket'', AInt 12)]"

lemma demo_deal_comment [simp]: "get_attr demo_deal ''comment'' d = AStr (meb_comment ''s1'')"
  by (simp add: get_attr_def demo_deal_def)

lemma demo_reconcile:
  "fst (run (reconcile_stuck_signal (demo_service (demo_answers\<lparr>an_deals := Some [demo_deal]\<rparr>) live_settings) demo_row)
     (demo_world (demo_db demo_row))) = Inr RECOVERED_EXECUTED"
  by (simp add: demo_eval)

lemma demo_restart:
  "fst (run (recover_on_startup live_service) (demo_world (demo_db demo_row))) = Inr ()"
  by (simp add: demo_eval find_stuck_processing_def)

text \<open>An executed trade of the demo account.\<close>

definition demo_execution :: execution_row where
  "demo_execution = (execution_fields live_service demo_row demo_now)\<lparr>ex_account_key := Some ''Demo|7'', ex_status := EXECUTED\<rparr>"

lemma demo_execution_simps [simp]:
  "ex_started_at demo_execution = isoformat (utc_of_us 1000010000000)" "ex_status demo_execution = EXECUTED"
  "ex_account_key demo_execution = Some ''Demo|7''"
  by (simp_all add: demo_execution_def execution_fields_def demo_now_def)

end
