(* ===== verification/Traces.thy ===== *)
theory Traces
  imports Footprint
begin

section \<open>Traces\<close>

text \<open>
  A history of one thread: the list of its steps, each with the world before and after it. The
  world before a step is arbitrary, since other threads run between the steps. \<open>after p tr q\<close>:
  from \<open>p\<close> the steps \<open>tr\<close> lead to the rest \<open>q\<close>. The rules below take a history of a composed
  program apart into histories of its parts.
\<close>

type_synonym 'w trace = "('w \<times> 'w) list"

inductive after :: "('w, 'a) prog \<Rightarrow> 'w trace \<Rightarrow> ('w, 'a) prog \<Rightarrow> bool" where
  here: "after p [] p"
| step: "after (fst (f w)) tr q \<Longrightarrow> after (Atomic f) ((w, snd (f w)) # tr) q"

inductive_simps after_Nil [simp]: "after p [] q"
inductive_simps after_Ret [simp]: "after (Ret a) tr q"
inductive_simps after_Throw [simp]: "after (Throw e) tr q"
inductive_simps after_Atomic: "after (Atomic f) tr q"
inductive_simps after_Cons: "after p (s # tr) q"

lemma after_append: "after p (tr @ tr') q \<longleftrightarrow> (\<exists>m. after p tr m \<and> after m tr' q)"
proof (induction tr arbitrary: p)
  case (Cons s tr)
  then show ?case by (auto simp: after_Cons)
qed simp

lemma after_single: "after p [(w, w')] q \<longleftrightarrow> (\<exists>f. p = Atomic f \<and> w' = snd (f w) \<and> q = fst (f w))"
  by (cases p) (auto simp: after_Atomic)

lemma after_snoc: "after p (tr @ [(w, w')]) q \<longleftrightarrow>
    (\<exists>f. after p tr (Atomic f) \<and> w' = snd (f w) \<and> q = fst (f w))"
  by (auto simp: after_append after_single)

lemma after_bindP:
  "after (bindP m k) tr q \<longleftrightarrow> (\<exists>m'. after m tr m' \<and> q = bindP m' k)
     \<or> (\<exists>a tr1 tr2. tr = tr1 @ tr2 \<and> after m tr1 (Ret a) \<and> after (k a) tr2 q)"
proof (induction m arbitrary: tr)
  case (Ret a)
  then show ?case by auto
next
  case (Throw e)
  then show ?case by auto
next
  case (Atomic f)
  show ?case
  proof (cases tr)
    case Nil
    then show ?thesis by auto
  next
    case (Cons s tr')
    obtain w w' where s: "s = (w, w')" by (cases s)
    have cons: "after (Atomic f) ((w, v) # tr1) q' \<longleftrightarrow> v = snd (f w) \<and> after (fst (f w)) tr1 q'"
      for v tr1 q' by (auto simp: after_Atomic)
    have split: "(\<exists>a tr1 tr2. (w, w') # tr' = tr1 @ tr2 \<and> after (Atomic f) tr1 (Ret a) \<and> after (k a) tr2 q)
      \<longleftrightarrow> w' = snd (f w) \<and> (\<exists>a tr1 tr2. tr' = tr1 @ tr2 \<and> after (fst (f w)) tr1 (Ret a) \<and> after (k a) tr2 q)"
      (is "?L \<longleftrightarrow> ?R")
    proof
      assume ?R
      then obtain a tr1 tr2 where "w' = snd (f w)" "tr' = tr1 @ tr2" "after (fst (f w)) tr1 (Ret a)"
        and k: "after (k a) tr2 q" by blast
      then have "(w, w') # tr' = ((w, w') # tr1) @ tr2" "after (Atomic f) ((w, w') # tr1) (Ret a)"
        by (simp_all add: cons)
      with k show ?L by blast
    next
      assume ?L
      then obtain a tr1 tr2 where eq: "(w, w') # tr' = tr1 @ tr2" and m: "after (Atomic f) tr1 (Ret a)"
        and k: "after (k a) tr2 q" by blast
      from m obtain tr1' where tr1: "tr1 = (w, w') # tr1'" using eq by (cases tr1) auto
      from m eq have "w' = snd (f w)" "after (fst (f w)) tr1' (Ret a)" "tr' = tr1' @ tr2"
        by (simp_all add: tr1 cons)
      with k show ?R by blast
    qed
    have "after (bindP (Atomic f) k) tr q \<longleftrightarrow> w' = snd (f w) \<and> after (bindP (fst (f w)) k) tr' q"
      unfolding Cons s by (auto simp: after_Atomic)
    also have "\<dots> \<longleftrightarrow> (\<exists>m'. after (Atomic f) tr m' \<and> q = bindP m' k)
       \<or> (\<exists>a tr1 tr2. tr = tr1 @ tr2 \<and> after (Atomic f) tr1 (Ret a) \<and> after (k a) tr2 q)"
      unfolding Atomic.IH Cons s cons split by blast
    finally show ?thesis .
  qed
qed

text \<open>A complete history of a sequence: the first part returns, the second goes on.\<close>

lemma bindP_eq_Ret: "bindP m k = Ret b \<longleftrightarrow> (\<exists>a. m = Ret a \<and> k a = Ret b)"
  by (cases m) auto

lemma returns_bindP: "after (bindP m k) tr (Ret b) \<longleftrightarrow>
    (\<exists>a tr1 tr2. tr = tr1 @ tr2 \<and> after m tr1 (Ret a) \<and> after (k a) tr2 (Ret b))"
proof
  assume "after (bindP m k) tr (Ret b)"
  then show "\<exists>a tr1 tr2. tr = tr1 @ tr2 \<and> after m tr1 (Ret a) \<and> after (k a) tr2 (Ret b)"
    unfolding after_bindP by (metis after.here append_Nil2 bindP_eq_Ret)
qed (auto simp: after_bindP)

lemma after_liftE [simp]: "after (liftE r) tr q \<longleftrightarrow> tr = [] \<and> q = liftE r"
  by (cases r) auto

lemma after_atomically: "after (atomically f) tr q \<longleftrightarrow> tr = [] \<and> q = atomically f
    \<or> (\<exists>w. tr = [(w, snd (f w))] \<and> q = liftE (fst (f w)))"
  by (auto simp: atomically_def after_Atomic)

lemma liftE_eq_Ret [simp]: "liftE r = Ret a \<longleftrightarrow> r = Inr a" "Ret a = liftE r \<longleftrightarrow> r = Inr a"
  by (cases r; auto)+

lemma atomically_not_Ret [simp]: "atomically f \<noteq> Ret a" "Ret a \<noteq> atomically f"
  by (simp_all add: atomically_def)

lemma returns_atomically:
  "after (atomically f) tr (Ret a) \<longleftrightarrow> (\<exists>w. tr = [(w, snd (f w))] \<and> fst (f w) = Inr a)"
  by (auto simp: after_atomically)

lemma returns_gets: "after (gets g) tr (Ret a) \<longleftrightarrow> (\<exists>w. tr = [(w, w)] \<and> a = g w)"
  by (auto simp: gets_def returns_atomically)

subsection \<open>Every run is a history\<close>

primrec chain :: "'w \<Rightarrow> 'w trace \<Rightarrow> 'w \<Rightarrow> bool" where
  "chain w [] w' \<longleftrightarrow> w' = w"
| "chain w (s # tr) w' \<longleftrightarrow> fst s = w \<and> chain (snd s) tr w'"

lemma after_run: "\<exists>tr. after p tr (liftE (fst (run p w))) \<and> chain w tr (snd (run p w))"
proof (induction p arbitrary: w)
  case (Atomic f)
  from Atomic.IH [of w "snd (f w)"] obtain tr where
    "after (fst (f w)) tr (liftE (fst (run (fst (f w)) (snd (f w)))))"
    "chain (snd (f w)) tr (snd (run (fst (f w)) (snd (f w))))" by blast
  then have "after (Atomic f) ((w, snd (f w)) # tr) (liftE (fst (run (Atomic f) w)))"
    and "chain w ((w, snd (f w)) # tr) (snd (run (Atomic f) w))"
    by (auto simp: run_Atomic intro: after.step)
  then show ?case by blast
qed auto

subsection \<open>Histories and monitors\<close>

text \<open>A relation every step respects holds along the history and for the rest of the program.\<close>

lemma guarantees_after:
  "after p tr q \<Longrightarrow> guarantees G p \<Longrightarrow> (\<forall>(w, w') \<in> set tr. G w w') \<and> guarantees G q"
  by (induction rule: after.induct) (auto simp: guarantees_simps)

text \<open>Along a history a monitor reaches a state from which the rest of the program conforms.\<close>

lemma conforms_after:
  "after p tr q \<Longrightarrow> conforms R p Q r \<Longrightarrow> \<exists>r'. conforms R q Q r'"
proof (induction arbitrary: r rule: after.induct)
  case (step f w tr q)
  from step.prems obtain r' where "conforms R (fst (f w)) Q r'" by (auto simp: conforms_Atomic)
  then show ?case by (rule step.IH)
qed auto

end
