(* ===== verification/Clearance.thy ===== *)
theory Clearance
  imports Traces
begin

section \<open>What precedes an order\<close>

text \<open>
  The history of a \<open>process_signal\<close> thread up to its \<open>order_send\<close>: every stage has returned
  and every check of the pipeline has passed on answers that stand in the history.
\<close>

subsection \<open>What a history shows\<close>

text \<open>The SDK calls of the thread itself, with their answers.\<close>

definition own_events :: "'s world trace \<Rightarrow> sdk_event list" where
  "own_events tr = concat (map (\<lambda>(w, w'). drop (length (w_log w)) (w_log w')) tr)"

lemma own_events_simps [simp]:
  "own_events [] = []"
  "own_events (s # tr) = drop (length (w_log (fst s))) (w_log (snd s)) @ own_events tr"
  "own_events (tr @ tr') = own_events tr @ own_events tr'"
  by (simp_all add: own_events_def case_prod_beta)

text \<open>A reading of the clock, and a reading of the database.\<close>

definition clock_read :: "'s service \<Rightarrow> 's world trace \<Rightarrow> datetime \<Rightarrow> bool" where
  "clock_read svc tr t \<longleftrightarrow> (\<exists>w us s. (w, w\<lparr>w_ext := s\<rparr>) \<in> set tr \<and> es_now svc (w_ext w) = (us, s)
     \<and> t = utc_of_us us)"

definition db_value :: "(db \<Rightarrow> 'a) \<Rightarrow> 's world trace \<Rightarrow> 'a \<Rightarrow> bool" where
  "db_value f tr x \<longleftrightarrow> (\<exists>w. (w, w) \<in> set tr \<and> f (w_db w) = x)"

lemma clock_read_append [simp]: "clock_read svc (tr @ tr') t \<longleftrightarrow> clock_read svc tr t \<or> clock_read svc tr' t"
  unfolding clock_read_def set_append Un_iff by blast

lemma db_value_append [simp]: "db_value f (tr @ tr') x \<longleftrightarrow> db_value f tr x \<or> db_value f tr' x"
  by (auto simp: db_value_def)

subsection \<open>Histories of the primitive steps\<close>

lemma returns_sdk_call: "after (sdk_call ev f) tr (Ret a) \<longleftrightarrow>
    (\<exists>w s. tr = [(w, w\<lparr>w_ext := s, w_log := w_log w @ [ev (Inr a)]\<rparr>)] \<and> f (w_ext w) = (Inr a, s))"
  by (auto simp: sdk_call_def returns_atomically Let_def case_prod_beta prod_eq_iff)

lemma returns_utcnow: "after (utcnow now) tr (Ret t) \<longleftrightarrow>
    (\<exists>w us s. tr = [(w, w\<lparr>w_ext := s\<rparr>)] \<and> now (w_ext w) = (us, s) \<and> t = utc_of_us us)"
  by (auto simp: utcnow_def returns_atomically Let_def case_prod_beta prod_eq_iff)

lemma returns_db_read: "after (db_read f) tr (Ret x) \<longleftrightarrow> (\<exists>w. tr = [(w, w)] \<and> x = f (w_db w))"
  by (auto simp: db_read_def returns_gets)

lemma returns_db_step: "after (db_step f) tr (Ret x) \<longleftrightarrow>
    (\<exists>w d. tr = [(w, w\<lparr>w_db := d\<rparr>)] \<and> f (w_db w) = (Inr x, d))"
  by (auto simp: db_step_def returns_atomically Let_def case_prod_beta prod_eq_iff)

lemma returns_db_step_now: "after (db_step_now now f) tr (Ret x) \<longleftrightarrow>
    (\<exists>w us s d. tr = [(w, w\<lparr>w_ext := s, w_db := d\<rparr>)] \<and> now (w_ext w) = (us, s)
        \<and> f (isoformat (utc_of_us us)) (w_db w) = (Inr x, d))"
  by (auto simp: db_step_now_def returns_atomically Let_def case_prod_beta prod_eq_iff)

lemma returns_db_write: "after (db_write f) tr (Ret x) \<longleftrightarrow> (\<exists>w. tr = [(w, w\<lparr>w_db := f (w_db w)\<rparr>)])"
  by (auto simp: db_write_def returns_db_step)

lemma returns_db_write_now: "after (db_write_now now f) tr (Ret x) \<longleftrightarrow>
    (\<exists>w us s. tr = [(w, w\<lparr>w_ext := s, w_db := f (isoformat (utc_of_us us)) (w_db w)\<rparr>)]
        \<and> now (w_ext w) = (us, s))"
  by (auto simp: db_write_now_def returns_db_step_now)

lemma returns_return_early [simp]: "\<not> after (return_early m) tr (Ret (Inr a))"
  by (simp add: return_early_def returns_bindP)

lemma returns_go_on: "after (go_on m) tr (Ret (Inr a)) \<longleftrightarrow> after m tr (Ret a)"
  by (simp add: go_on_def returns_bindP)

lemma returns_bindR: "after (bindR m k) tr (Ret (Inr b)) \<longleftrightarrow>
    (\<exists>a tr1 tr2. tr = tr1 @ tr2 \<and> after m tr1 (Ret (Inr a)) \<and> after (k a) tr2 (Ret (Inr b)))"
proof
  assume "after (bindR m k) tr (Ret (Inr b))"
  then obtain res tr1 tr2 where "tr = tr1 @ tr2" "after m tr1 (Ret res)"
    "after (case res of Inl st \<Rightarrow> Ret (Inl st) | Inr a \<Rightarrow> k a) tr2 (Ret (Inr b))"
    by (auto simp: bindR_def returns_bindP)
  then show "\<exists>a tr1 tr2. tr = tr1 @ tr2 \<and> after m tr1 (Ret (Inr a)) \<and> after (k a) tr2 (Ret (Inr b))"
    by (cases res) auto
next
  assume "\<exists>a tr1 tr2. tr = tr1 @ tr2 \<and> after m tr1 (Ret (Inr a)) \<and> after (k a) tr2 (Ret (Inr b))"
  then obtain a tr1 tr2 where "tr = tr1 @ tr2" "after m tr1 (Ret (Inr a))" "after (k a) tr2 (Ret (Inr b))"
    by blast
  then show "after (bindR m k) tr (Ret (Inr b))"
    unfolding bindR_def returns_bindP by (intro exI [of _ "Inr a"] exI [of _ tr1] exI [of _ tr2]) simp
qed

lemma returns_require_ok [simp]:
  "after (require_ok svc sid eid c) tr (Ret (Inr u)) \<longleftrightarrow> rc_ok c \<and> tr = []"
  by (auto simp: require_ok_def split: option.splits)

lemma returns_Let [simp]: "after (let x = v in p x) tr q = after (p v) tr q"
  by simp

lemma returns_option:
  "after (case v of None \<Rightarrow> p | Some x \<Rightarrow> k x) tr q \<longleftrightarrow>
     v = None \<and> after p tr q \<or> (\<exists>x. v = Some x \<and> after (k x) tr q)"
  by (cases v) auto

lemma returns_if: "after (if b then p else p') tr q \<longleftrightarrow> (if b then after p tr q else after p' tr q)"
  by simp

lemmas returns = returns_sdk_call returns_utcnow returns_db_read returns_db_step returns_db_step_now
  returns_db_write returns_db_write_now returns_go_on returns_bindR returns_bindP returns_gets

subsection \<open>What each stage has seen when the pipeline goes on\<close>

lemma screen_signal_passed:
  assumes "after (screen_signal svc row eid) tr (Ret (Inr u))"
  shows "\<exists>ts t. fromisoformat (sg_signal_timestamp row) = Inr ts \<and> clock_read svc tr t
      \<and> rc_ok (check_freshness ts (cfg_max_signal_age_seconds (es_settings svc)) t)"
    and "sg_action row = action_value BUY \<Longrightarrow> cfg_allow_market_buy (es_settings svc)"
    and "sg_action row = action_value SELL \<Longrightarrow> cfg_allow_market_sell (es_settings svc)"
  using assms
  by (auto simp: screen_signal_def returns clock_read_def split: if_splits)

lemma map_symbol_passed:
  assumes "after (map_symbol svc row eid) tr (Ret (Inr s))"
  shows "resolve (es_symbol_mapper svc) (sg_symbol_raw row) = Some s"
  using assms by (auto simp: map_symbol_def returns split: option.splits)

lemma connect_account_passed:
  assumes "after (connect_account svc sid eid) tr (Ret (Inr (key, eq)))"
  shows "\<exists>account. E_account_info (Inr (Some account)) \<in> set (own_events tr)
    \<and> account_key_for account = Some key \<and> eq = ai_equity account"
  using assms
  by (fastforce simp: connect_account_def returns gw_account_info_def split: if_splits option.splits)

lemma gw_symbol_info_tick_seen:
  assumes "after (gw_symbol_info_tick m s) tr (Ret (Some tk))"
  shows "E_symbol_info_tick s (Inr (Some tk)) \<in> set (own_events tr)"
  using assms by (auto simp: gw_symbol_info_tick_def returns split: option.splits)

lemma gw_ensure_symbol_seen:
  assumes "after (gw_ensure_symbol m s) tr (Ret (Some si))"
  shows "E_symbol_info s (Inr (Some si)) \<in> set (own_events tr)"
  using assms by (auto simp: gw_ensure_symbol_def returns split: option.splits if_splits)

lemma market_data_passed:
  assumes "after (market_data svc row eid s) tr (Ret (Inr mk))"
  shows "E_symbol_info s (Inr (Some (mk_symbol_info mk))) \<in> set (own_events tr)"
    and "\<exists>tk. E_symbol_info_tick s (Inr (Some tk)) \<in> set (own_events tr)
      \<and> mk_bid mk = tk_bid tk \<and> mk_ask mk = tk_ask tk \<and> mk_entry_price mk = entry_price_of (sg_action row) tk"
    and "\<exists>tk. E_symbol_info_tick s (Inr (Some tk)) \<in> set (own_events tr)
      \<and> tick_datetime (tk_time tk) = Some (mk_broker_now mk)"
  using assms
  by (auto simp: market_data_def returns gw_server_time_def split: option.splits
      dest!: gw_ensure_symbol_seen gw_symbol_info_tick_seen)

lemma quote_checks_passed:
  assumes "after (quote_checks svc row eid mk) tr (Ret (Inr u))"
  shows "rc_ok (check_stop_loss (sg_action row) (sg_stop_loss row) (mk_entry_price mk)
      (cfg_require_stop_loss (es_settings svc)))"
    and "\<exists>c. check_spread (mk_bid mk) (mk_ask mk) (dflt_value (Fin 0) (si_point (mk_symbol_info mk)))
      (cfg_max_spread_points (es_settings svc)) = Inr c \<and> rc_ok c"
  using assms by (auto simp: quote_checks_def returns)

lemma limits_ok [simp]:
  "rc_ok (check_daily_trade_limit n k) \<longleftrightarrow> n < k" "rc_ok (check_position_limit n k) \<longleftrightarrow> n < k"
  by (auto simp: check_daily_trade_limit_def check_position_limit_def rc_pass_def rc_fail_def)

lemma count_checks_passed:
  assumes "after (count_checks svc sid eid key broker_now) tr (Ret (Inr u))"
  shows "\<exists>n. db_value (count_executed_trades_since key (isoformat (start_of_trading_day broker_now))) tr n
      \<and> n < cfg_max_trades_per_day (es_settings svc)"
    and "\<exists>ps. E_positions_get (Inr (Some ps)) \<in> set (own_events tr)
      \<and> int (length (bridge_positions (cfg_magic_number (es_settings svc)) ps))
          < cfg_max_open_positions (es_settings svc)"
  using assms
  by (auto simp: count_checks_def returns gw_positions_get_def db_value_def split: option.splits)

lemma loss_checks_passed:
  assumes "after (loss_checks svc row eid key eq broker_now) tr (Ret (Inr u))"
  shows "\<exists>stored base. db_value (get_daily_loss_baseline key (trading_day_key broker_now)) tr stored
      \<and> base = dflt_value eq stored
      \<and> (\<exists>c. check_daily_loss eq base (cfg_max_daily_loss_percent (es_settings svc)) = Inr c \<and> rc_ok c)"
    and "rc_ok (check_risk_percent (sg_risk_percent row) (cfg_max_risk_percent (es_settings svc)))"
proof -
  let ?day = "trading_day_key broker_now"
  from assms obtain w tr' c where r: "tr = (w, w) # tr'"
    "check_daily_loss eq (dflt_value eq (get_daily_loss_baseline key ?day (w_db w))) (cfg_max_daily_loss_percent (es_settings svc)) = Inr c" "rc_ok c"
    "rc_ok (check_risk_percent (sg_risk_percent row) (cfg_max_risk_percent (es_settings svc)))"
    by (auto simp: loss_checks_def returns returns_option dflt_value_def)
  from r show "\<exists>stored base. db_value (get_daily_loss_baseline key ?day) tr stored
      \<and> base = dflt_value eq stored
      \<and> (\<exists>c. check_daily_loss eq base (cfg_max_daily_loss_percent (es_settings svc)) = Inr c \<and> rc_ok c)"
    by (auto simp: db_value_def)
  from r show "rc_ok (check_risk_percent (sg_risk_percent row) (cfg_max_risk_percent (es_settings svc)))" by simp
qed

lemma size_order_passed:
  assumes "after (size_order svc row eid symb eq mk) tr (Ret (Inr v))"
  shows "\<exists>sl loss vr. sg_stop_loss row = Some sl
      \<and> E_order_calc_profit (order_type_of (sg_action row)) symb (Fin 1) (mk_entry_price mk) sl (Inr (Some loss))
          \<in> set (own_events tr)
      \<and> size_volume loss eq (sg_risk_percent row)
           (dflt_value (flit (1/100)) (si_volume_min (mk_symbol_info mk)))
           (dflt_value (Fin 100) (si_volume_max (mk_symbol_info mk)))
           (dflt_value (flit (1/100)) (si_volume_step (mk_symbol_info mk))) = Inr vr
      \<and> vr_ok vr \<and> v = vr_volume vr"
  using assms
  by (auto simp: size_order_def calculate_risk_based_volume_def gw_order_calc_profit_def returns vr_fail_def
      split: option.splits if_splits)

lemma check_order_passed:
  assumes "after (check_order svc sid eid rq) tr (Ret (Inr u))"
  shows "\<exists>res. own_events tr = [E_order_check rq (Inr (Some res))] \<and> is_check_success (tr_retcode res)"
  using assms
  by (auto simp: check_order_def gw_order_check_def returns result_retcode_def split: option.splits if_splits)

subsection \<open>The histories that end in an order\<close>

text \<open>A step that adds an \<open>order_send\<close> is not one of a quiet program.\<close>

definition sends :: "'s world \<times> 's world \<Rightarrow> order_request \<Rightarrow> bool" where
  "sends s rq \<longleftrightarrow> (\<exists>res. w_log (snd s) = w_log (fst s) @ [E_order_send rq res])"

lemma quiet_not_sends:
  assumes "quiet own m" and "after m (tr @ s # tr') q"
  shows "\<not> sends s rq"
proof -
  have "case s of (w, w') \<Rightarrow> quiet_step own w w'"
    using guarantees_after [OF assms(2) assms(1) [unfolded effects_def]] by simp
  then show ?thesis by (auto simp: sends_def effect_step_def split: prod.splits)
qed

lemma sending_bindP:
  assumes "quiet own m" and "after (bindP m k) (tr @ [s]) q" and "sends s rq"
  obtains a tr1 tr2 where "tr = tr1 @ tr2" and "after m tr1 (Ret a)" and "after (k a) (tr2 @ [s]) q"
proof -
  have "\<not> after m (tr @ [s]) m'" for m' using quiet_not_sends [OF assms(1), of tr s "[]"] assms(3) by auto
  with assms(2) obtain a tr1 tr2 where t: "tr @ [s] = tr1 @ tr2" "after m tr1 (Ret a)" "after (k a) tr2 q"
    unfolding after_bindP by blast
  with \<open>\<And>m'. \<not> after m (tr @ [s]) m'\<close> have "tr2 \<noteq> []" by auto
  then obtain tr2' where "tr2 = tr2' @ [s]" and "tr = tr1 @ tr2'"
    using t(1) by (cases tr2 rule: rev_cases) auto
  with t that show thesis by blast
qed

lemma sending_bindR:
  assumes "quiet own m" and "after (bindR m k) (tr @ [s]) q" and "sends s rq"
  obtains a tr1 tr2 where "tr = tr1 @ tr2" and "after m tr1 (Ret (Inr a))" and "after (k a) (tr2 @ [s]) q"
proof -
  from sending_bindP [OF assms(1) assms(2) [unfolded bindR_def] assms(3)] obtain res tr1 tr2 where
    t: "tr = tr1 @ tr2" "after m tr1 (Ret res)"
      "after (case res of Inl st \<Rightarrow> Ret (Inl st) | Inr a \<Rightarrow> k a) (tr2 @ [s]) q" by blast
  then show thesis by (cases res) (auto intro: that)
qed

lemma sending_then_Ret:
  assumes "after (bindP m (\<lambda>x. Ret (g x))) (tr @ [s]) q"
  obtains q' where "after m (tr @ [s]) q'"
  using assms unfolding after_bindP by auto

lemma sending_order_send:
  assumes "after (send_order svc sid eid rq) (tr @ [s]) q" and "sends s rq'"
  shows "tr = [] \<and> rq' = rq"
proof -
  have only: "tr = [] \<and> rq' = rq" if "after (gw_order_send (es_mt5 svc) rq) (tr @ [s]) m" for m
    using that assms(2)
    by (cases "es_mt5 svc") (auto simp: gw_order_send_def sdk_call_def after_atomically sends_def
        Let_def case_prod_beta)
  have "\<exists>K. send_order svc sid eid rq = bindP (gw_order_send (es_mt5 svc) rq) K
      \<and> (\<forall>a. quiet (\<lambda>s. s = sid) (K a))"
    unfolding send_order_def Let_def
    by (rule exI, rule conjI, rule refl) (intro allI quiet_intros; simp)
  then obtain K where K: "send_order svc sid eid rq = bindP (gw_order_send (es_mt5 svc) rq) K"
    and q: "\<And>a. quiet (\<lambda>s. s = sid) (K a)" by blast
  from assms(1) [unfolded K after_bindP] show ?thesis
  proof (elim disjE exE conjE)
    fix a tr1 tr2
    assume t: "tr @ [s] = tr1 @ tr2" "after (gw_order_send (es_mt5 svc) rq) tr1 (Ret a)" "after (K a) tr2 q"
    show ?thesis
    proof (cases tr2 rule: rev_cases)
      case Nil
      then show ?thesis using t only by simp
    next
      case (snoc ys y)
      then show ?thesis using t quiet_not_sends [OF q, of a ys s "[]"] assms(2) by auto
    qed
  qed (rule only)
qed

lemma sending_end_of: "after (end_of m) (tr @ [s]) q \<Longrightarrow> \<exists>q'. after m (tr @ [s]) q'"
  unfolding end_of_def by (erule sending_then_Ret) blast

lemma sending_go_on: "after (go_on m) (tr @ [s]) q \<Longrightarrow> \<exists>q'. after m (tr @ [s]) q'"
  unfolding go_on_def by (erule sending_then_Ret) blast

lemma sending_return_early: "sends s rq \<Longrightarrow> quiet own m \<Longrightarrow> \<not> after (return_early m) (tr @ [s]) q"
  using quiet_not_sends [OF quiet.touch_return_early, of own m tr s "[]"] by auto

text \<open>Every stage has returned, in order, and the request is the one \<open>order_check\<close> saw.\<close>

lemma order_history:
  assumes "after (process_signal svc row) (tr @ [s]) q" and "sends s rq"
  obtains eid symb key eq mk v t0 t1 t2 t3 t4 t5 t6 t7 t8 t9 where
    "tr = t0 @ t1 @ t2 @ t3 @ t4 @ t5 @ t6 @ t7 @ t8 @ t9"
    and "after (open_execution svc row) t0 (Ret eid)"
    and "after (screen_signal svc row eid) t1 (Ret (Inr ()))"
    and "after (map_symbol svc row eid) t2 (Ret (Inr symb))"
    and "after (connect_account svc (sg_signal_id row) eid) t3 (Ret (Inr (key, eq)))"
    and "after (market_data svc row eid symb) t4 (Ret (Inr mk))"
    and "after (quote_checks svc row eid mk) t5 (Ret (Inr ()))"
    and "after (count_checks svc (sg_signal_id row) eid key (mk_broker_now mk)) t6 (Ret (Inr ()))"
    and "after (loss_checks svc row eid key eq (mk_broker_now mk)) t7 (Ret (Inr ()))"
    and "after (size_order svc row eid symb eq mk) t8 (Ret (Inr (Some v)))"
    and "after (check_order svc (sg_signal_id row) eid rq) t9 (Ret (Inr ()))"
    and "rq = build_order_request svc symb (sg_action row) v (mk_entry_price mk) (sg_stop_loss row)
           (sg_take_profit row) (mk_symbol_info mk) (sg_signal_id row)"
    and "live_execution_allowed (es_settings svc)"
  using assms(1) unfolding process_signal_def Let_def
  apply (elim sending_bindP [OF quiet_open_execution _ assms(2)])
  apply (drule sending_end_of, erule exE)
  apply (erule sending_bindR [OF quiet_screen_signal _ assms(2)])
  apply (erule sending_bindR [OF quiet_map_symbol _ assms(2)])
  apply (erule sending_bindR [OF quiet_connect_account _ assms(2)])
  apply (simp only: split_paired_all prod.case)
  apply (erule sending_bindR [OF quiet_market_data _ assms(2)])
  apply (erule sending_bindR [OF quiet_quote_checks _ assms(2)])
  apply (erule sending_bindR [OF quiet_count_checks _ assms(2)])
  apply (erule sending_bindR [OF quiet_loss_checks _ assms(2)])
  apply (erule sending_bindR [OF quiet_size_order _ assms(2)])
  apply (erule sending_bindP [OF quiet.touch_liftE _ assms(2)])
  apply (erule sending_bindR [OF quiet_check_order _ assms(2)])
  apply (simp split: if_splits option.splits add: sending_return_early [OF assms(2) quiet_finish])
  apply (drule sending_go_on, erule exE)
  apply (drule sending_order_send [OF _ assms(2)], erule conjE)
  apply (rule that, simp_all)
  done

text \<open>A run that sends has such a history.\<close>

lemma chain_sends:
  assumes "chain w tr w'" and "order_sends (w_log w') \<noteq> order_sends (w_log w)"
    and "\<forall>(v, v') \<in> set tr. (\<exists>es. w_log v' = w_log v @ es \<and> order_sends es = []) \<or> (\<exists>rq. sends (v, v') rq)"
  shows "\<exists>tr1 s tr2 rq. tr = tr1 @ s # tr2 \<and> sends s rq"
  using assms
proof (induction tr arbitrary: w)
  case (Cons s tr)
  show ?case
  proof (cases "\<exists>rq. sends s rq")
    case True
    then show ?thesis by (metis append_Nil)
  next
    case False
    then have "order_sends (w_log (snd s)) = order_sends (w_log (fst s))" using Cons.prems(3) by auto
    then have "\<exists>tr1 s' tr2 rq. tr = tr1 @ s' # tr2 \<and> sends s' rq" using Cons by (intro Cons.IH [of "snd s"]) auto
    then show ?thesis by (metis append_Cons)
  qed
qed simp

lemma run_sends:
  assumes "run (process_signal svc row) w = (r, w')" and "order_sends (w_log w') \<noteq> order_sends (w_log w)"
  obtains tr s q rq where "after (process_signal svc row) (tr @ [s]) q" and "sends s rq"
proof -
  obtain tr where tr: "after (process_signal svc row) tr (liftE r)" "chain w tr w'"
    using after_run [of "process_signal svc row" w] assms(1) by auto
  have "guarantees (\<lambda>v v'. (\<exists>es. w_log v' = w_log v @ es \<and> order_sends es = []) \<or> (\<exists>rq. sends (v, v') rq))
      (process_signal svc row)"
    by (rule conforms_guarantee [OF sends_once_process_signal]) (auto simp: send_monitor_def sends_def)
  from guarantees_after [OF tr(1) this] chain_sends [OF tr(2) assms(2)]
  obtain tr1 s tr2 rq where s: "tr = tr1 @ s # tr2" "sends s rq" by blast
  with tr(1) have "\<exists>q. after (process_signal svc row) ((tr1 @ [s]) @ tr2) q" by auto
  then show thesis using that s(2) unfolding after_append by blast
qed

end
