(* ===== verification/Orders.thy ===== *)
theory Orders
  imports Clearance System
begin

section \<open>Every order is backed\<close>

text \<open>
  What stands behind each order in the log of the process, whatever the interleaving: a stored
  signal that has been claimed, settings that allow live orders, and broker answers earlier in
  the log on which every check passed.
\<close>

definition approved :: "'s service \<Rightarrow> signal_row \<Rightarrow> sdk_event list \<Rightarrow> order_request \<Rightarrow> bool" where
  "approved svc row es rq \<longleftrightarrow> (\<exists>account si tk positions sl loss vr res.
       resolve (es_symbol_mapper svc) (sg_symbol_raw row) = Some (rq_symbol rq)
     \<and> E_account_info (Inr (Some account)) \<in> set es \<and> account_key_for account \<noteq> None
     \<and> E_symbol_info (rq_symbol rq) (Inr (Some si)) \<in> set es
     \<and> E_symbol_info_tick (rq_symbol rq) (Inr (Some tk)) \<in> set es
     \<and> rc_ok (check_stop_loss (sg_action row) (sg_stop_loss row) (rq_price rq)
                (cfg_require_stop_loss (es_settings svc)))
     \<and> (\<exists>c. check_spread (tk_bid tk) (tk_ask tk) (dflt_value (Fin 0) (si_point si))
                (cfg_max_spread_points (es_settings svc)) = Inr c \<and> rc_ok c)
     \<and> E_positions_get (Inr (Some positions)) \<in> set es
     \<and> int (length (bridge_positions (cfg_magic_number (es_settings svc)) positions))
          < cfg_max_open_positions (es_settings svc)
     \<and> rc_ok (check_risk_percent (sg_risk_percent row) (cfg_max_risk_percent (es_settings svc)))
     \<and> sg_stop_loss row = Some sl
     \<and> E_order_calc_profit (rq_type rq) (rq_symbol rq) (Fin 1) (rq_price rq) sl (Inr (Some loss)) \<in> set es
     \<and> size_volume loss (ai_equity account) (sg_risk_percent row)
          (dflt_value (flit (1/100)) (si_volume_min si)) (dflt_value (Fin 100) (si_volume_max si))
          (dflt_value (flit (1/100)) (si_volume_step si)) = Inr vr
     \<and> vr_ok vr \<and> vr_volume vr = Some (rq_volume rq)
     \<and> rq = build_order_request svc (rq_symbol rq) (sg_action row) (rq_volume rq)
              (entry_price_of (sg_action row) tk) (sg_stop_loss row) (sg_take_profit row) si (sg_signal_id row)
     \<and> E_order_check rq (Inr (Some res)) \<in> set es \<and> is_check_success (tr_retcode res))"

lemma approved_mono: "approved svc row es rq \<Longrightarrow> set es \<subseteq> set fs \<Longrightarrow> approved svc row fs rq"
  unfolding approved_def by (elim ex_forward, elim conjE, intro conjI) (assumption | erule (1) subsetD [rotated])+

lemma immutable_simps [simp]:
  "sg_signal_id (immutable r) = sg_signal_id r" "sg_symbol_raw (immutable r) = sg_symbol_raw r"
  "sg_action (immutable r) = sg_action r" "sg_risk_percent (immutable r) = sg_risk_percent r"
  "sg_stop_loss (immutable r) = sg_stop_loss r" "sg_take_profit (immutable r) = sg_take_profit r"
  "sg_signal_timestamp (immutable r) = sg_signal_timestamp r"
  by (simp_all add: immutable_def)

lemma immutable_eqD:
  assumes "immutable r = immutable row"
  shows "sg_signal_id r = sg_signal_id row" "sg_symbol_raw r = sg_symbol_raw row" "sg_action r = sg_action row"
    "sg_risk_percent r = sg_risk_percent row" "sg_stop_loss r = sg_stop_loss row"
    "sg_take_profit r = sg_take_profit row" "sg_signal_timestamp r = sg_signal_timestamp row"
  by (metis assms immutable_simps(1)) (metis assms immutable_simps(2), metis assms immutable_simps(3),
    metis assms immutable_simps(4), metis assms immutable_simps(5), metis assms immutable_simps(6),
    metis assms immutable_simps(7))

lemma approved_immutable:
  assumes "immutable r = immutable row"
  shows "approved svc r es rq = approved svc row es rq"
  unfolding approved_def by (simp only: immutable_eqD [OF assms])

lemma build_order_request_simps [simp]:
  "rq_symbol (build_order_request svc symb act v pr sl tp si sid) = symb"
  "rq_volume (build_order_request svc symb act v pr sl tp si sid) = v"
  "rq_price (build_order_request svc symb act v pr sl tp si sid) = pr"
  "rq_type (build_order_request svc symb act v pr sl tp si sid) = order_type_of act"
  by (simp_all add: build_order_request_def)

text \<open>The history of a sending thread approves its order.\<close>

lemma order_approved:
  assumes "after (process_signal svc row) (tr @ [s]) q" and "sends s rq"
  shows "approved svc row (own_events tr) rq" and "live_execution_allowed (es_settings svc)"
proof -
  from order_history [OF assms] obtain eid symb key eq mk v t0 t1 t2 t3 t4 t5 t6 t7 t8 t9 where
    tr: "tr = t0 @ t1 @ t2 @ t3 @ t4 @ t5 @ t6 @ t7 @ t8 @ t9"
    and 2: "after (map_symbol svc row eid) t2 (Ret (Inr symb))"
    and 3: "after (connect_account svc (sg_signal_id row) eid) t3 (Ret (Inr (key, eq)))"
    and 4: "after (market_data svc row eid symb) t4 (Ret (Inr mk))"
    and 5: "after (quote_checks svc row eid mk) t5 (Ret (Inr ()))"
    and 6: "after (count_checks svc (sg_signal_id row) eid key (mk_broker_now mk)) t6 (Ret (Inr ()))"
    and 7: "after (loss_checks svc row eid key eq (mk_broker_now mk)) t7 (Ret (Inr ()))"
    and 8: "after (size_order svc row eid symb eq mk) t8 (Ret (Inr (Some v)))"
    and 9: "after (check_order svc (sg_signal_id row) eid rq) t9 (Ret (Inr ()))"
    and rq: "rq = build_order_request svc symb (sg_action row) v (mk_entry_price mk) (sg_stop_loss row)
           (sg_take_profit row) (mk_symbol_info mk) (sg_signal_id row)"
    and live: "live_execution_allowed (es_settings svc)" by metis
  show "live_execution_allowed (es_settings svc)" by (rule live)
  obtain account where a: "E_account_info (Inr (Some account)) \<in> set (own_events tr)"
    "account_key_for account = Some key" "eq = ai_equity account"
    using connect_account_passed [OF 3] by (auto simp: tr)
  obtain tk where tk: "E_symbol_info_tick symb (Inr (Some tk)) \<in> set (own_events tr)"
    "mk_bid mk = tk_bid tk" "mk_ask mk = tk_ask tk" "mk_entry_price mk = entry_price_of (sg_action row) tk"
    using market_data_passed(2) [OF 4] by (auto simp: tr)
  obtain ps where ps: "E_positions_get (Inr (Some ps)) \<in> set (own_events tr)"
    "int (length (bridge_positions (cfg_magic_number (es_settings svc)) ps)) < cfg_max_open_positions (es_settings svc)"
    using count_checks_passed(2) [OF 6] by (auto simp: tr)
  obtain sl loss vr where v: "sg_stop_loss row = Some sl"
    "E_order_calc_profit (order_type_of (sg_action row)) symb (Fin 1) (mk_entry_price mk) sl (Inr (Some loss))
      \<in> set (own_events tr)"
    "size_volume loss eq (sg_risk_percent row)
           (dflt_value (flit (1/100)) (si_volume_min (mk_symbol_info mk)))
           (dflt_value (Fin 100) (si_volume_max (mk_symbol_info mk)))
           (dflt_value (flit (1/100)) (si_volume_step (mk_symbol_info mk))) = Inr vr"
    "vr_ok vr" "vr_volume vr = Some v"
    using size_order_passed [OF 8] by (force simp: tr)
  obtain res where "own_events t9 = [E_order_check rq (Inr (Some res))]" and s: "is_check_success (tr_retcode res)"
    using check_order_passed [OF 9] by auto
  then have c: "E_order_check rq (Inr (Some res)) \<in> set (own_events tr)" by (simp add: tr)
  have si: "E_symbol_info symb (Inr (Some (mk_symbol_info mk))) \<in> set (own_events tr)"
    using market_data_passed(1) [OF 4] by (simp add: tr)
  show "approved svc row (own_events tr) rq"
    unfolding approved_def
    using map_symbol_passed [OF 2] a tk si ps v c s quote_checks_passed [OF 5] loss_checks_passed(2) [OF 7]
    by (intro exI [of _ account] exI [of _ "mk_symbol_info mk"] exI [of _ tk] exI [of _ ps] exI [of _ sl]
        exI [of _ loss] exI [of _ vr] exI [of _ res]) (simp add: rq)
qed

subsection \<open>The invariant\<close>

text \<open>The claimed signal a row was read from.\<close>

definition stored :: "db \<Rightarrow> signal_row \<Rightarrow> bool" where
  "stored d row \<longleftrightarrow> (\<exists>r. get_signal (sg_signal_id row) d = Some r \<and> sg_status r \<noteq> PENDING
     \<and> immutable r = immutable row)"

definition valid_payloads :: "db \<Rightarrow> bool" where
  "valid_payloads d \<longleftrightarrow> (\<forall>sid r. get_signal sid d = Some r \<longrightarrow> payload_ok r)"

definition thread_ok :: "'s service \<Rightarrow> 's world \<Rightarrow> string \<times> ('s world, execution_status) prog \<Rightarrow> bool" where
  "thread_ok svc w t \<longleftrightarrow> (\<exists>row tr. sg_signal_id row = fst t \<and> stored (w_db w) row
     \<and> after (process_signal svc row) tr (snd t) \<and> set (own_events tr) \<subseteq> set (w_log w))"

definition backed :: "'s service \<Rightarrow> db \<Rightarrow> sdk_event list \<Rightarrow> order_request \<Rightarrow> bool" where
  "backed svc d es rq \<longleftrightarrow> live_execution_allowed (es_settings svc)
     \<and> (\<exists>row. stored d row \<and> approved svc row es rq)"

definition orders_inv :: "'s service \<Rightarrow> 's process \<Rightarrow> bool" where
  "orders_inv svc p \<longleftrightarrow> valid_payloads (w_db (sy_world p))
     \<and> (\<forall>t \<in> set (sy_threads p). thread_ok svc (sy_world p) t)
     \<and> (\<forall>es rq res fs. w_log (sy_world p) = es @ E_order_send rq res # fs \<longrightarrow> backed svc (w_db (sy_world p)) es rq)"

lemma payload_ok_immutable:
  assumes "immutable r = immutable row"
  shows "payload_ok r = payload_ok row"
  unfolding payload_ok_def by (simp only: immutable_eqD [OF assms])

lemma db_effect_stored:
  assumes "db_effect own d d'" and "stored d row"
  shows "stored d' row"
proof -
  from assms(2) obtain r where r: "get_signal (sg_signal_id row) d = Some r" "sg_status r \<noteq> PENDING"
    "immutable r = immutable row" by (auto simp: stored_def)
  from assms(1) have "evolves own d d'" by (simp add: db_effect_def)
  from evolves_Some [OF this r(1)] obtain r' where "get_signal (sg_signal_id row) d' = Some r'"
    "row_evolves (own (sg_signal_id row)) r r'" by blast
  with r show ?thesis unfolding stored_def row_evolves_def by (intro exI [of _ r']) auto
qed

lemma db_effect_payloads:
  assumes "db_effect own d d'" and "valid_payloads d"
  shows "valid_payloads d'"
  unfolding valid_payloads_def
proof (intro allI impI)
  fix sid r' assume r': "get_signal sid d' = Some r'"
  show "payload_ok r'"
  proof (cases "get_signal sid d")
    case None
    with assms(1) r' show ?thesis by (auto simp: db_effect_def)
  next
    case (Some r)
    from assms(1) have "evolves own d d'" by (simp add: db_effect_def)
    from evolves_Some [OF this Some] r' have "immutable r' = immutable r" by (auto simp: row_evolves_def)
    then show ?thesis using Some assms(2) payload_ok_immutable unfolding valid_payloads_def by blast
  qed
qed

lemma db_effect_thread:
  assumes "db_effect own (w_db w) (w_db w')" and "w_log w' = w_log w @ es" and "thread_ok svc w t"
  shows "thread_ok svc w' t"
proof -
  from assms(3) obtain row tr where "sg_signal_id row = fst t" "stored (w_db w) row"
    "after (process_signal svc row) tr (snd t)" "set (own_events tr) \<subseteq> set (w_log w)"
    by (auto simp: thread_ok_def)
  moreover from this(4) have "set (own_events tr) \<subseteq> set (w_log w')" using assms(2) by auto
  ultimately show ?thesis unfolding thread_ok_def using db_effect_stored [OF assms(1)] by blast
qed

lemma db_effect_backed: "db_effect own d d' \<Longrightarrow> backed svc d es rq \<Longrightarrow> backed svc d' es rq"
  unfolding backed_def using db_effect_stored by blast

text \<open>An extension of the log without orders, and with one order at its end.\<close>

lemma order_sends_split:
  "es @ E_order_send rq res # fs = xs @ ys \<Longrightarrow> order_sends ys = [] \<Longrightarrow>
   \<exists>gs. xs = es @ E_order_send rq res # gs"
  by (auto simp: append_eq_append_conv2 Cons_eq_append_conv)

lemma orders_inv_effect:
  assumes inv: "orders_inv svc p" and eff: "db_effect own (w_db (sy_world p)) (w_db (sy_world q))"
    and l: "w_log (sy_world q) = w_log (sy_world p) @ es" and n: "order_sends es = []"
    and th: "\<And>t. t \<in> set (sy_threads q) \<Longrightarrow> t \<in> set (sy_threads p) \<or> thread_ok svc (sy_world q) t"
  shows "orders_inv svc q"
  unfolding orders_inv_def
proof (intro conjI allI impI ballI)
  show "valid_payloads (w_db (sy_world q))" using inv eff db_effect_payloads by (auto simp: orders_inv_def)
  show "thread_ok svc (sy_world q) t" if "t \<in> set (sy_threads q)" for t
    using th [OF that] inv db_effect_thread [OF eff l, of svc t] by (auto simp: orders_inv_def)
  fix gs rq res fs assume "w_log (sy_world q) = gs @ E_order_send rq res # fs"
  with l n order_sends_split obtain hs where "w_log (sy_world p) = gs @ E_order_send rq res # hs" by metis
  with inv eff show "backed svc (w_db (sy_world q)) gs rq" by (auto simp: orders_inv_def intro: db_effect_backed)
qed

lemma orders_inv_thread_step:
  assumes inv: "orders_inv svc p" and th: "sy_threads p = ts @ (sid, Atomic f) # us"
    and f: "f (sy_world p) = (q, w)"
  shows "orders_inv svc (p\<lparr>sy_world := w, sy_threads := ts @ (sid, q) # us\<rparr>)"
proof -
  let ?w = "sy_world p" and ?q = "p\<lparr>sy_world := w, sy_threads := ts @ (sid, q) # us\<rparr>"
  from inv th have "thread_ok svc ?w (sid, Atomic f)" by (auto simp: orders_inv_def)
  then obtain row tr where row: "sg_signal_id row = sid" "stored (w_db ?w) row"
    and tr: "after (process_signal svc row) tr (Atomic f)" "set (own_events tr) \<subseteq> set (w_log ?w)"
    by (auto simp: thread_ok_def)
  have next_q: "after (process_signal svc row) (tr @ [(?w, w)]) q" using tr(1) f by (auto simp: after_snoc)
  from conforms_after [OF tr(1) sends_once_process_signal] row(1) obtain may may' where
    "send_monitor sid may ?w w may'" unfolding conforms_Atomic using f by (metis snd_conv)
  then have eff: "db_effect (\<lambda>s. s = sid) (w_db ?w) (w_db w)"
    and ext: "(\<exists>es. w_log w = w_log ?w @ es \<and> order_sends es = []) \<or> (\<exists>rq. sends (?w, w) rq)"
    by (auto simp: send_monitor_def sends_def)
  have own: "thread_ok svc w (sid, q)" if "\<exists>es. w_log w = w_log ?w @ es"
    unfolding thread_ok_def using row next_q tr(2) that db_effect_stored [OF eff row(2)]
    by (intro exI [of _ row] exI [of _ "tr @ [(?w, w)]"]) auto
  from ext show ?thesis
  proof (elim disjE exE conjE)
    fix es assume l: "w_log w = w_log ?w @ es" "order_sends es = []"
    show ?thesis
      by (rule orders_inv_effect [OF inv, of "\<lambda>s. s = sid" _ es]) (use eff l th own in auto)
  next
    fix rq assume s: "sends (?w, w) rq"
    then obtain res where l: "w_log w = w_log ?w @ [E_order_send rq res]" by (auto simp: sends_def)
    have b: "backed svc (w_db w) (w_log ?w) rq"
      unfolding backed_def using order_approved [OF next_q s] approved_mono [OF _ tr(2)]
        db_effect_stored [OF eff row(2)] by blast
    show ?thesis
      unfolding orders_inv_def
    proof (intro conjI allI impI ballI)
      show "valid_payloads (w_db (sy_world ?q))"
        using inv db_effect_payloads [OF eff] by (simp add: orders_inv_def)
      show "thread_ok svc (sy_world ?q) t" if "t \<in> set (sy_threads ?q)" for t
        using that own l inv th db_effect_thread [OF eff l, of svc t] by (auto simp: orders_inv_def)
      fix gs rq' res' fs assume "w_log (sy_world ?q) = gs @ E_order_send rq' res' # fs"
      with l have "w_log ?w @ [E_order_send rq res] = gs @ E_order_send rq' res' # fs" by simp
      then consider "gs = w_log ?w" "rq' = rq" | hs where "w_log ?w = gs @ E_order_send rq' res' # hs"
        by (auto simp: append_eq_append_conv2 Cons_eq_append_conv append_eq_Cons_conv)
      then show "backed svc (w_db (sy_world ?q)) gs rq'"
      proof cases
        case 1
        with b show ?thesis by simp
      next
        case (2 hs)
        then have "backed svc (w_db ?w) gs rq'" using inv unfolding orders_inv_def by blast
        then show ?thesis using db_effect_backed [OF eff] by simp
      qed
    qed
  qed
qed

lemma orders_inv_claimed:
  assumes ok: "db_ok (w_db (sy_world p))" and inv: "orders_inv svc p"
    and c: "claim now (sy_world p) = (Some row', w)"
  shows "orders_inv svc (p\<lparr>sy_world := w,
           sy_threads := (sg_signal_id row', process_signal svc row') # sy_threads p\<rparr>)"
proof -
  let ?d = "w_db (sy_world p)"
  obtain row t where r: "row' = claim_row t row" "get_signal (sg_signal_id row) ?d = Some row"
      "sg_status row = PENDING" "w_log w = w_log (sy_world p)"
    and g: "\<And>sid. get_signal sid (w_db w) =
              (if sid = sg_signal_id row then Some (claim_row t row) else get_signal sid ?d)"
    using claim_Some [OF ok c] by metis
  have st: "stored (w_db w) x" if "stored ?d x" for x using that r(2,3) unfolding stored_def g by auto
  have new: "thread_ok svc w (sg_signal_id row', process_signal svc row')"
    unfolding thread_ok_def stored_def
    by (intro exI [of _ row'] exI [of _ "[]"]) (simp add: g r(1))
  have old: "thread_ok svc w x" if "thread_ok svc (sy_world p) x" for x
    using that st r(4) unfolding thread_ok_def by metis
  have pay: "valid_payloads (w_db w)"
    using inv r(2) payload_ok_immutable [of "claim_row t row" row]
    unfolding orders_inv_def valid_payloads_def g by simp
  have bk: "backed svc (w_db w) es rq" if "w_log w = es @ E_order_send rq res # fs" for es rq res fs
    using inv that st unfolding orders_inv_def backed_def r(4) by blast
  show ?thesis
    using inv pay new old bk unfolding orders_inv_def by simp
qed

lemma orders_inv_quiet:
  assumes inv: "orders_inv svc p" and step: "quiet_step own (sy_world p) (sy_world q)"
    and th: "set (sy_threads q) \<subseteq> set (sy_threads p)"
  shows "orders_inv svc q"
proof -
  from step obtain es where "db_effect own (w_db (sy_world p)) (w_db (sy_world q))"
    "w_log (sy_world q) = w_log (sy_world p) @ es" "order_sends es = []" by (auto simp: effect_step_def)
  with orders_inv_effect [OF inv] th show ?thesis by blast
qed

lemma quiet_step_same [simp]: "w_db w' = w_db w \<Longrightarrow> w_log w' = w_log w \<Longrightarrow> quiet_step own w w'"
  by (simp add: effect_step_def)

lemma orders_inv_step:
  assumes "step svc p q" and "process_inv p" and "orders_inv svc p"
  shows "orders_inv svc q"
  using assms
proof (induction rule: step.induct)
  case (handler_step p f q w)
  then have "quiet (\<lambda>_. True) (Atomic f)" by (simp add: process_inv_def)
  then have "quiet_step (\<lambda>_. True) (sy_world p) w"
    using handler_step.hyps by (auto simp: quiet_Atomic dest: spec [of _ "sy_world p"])
  then show ?case by (intro orders_inv_quiet [OF handler_step.prems(2)]) auto
next
  case (idle p w)
  have "w = sy_world p" by (rule process_inv_idle [OF idle.prems(1) idle.hyps(3)])
  then show ?case by (intro orders_inv_quiet [OF idle.prems(2), of "\<lambda>_. False"]) simp_all
next
  case (claimed p row w)
  then show ?case by (intro orders_inv_claimed) (simp_all add: process_inv_def)
next
  case (thread_step p ts sid f us q w)
  then show ?case by (intro orders_inv_thread_step)
qed (erule orders_inv_quiet [where own = "\<lambda>_. False"]; auto simp: reset_gateway_def)+

theorem reachable_orders: "reachable svc p \<Longrightarrow> orders_inv svc p"
proof (induction rule: reachable.induct)
  case (init s)
  have "get_signal sid empty_db = None" for sid
    by (simp add: get_signal_def select_one_def empty_db_def)
  then show ?case by (simp add: orders_inv_def initial_def valid_payloads_def)
next
  case (step p q)
  show ?case by (rule orders_inv_step [OF step.hyps(2) reachable_inv [OF step.hyps(1)] step.IH])
qed

text \<open>Every order in the log of a reachable process.\<close>

lemma reachable_backed:
  assumes "reachable svc p" and "w_log (sy_world p) = es @ E_order_send rq res # fs"
  obtains r where "live_execution_allowed (es_settings svc)"
    and "get_signal (sg_signal_id r) (w_db (sy_world p)) = Some r" and "sg_status r \<noteq> PENDING"
    and "payload_ok r" and "approved svc r es rq"
proof -
  have inv: "orders_inv svc p" by (rule reachable_orders [OF assms(1)])
  then have "backed svc (w_db (sy_world p)) es rq" using assms(2) by (auto simp: orders_inv_def)
  then obtain row r where live: "live_execution_allowed (es_settings svc)" and a: "approved svc row es rq"
    and r: "get_signal (sg_signal_id row) (w_db (sy_world p)) = Some r" "sg_status r \<noteq> PENDING"
      "immutable r = immutable row"
    by (auto simp: backed_def stored_def)
  have "sg_signal_id row = sg_signal_id r" using immutable_eqD(1) [OF r(3)] by simp
  moreover have "payload_ok r" using inv r(1) unfolding orders_inv_def valid_payloads_def by blast
  moreover have "approved svc r es rq" using approved_immutable [OF r(3), of svc es rq] a by blast
  ultimately show thesis using that [of r] live r by simp
qed

subsection \<open>The risk of an approved order\<close>

text \<open>A finite volume was computed with a positive finite vstep.\<close>

lemma size_volume_step:
  assumes m: "moderate eq" "moderate rp" "moderate \<bar>l\<bar>"
    and v: "size_volume (Fin l) (Fin eq) (Fin rp) vmin vmax vstep = Inr v" "vr_ok v" "vr_volume v = Some (Fin x)"
  shows "\<exists>s. vstep = Fin s \<and> 0 < s"
proof -
  from size_volume_ok [OF v(1,2)] obtain raw ratio steps fsteps vol where
    raw: "bindE (fdiv (Fin rp) (Fin 100)) (\<lambda>f. fdiv (fmul (Fin eq) f) (Fin \<bar>l\<bar>)) = Inr raw"
    and p: "\<not> fle vstep (Fin 0)" and q: "fdiv raw vstep = Inr ratio" "py_floor ratio = Inr steps"
      "float_of_int steps = Inr fsteps"
    and vol: "vol = round_digits 8 (fmul fsteps vstep)" "Fin x = fmin vol vmax"
    using v(3) by auto
  obtain r where r: "raw = Fin r" using raw_volume_moderate [OF m raw] by blast
  show ?thesis
  proof (cases vstep)
    case PInf
    then have "fsteps = Fin 0" using q r by (auto simp: float_of_int_def)
    then have "vol = NaN" using vol(1) PInf by (simp add: signed_inf_def)
    then show ?thesis using vol(2) by (cases vmax) (simp_all add: fmin_def)
  qed (use p q r in auto)
qed

lemma capped_risk_bound:
  assumes m: "moderate eq" "moderate rp" "moderate \<bar>l\<bar>"
    and cap: "rc_ok (check_risk_percent (Fin rp) (Fin mr))"
    and v: "size_volume (Fin l) (Fin eq) (Fin rp) vmin vmax vstep = Inr v" "vr_ok v" "vr_volume v = Some (Fin x)"
  shows "x * \<bar>l\<bar> \<le> eq * mr / 100 * (1 + 1 / 2 ^ 50) + \<bar>l\<bar> / 10 ^ 8"
proof -
  obtain s where s: "vstep = Fin s" "0 < s" using size_volume_step [OF m v] by blast
  have "rp \<le> mr" using cap by (simp add: check_risk_percent_ok)
  then have "eq * rp / 100 * (1 + 1 / 2 ^ 50) \<le> eq * mr / 100 * (1 + 1 / 2 ^ 50)"
    using moderate_pos [OF m(1)] by (intro mult_right_mono divide_right_mono mult_left_mono) auto
  moreover have "x * \<bar>l\<bar> \<le> eq * rp / 100 * (1 + 1 / 2 ^ 50) + \<bar>l\<bar> / 10 ^ 8"
    using v s by (intro volume_risk_bound [OF m s(2)]) auto
  ultimately show ?thesis by linarith
qed

lemma order_sends_Cons:
  assumes "order_sends es \<noteq> []"
  obtains es1 rq res es2 where "es = es1 @ E_order_send rq res # es2"
proof -
  from assms obtain e where e: "e \<in> set es" "sent_request e \<noteq> []" by (auto simp: order_sends_def)
  from e(2) obtain rq res where "e = E_order_send rq res" by (cases e) auto
  then show thesis using that e(1) by (metis in_set_conv_decomp)
qed

end
