(* ===== verification/Settle.thy ===== *)
theory Settle
  imports Clearance
begin

section \<open>How the pipeline ends\<close>

text \<open>
  Every normal end of \<open>process_signal\<close> goes through \<open>finish\<close>: the last two writes of the thread
  are the execution row and then the signal row, both with the status returned, and nothing
  before them changed the status of the signal.
\<close>

subsection \<open>Steps that leave a status alone\<close>

definition calm_step :: "string \<Rightarrow> 's world \<Rightarrow> 's world \<Rightarrow> bool" where
  "calm_step sid w w' \<longleftrightarrow> (\<forall>r. get_signal sid (w_db w) = Some r \<longrightarrow>
     (\<exists>r'. get_signal sid (w_db w') = Some r' \<and> sg_status r' = sg_status r))"

definition calm :: "string \<Rightarrow> ('s world, 'a) prog \<Rightarrow> bool" where
  "calm sid p = guarantees (calm_step sid) p"

definition calm_trace :: "string \<Rightarrow> 's world trace \<Rightarrow> bool" where
  "calm_trace sid tr \<longleftrightarrow> (\<forall>(w, w') \<in> set tr. calm_step sid w w')"

lemma calm_trace_simps [simp]:
  "calm_trace sid []" "calm_trace sid (tr @ tr') \<longleftrightarrow> calm_trace sid tr \<and> calm_trace sid tr'"
  "calm_trace sid (s # tr) \<longleftrightarrow> calm_step sid (fst s) (snd s) \<and> calm_trace sid tr"
  by (auto simp: calm_trace_def)

lemma calm_after: "calm sid p \<Longrightarrow> after p tr q \<Longrightarrow> calm_trace sid tr"
  unfolding calm_def calm_trace_def by (blast dest: guarantees_after)

lemma quiet_step_calm: "quiet_step (\<lambda>_. False) w w' \<Longrightarrow> calm_step sid w w'"
  using evolves_Some [OF quiet_step_evolves, of "\<lambda>_. False" w w' sid]
  by (auto simp: calm_step_def row_evolves_def)

lemma calm_quiet: "quiet (\<lambda>_. False) p \<Longrightarrow> calm sid p"
  unfolding calm_def effects_def guarantees_def
  by (erule conforms_weaken) (rule quiet_step_calm)

lemma calm_set_symbol: "calm sid (db_write_now now (\<lambda>t. set_symbol_normalized t sid' nrm))"
  by (auto simp: calm_def db_write_now_def db_step_now_def guarantees_atomically calm_step_def Let_def
      set_symbol_normalized_def get_signal_update_where split: prod.split)

lemma calm_sdk_call: "calm sid (sdk_call ev f)"
  by (auto simp: calm_def sdk_call_def guarantees_atomically calm_step_def Let_def split: prod.split)

subsection \<open>Stages and endings\<close>

text \<open>A history that ends with the two writes of \<open>finish\<close>.\<close>

text \<open>The fields a caller of \<open>finish\<close> may add: not the outcome itself.\<close>

definition extra_field :: "execution_field \<Rightarrow> bool" where
  "extra_field a \<longleftrightarrow> (case a of F_status _ \<Rightarrow> False | F_finished_at _ \<Rightarrow> False
     | F_result_message _ \<Rightarrow> False | _ \<Rightarrow> True)"

definition finish_writes ::
  "string \<Rightarrow> int \<Rightarrow> execution_status \<Rightarrow> reason option \<Rightarrow> 's world trace \<Rightarrow> bool"
where
  "finish_writes sid eid st msg steps \<longleftrightarrow> (\<exists>v t extra w t' s. list_all extra_field extra \<and> steps =
     [(v, v\<lparr>w_db := set_execution eid
              ([F_status st, F_finished_at t, F_result_message msg] @ extra) (w_db v)\<rparr>),
      (w, w\<lparr>w_ext := s, w_db := update_signal_status t' sid st
              (if is_rejection st then msg else None) None (w_db w)\<rparr>)])"

definition finishes :: "string \<Rightarrow> int \<Rightarrow> execution_status \<Rightarrow> 's world trace \<Rightarrow> bool" where
  "finishes sid eid st tr \<longleftrightarrow> st \<noteq> PENDING \<and> st \<noteq> PROCESSING
     \<and> (\<exists>tr' msg steps. tr = tr' @ steps \<and> calm_trace sid tr' \<and> finish_writes sid eid st msg steps)"

lemma finish_writes_last:
  "list_all extra_field extra \<Longrightarrow> finish_writes sid eid st msg
     [(v, v\<lparr>w_db := set_execution eid (F_status st # F_finished_at t # F_result_message msg # extra) (w_db v)\<rparr>),
      (w, w\<lparr>w_ext := s, w_db := update_signal_status t' sid st
              (if is_rejection st then msg else None) None (w_db w)\<rparr>)]"
  unfolding finish_writes_def by (simp only: append.simps) blast

lemma finishes_append: "calm_trace sid tr \<Longrightarrow> finishes sid eid st tr' \<Longrightarrow> finishes sid eid st (tr @ tr')"
  unfolding finishes_def by (metis append_assoc calm_trace_simps(2))

text \<open>An exception that comes out of the pipeline leaves the status as it was.\<close>

definition raise_ok :: "string \<Rightarrow> ('s world, 'a) prog \<Rightarrow> bool" where
  "raise_ok sid p \<longleftrightarrow> (\<forall>tr e. after p tr (Throw e) \<longrightarrow> calm_trace sid tr)"

definition stage_ok :: "string \<Rightarrow> int \<Rightarrow> ('s world, execution_status + 'a) prog \<Rightarrow> bool" where
  "stage_ok sid eid p \<longleftrightarrow> raise_ok sid p \<and> (\<forall>tr r. after p tr (Ret r) \<longrightarrow>
     (case r of Inl st \<Rightarrow> finishes sid eid st tr | Inr _ \<Rightarrow> calm_trace sid tr))"

definition ending_ok :: "string \<Rightarrow> int \<Rightarrow> ('a \<Rightarrow> execution_status) \<Rightarrow> ('s world, 'a) prog \<Rightarrow> bool" where
  "ending_ok sid eid g p \<longleftrightarrow> raise_ok sid p \<and> (\<forall>tr a. after p tr (Ret a) \<longrightarrow> finishes sid eid (g a) tr)"

abbreviation merge_sum :: "execution_status + execution_status \<Rightarrow> execution_status" where
  "merge_sum r \<equiv> (case r of Inl st \<Rightarrow> st | Inr st \<Rightarrow> st)"

named_theorems stage_intros

lemma raise_ok_simps [simp]: "raise_ok sid (Ret a)" "raise_ok sid (Throw e)"
  by (simp_all add: raise_ok_def)

lemma raise_ok_calm: "calm sid p \<Longrightarrow> raise_ok sid p"
  unfolding raise_ok_def by (blast intro: calm_after)

lemma raises_bindP: "after (bindP m k) tr (Throw e) \<longleftrightarrow> after m tr (Throw e)
    \<or> (\<exists>a tr1 tr2. tr = tr1 @ tr2 \<and> after m tr1 (Ret a) \<and> after (k a) tr2 (Throw e))"
proof -
  have "Throw e = bindP m' k \<longleftrightarrow> m' = Throw e \<or> (\<exists>a. m' = Ret a \<and> k a = Throw e)" for m'
    by (cases m') auto
  then show ?thesis unfolding after_bindP by (metis after.here append_Nil2)
qed

lemma raise_ok_bindP:
  assumes "raise_ok sid m" and "\<And>tr a. after m tr (Ret a) \<Longrightarrow> raise_ok sid (k a) \<and> calm_trace sid tr"
  shows "raise_ok sid (bindP m k)"
  using assms unfolding raise_ok_def raises_bindP by fastforce

lemma raise_ok_after_calm: "calm sid m \<Longrightarrow> (\<And>a. raise_ok sid (k a)) \<Longrightarrow> raise_ok sid (bindP m k)"
  by (intro raise_ok_bindP) (auto intro: raise_ok_calm calm_after)

lemma raise_ok_then_Ret: "raise_ok sid m \<Longrightarrow> raise_ok sid (bindP m (\<lambda>a. Ret (h a)))"
  unfolding raise_ok_def raises_bindP by simp

lemma raise_ok_bindR:
  assumes "stage_ok sid eid m" and "\<And>a. raise_ok sid (k a)"
  shows "raise_ok sid (bindR m k)"
  unfolding raise_ok_def bindR_def raises_bindP
proof (intro allI impI, elim disjE exE conjE)
  fix tr e assume "after m tr (Throw e)"
  then show "calm_trace sid tr" using assms(1) by (auto simp: stage_ok_def raise_ok_def)
next
  fix tr e res tr1 tr2
  assume *: "tr = tr1 @ tr2" "after m tr1 (Ret res)"
    "after (case res of Inl st \<Rightarrow> Ret (Inl st) | Inr a \<Rightarrow> k a) tr2 (Throw e)"
  then obtain a where a: "res = Inr a" "after (k a) tr2 (Throw e)" by (cases res) auto
  then have "calm_trace sid tr1" using *(2) assms(1) by (fastforce simp: stage_ok_def)
  then show "calm_trace sid tr" using *(1) a(2) assms(2) by (auto simp: raise_ok_def)
qed

lemma stage_ok_Inr [stage_intros]: "stage_ok sid eid (Ret (Inr a))"
  by (simp add: stage_ok_def)

lemma stage_ok_Throw [stage_intros]: "stage_ok sid eid (Throw e)"
  by (simp add: stage_ok_def)

lemma stage_ok_bindR [stage_intros]:
  assumes "stage_ok sid eid m" and "\<And>a. stage_ok sid eid (k a)"
  shows "stage_ok sid eid (bindR m k)"
  unfolding stage_ok_def
proof (intro conjI)
  show "raise_ok sid (bindR m k)" using assms(2) by (intro raise_ok_bindR [OF assms(1)]) (simp add: stage_ok_def)
  show "\<forall>tr r. after (bindR m k) tr (Ret r) \<longrightarrow>
     (case r of Inl st \<Rightarrow> finishes sid eid st tr | Inr _ \<Rightarrow> calm_trace sid tr)"
    unfolding bindR_def returns_bindP
  proof (intro allI impI, elim exE conjE)
    fix tr r res tr1 tr2
    assume *: "tr = tr1 @ tr2" "after m tr1 (Ret res)"
      "after (case res of Inl st \<Rightarrow> Ret (Inl st) | Inr a \<Rightarrow> k a) tr2 (Ret r)"
    show "case r of Inl st \<Rightarrow> finishes sid eid st tr | Inr _ \<Rightarrow> calm_trace sid tr"
    proof (cases res)
      case (Inl st)
      with * assms(1) show ?thesis by (fastforce simp: stage_ok_def)
    next
      case (Inr a)
      with * assms have "calm_trace sid tr1"
        and "case r of Inl st \<Rightarrow> finishes sid eid st tr2 | Inr _ \<Rightarrow> calm_trace sid tr2"
        by (fastforce simp: stage_ok_def)+
      with *(1) show ?thesis by (cases r) (auto intro: finishes_append)
    qed
  qed
qed

lemma stage_ok_bindP [stage_intros]:
  assumes "calm sid m" and "\<And>a. stage_ok sid eid (k a)"
  shows "stage_ok sid eid (bindP m k)"
  unfolding stage_ok_def
proof (intro conjI)
  show "raise_ok sid (bindP m k)"
    using assms(2) by (intro raise_ok_bindP raise_ok_calm [OF assms(1)]) (auto simp: stage_ok_def calm_after [OF assms(1)])
  show "\<forall>tr r. after (bindP m k) tr (Ret r) \<longrightarrow>
     (case r of Inl st \<Rightarrow> finishes sid eid st tr | Inr _ \<Rightarrow> calm_trace sid tr)"
    unfolding returns_bindP
  proof (intro allI impI, elim exE conjE)
    fix tr r a tr1 tr2
    assume *: "tr = tr1 @ tr2" "after m tr1 (Ret a)" "after (k a) tr2 (Ret r)"
    have "calm_trace sid tr1" by (rule calm_after [OF assms(1) *(2)])
    moreover have "case r of Inl st \<Rightarrow> finishes sid eid st tr2 | Inr _ \<Rightarrow> calm_trace sid tr2"
      using *(3) assms(2) by (auto simp: stage_ok_def)
    ultimately show "case r of Inl st \<Rightarrow> finishes sid eid st tr | Inr _ \<Rightarrow> calm_trace sid tr"
      using *(1) by (cases r) (auto intro: finishes_append)
  qed
qed

lemma ending_ok_bindP:
  assumes "calm sid m" and "\<And>a. ending_ok sid eid g (k a)"
  shows "ending_ok sid eid g (bindP m k)"
  unfolding ending_ok_def
proof (intro conjI)
  show "raise_ok sid (bindP m k)"
    using assms(2) by (intro raise_ok_bindP raise_ok_calm [OF assms(1)]) (auto simp: ending_ok_def calm_after [OF assms(1)])
  show "\<forall>tr a. after (bindP m k) tr (Ret a) \<longrightarrow> finishes sid eid (g a) tr"
    using assms(2) calm_after [OF assms(1)]
    unfolding ending_ok_def returns_bindP by (auto intro: finishes_append)
qed

lemma ending_ok_bindR:
  assumes "stage_ok sid eid m" and "\<And>a. ending_ok sid eid merge_sum (k a)"
  shows "ending_ok sid eid merge_sum (bindR m k)"
  unfolding ending_ok_def
proof (intro conjI)
  show "raise_ok sid (bindR m k)" using assms(2) by (intro raise_ok_bindR [OF assms(1)]) (simp add: ending_ok_def)
  show "\<forall>tr a. after (bindR m k) tr (Ret a) \<longrightarrow> finishes sid eid (merge_sum a) tr"
    unfolding bindR_def returns_bindP
  proof (intro allI impI, elim exE conjE)
    fix tr r res tr1 tr2
    assume *: "tr = tr1 @ tr2" "after m tr1 (Ret res)"
      "after (case res of Inl st \<Rightarrow> Ret (Inl st) | Inr a \<Rightarrow> k a) tr2 (Ret r)"
    then show "finishes sid eid (merge_sum r) tr"
      using assms by (cases res) (fastforce simp: stage_ok_def ending_ok_def intro: finishes_append)+
  qed
qed

lemma ending_ok_map:
  "ending_ok sid eid (\<lambda>a. g (h a)) m \<Longrightarrow> ending_ok sid eid g (bindP m (\<lambda>a. Ret (h a)))"
  unfolding ending_ok_def returns_bindP by (auto intro: raise_ok_then_Ret)

lemma stage_ok_if [stage_intros]:
  "(b \<Longrightarrow> stage_ok sid eid p) \<Longrightarrow> (\<not> b \<Longrightarrow> stage_ok sid eid q) \<Longrightarrow> stage_ok sid eid (if b then p else q)"
  by simp

lemma stage_ok_option [stage_intros]:
  "stage_ok sid eid p \<Longrightarrow> (\<And>x. stage_ok sid eid (k x)) \<Longrightarrow>
   stage_ok sid eid (case v of None \<Rightarrow> p | Some x \<Rightarrow> k x)"
  by (cases v) simp_all

lemma raises_atomically:
  "after (atomically f) tr (Throw e) \<longleftrightarrow> (\<exists>w. tr = [(w, snd (f w))] \<and> fst (f w) = Inl e)"
proof -
  have "Throw e = liftE r \<longleftrightarrow> r = Inl e" for r :: "'b result" by (cases r) auto
  moreover have "Throw e \<noteq> atomically f" by (simp add: atomically_def)
  ultimately show ?thesis by (auto simp: after_atomically)
qed

lemma ending_ok_finish:
  assumes "st \<noteq> PENDING" and "st \<noteq> PROCESSING" and "list_all extra_field extra"
  shows "ending_ok sid eid (\<lambda>st. st) (finish svc sid eid st msg extra)"
  unfolding ending_ok_def
proof (intro conjI allI impI)
  show "raise_ok sid (finish svc sid eid st msg extra)"
    unfolding finish_def
  proof (rule raise_ok_after_calm [OF _ raise_ok_after_calm])
    show "calm sid (utcnow (es_now svc))" "calm sid (db_step (update_execution eid as))" for as
      by (rule calm_quiet; intro quiet_intros)+
    show "raise_ok sid (bindP (db_write_now (es_now svc) f) (\<lambda>_. Ret st))" for f
      by (simp add: raise_ok_def db_write_now_def db_step_now_def raises_bindP raises_atomically Let_def case_prod_beta)
  qed
  fix tr and a assume r: "after (finish svc sid eid st msg extra) tr (Ret a)"
  then have "list_all bindable extra" by (auto simp: finish_def returns split: if_splits)
  with r obtain u s0 v us w s us' where
    "tr = [(u, u\<lparr>w_ext := s0\<rparr>)] @ [(v, v\<lparr>w_db := set_execution eid
          (F_status st # F_finished_at (isoformat (utc_of_us us)) # F_result_message msg # extra) (w_db v)\<rparr>),
        (w, w\<lparr>w_ext := s, w_db := update_signal_status (isoformat (utc_of_us us')) sid st
              (if is_rejection st then msg else None) None (w_db w)\<rparr>)]" (is "_ = _ @ ?steps")
    and "a = st"
    by (simp add: finish_def returns) (metis append.simps)
  moreover have "finish_writes sid eid st msg ?steps" by (rule finish_writes_last [OF assms(3)])
  moreover have "calm_trace sid [(u, u\<lparr>w_ext := s0\<rparr>)]" by (simp add: calm_step_def)
  ultimately show "finishes sid eid a tr" using assms unfolding finishes_def by blast
qed

lemma stage_ok_return_early:
  "ending_ok sid eid (\<lambda>st. st) m \<Longrightarrow> stage_ok sid eid (return_early m)"
  unfolding stage_ok_def ending_ok_def return_early_def returns_bindP by (auto intro: raise_ok_then_Ret)

lemma stage_ok_finish [stage_intros]:
  "st \<noteq> PENDING \<Longrightarrow> st \<noteq> PROCESSING \<Longrightarrow> list_all extra_field extra \<Longrightarrow>
   stage_ok sid eid (return_early (finish svc sid eid st msg extra))"
  by (intro stage_ok_return_early ending_ok_finish)

lemma stage_ok_require:
  "settles c \<Longrightarrow> stage_ok sid eid (require_ok svc sid eid c)"
  unfolding require_ok_def settles_def
  by (auto intro!: stage_intros split: option.split)

lemma stage_ok_bind_liftE [stage_intros]:
  "(\<And>a. r = Inr a \<Longrightarrow> stage_ok sid eid (k a)) \<Longrightarrow> stage_ok sid eid (bindP (liftE r) k)"
  by (cases r) (simp_all add: stage_ok_Throw)

lemma calm_bindP: "calm sid m \<Longrightarrow> (\<And>a. calm sid (k a)) \<Longrightarrow> calm sid (bindP m k)"
  unfolding calm_def by (rule guarantees_bindP)

subsection \<open>The stages of the pipeline\<close>

lemma calm_update_execution: "calm sid (db_step (update_execution eid as))"
  by (rule calm_quiet) (intro quiet_intros)

lemma calm_intros:
  "calm sid (utcnow now)" "calm sid (ensure_connected svc)" "calm sid (gw_account_info m)"
  "calm sid (gw_ensure_symbol m s)" "calm sid (gw_symbol_info_tick m s)" "calm sid (gw_server_time m s)"
  "calm sid (db_read f)" "calm sid (gw_positions_get m)" "calm sid (gw_last_error m)" "calm sid (gw_order_check m rq)"
  "calm sid (calculate_risk_based_volume m symb act e sl eq rp vmin vmax vstep)" "calm sid (Ret a)"
  "calm sid (open_execution svc row)"
  by (rule calm_quiet; intro quiet_intros)+

lemma calm_set_baseline: "calm sid (db_step_now now (\<lambda>t. set_daily_loss_baseline t k day eq))"
  by (rule calm_quiet) (intro quiet.touch_db_step_now db_effect_executions)

lemma calm_stored_baseline:
  "calm sid (case stored of Some b \<Rightarrow> Ret b
     | None \<Rightarrow> bindP (db_step_now now (\<lambda>t. set_daily_loss_baseline t k day eq)) (\<lambda>_. Ret eq))"
  by (cases stored) (simp_all add: calm_intros calm_bindP calm_set_baseline)

lemma calm_gw_order_send: "calm sid (gw_order_send m rq)"
  by (cases m) (simp_all add: gw_order_send_def calm_intros calm_sdk_call)

lemmas calm_rules = calm_intros calm_update_execution calm_set_symbol calm_stored_baseline calm_gw_order_send

lemma stage_ok_screen: "stage_ok (sg_signal_id row) eid (screen_signal svc row eid)"
  unfolding screen_signal_def Let_def
  by (intro stage_intros stage_ok_require calm_rules) simp_all

lemma stage_ok_map_symbol: "stage_ok (sg_signal_id row) eid (map_symbol svc row eid)"
  unfolding map_symbol_def by (intro stage_intros calm_rules) simp_all

lemma stage_ok_connect: "stage_ok sid eid (connect_account svc sid eid)"
  unfolding connect_account_def by (intro stage_intros calm_rules) simp_all

lemma stage_ok_market: "stage_ok (sg_signal_id row) eid (market_data svc row eid symb)"
  unfolding market_data_def Let_def by (intro stage_intros calm_rules) simp_all

lemma stage_ok_quote: "stage_ok (sg_signal_id row) eid (quote_checks svc row eid mk)"
  unfolding quote_checks_def Let_def
  by (intro stage_ok_bindR stage_ok_bind_liftE stage_ok_require) auto

lemma stage_ok_count: "stage_ok sid eid (count_checks svc sid eid key t)"
  unfolding count_checks_def Let_def by (intro stage_intros stage_ok_require calm_rules) simp_all

lemma stage_ok_loss: "stage_ok (sg_signal_id row) eid (loss_checks svc row eid key eq t)"
  unfolding loss_checks_def Let_def
  by (intro stage_ok_bindP [of _ "db_read f" for f] stage_ok_bindP [OF calm_stored_baseline]
      stage_ok_bindR stage_ok_bind_liftE stage_ok_require calm_rules) auto

lemma stage_ok_size: "stage_ok (sg_signal_id row) eid (size_order svc row eid symb eq mk)"
  unfolding size_order_def Let_def by (intro stage_intros calm_rules) simp_all

lemma stage_ok_check: "stage_ok sid eid (check_order svc sid eid rq)"
  unfolding check_order_def Let_def by (intro stage_intros calm_rules) simp_all

lemma ending_ok_send: "ending_ok sid eid (\<lambda>st. st) (send_order svc sid eid rq)"
  unfolding send_order_def Let_def
  by (intro ending_ok_bindP calm_rules) (auto intro!: ending_ok_finish simp: extra_field_def split: option.split)

lemma ending_ok_prod: "(\<And>x y. ending_ok sid eid g (k x y)) \<Longrightarrow> ending_ok sid eid g (case v of (x, y) \<Rightarrow> k x y)"
  by (cases v) simp

lemma ending_ok_bind_liftE:
  "(\<And>a. ending_ok sid eid g (k a)) \<Longrightarrow> ending_ok sid eid g (bindP (liftE r) k)"
  by (cases r) (simp_all add: ending_ok_def)

lemma ending_ok_if:
  "ending_ok sid eid g p \<Longrightarrow> ending_ok sid eid g q \<Longrightarrow> ending_ok sid eid g (if b then p else q)"
  by simp

lemma ending_ok_return_early:
  "ending_ok sid eid (\<lambda>st. st) m \<Longrightarrow> ending_ok sid eid merge_sum (return_early m)"
  unfolding return_early_def by (rule ending_ok_map) simp

lemma ending_ok_go_on: "ending_ok sid eid (\<lambda>st. st) m \<Longrightarrow> ending_ok sid eid merge_sum (go_on m)"
  unfolding go_on_def by (rule ending_ok_map) simp

text \<open>The whole pipeline: after the insertion of its execution row it ends in \<open>finish\<close>.\<close>

lemma process_signal_ending:
  "\<exists>k. process_signal svc row = bindP (open_execution svc row) k
      \<and> (\<forall>eid. ending_ok (sg_signal_id row) eid (\<lambda>st. st) (k eid))"
  unfolding process_signal_def Let_def end_of_def
  by (rule exI, rule conjI, rule refl)
    (intro allI ending_ok_map ending_ok_bindR ending_ok_prod ending_ok_bind_liftE ending_ok_if
      stage_ok_screen stage_ok_map_symbol stage_ok_connect stage_ok_market stage_ok_quote stage_ok_count
      stage_ok_loss stage_ok_size stage_ok_check ending_ok_return_early ending_ok_go_on ending_ok_send
      ending_ok_finish; simp)

theorem process_signal_finishes:
  assumes "after (process_signal svc row) tr (Ret st)"
  obtains eid tr1 tr2 where "tr = tr1 @ tr2" and "after (open_execution svc row) tr1 (Ret eid)"
    and "finishes (sg_signal_id row) eid st tr2"
proof -
  from process_signal_ending obtain k where k: "process_signal svc row = bindP (open_execution svc row) k"
    and e: "\<And>eid. ending_ok (sg_signal_id row) eid (\<lambda>st. st) (k eid)" by blast
  from assms [unfolded k returns_bindP] e that show thesis unfolding ending_ok_def by blast
qed

theorem process_signal_raises:
  assumes "after (process_signal svc row) tr (Throw e)"
  shows "calm_trace (sg_signal_id row) tr"
proof -
  from process_signal_ending obtain k where k: "process_signal svc row = bindP (open_execution svc row) k"
    and e: "\<And>eid. ending_ok (sg_signal_id row) eid (\<lambda>st. st) (k eid)" by blast
  have "raise_ok (sg_signal_id row) (process_signal svc row)"
    unfolding k using e calm_after [OF calm_intros(13)]
    by (intro raise_ok_bindP raise_ok_calm [OF calm_intros(13)]) (auto simp: ending_ok_def)
  then show ?thesis using assms unfolding raise_ok_def by blast
qed

subsection \<open>The outcome on disk\<close>

lemma process_signal_effect:
  "guarantees (\<lambda>w w'. db_effect (\<lambda>s. s = sg_signal_id row) (w_db w) (w_db w')) (process_signal svc row)"
  by (rule conforms_guarantee [OF sends_once_process_signal]) (simp add: send_monitor_def)

lemma chain_append: "chain w (tr @ tr') w' \<longleftrightarrow> (\<exists>m. chain w tr m \<and> chain m tr' w')"
  by (induction tr arbitrary: w) auto

text \<open>Along a chain of effects a known signal and a known execution stay.\<close>

lemma chain_effect:
  assumes "chain w tr w'" and "\<forall>(v, v') \<in> set tr. db_effect own (w_db v) (w_db v')"
    and "get_signal sid (w_db w) \<noteq> None"
  shows "get_signal sid (w_db w') \<noteq> None" and "set (execution_keys (w_db w)) \<subseteq> set (execution_keys (w_db w'))"
  using assms
proof (induction tr arbitrary: w)
  case (Cons s tr)
  {
    case 1
    then have e: "db_effect own (w_db w) (w_db (snd s))" and c: "chain (snd s) tr w'" by auto
    from e 1(3) have "get_signal sid (w_db (snd s)) \<noteq> None"
      using evolves_Some unfolding db_effect_def by blast
    with c Cons.IH(1) 1(2) show ?case by simp
  next
    case 2
    then have e: "db_effect own (w_db w) (w_db (snd s))" and c: "chain (snd s) tr w'" by auto
    from e 2(3) have "get_signal sid (w_db (snd s)) \<noteq> None"
      using evolves_Some unfolding db_effect_def by blast
    with c Cons.IH(2) 2(2) have "set (execution_keys (w_db (snd s))) \<subseteq> set (execution_keys (w_db w'))" by simp
    then show ?case using e unfolding db_effect_def by auto
  }
qed auto

lemma extra_fields_keep:
  "list_all extra_field as \<Longrightarrow> ex_status (foldl assign e as) = ex_status e
     \<and> ex_finished_at (foldl assign e as) = ex_finished_at e
     \<and> ex_result_message (foldl assign e as) = ex_result_message e"
proof (induction as arbitrary: e)
  case (Cons a as)
  then show ?case by (cases a) (auto simp: extra_field_def)
qed simp

text \<open>The outcome: both rows carry the status returned, the execution row is closed.\<close>

definition outcome :: "db \<Rightarrow> string \<Rightarrow> execution_status \<Rightarrow> bool" where
  "outcome d sid st \<longleftrightarrow> (\<exists>r e. get_signal sid d = Some r \<and> sg_status r = st
     \<and> e \<in> set (db_executions d) \<and> ex_signal_id e = sid \<and> ex_status e = st \<and> ex_finished_at e \<noteq> None
     \<and> sg_rejection_reason r = (if is_rejection st then ex_result_message e else None))"

lemma get_signal_set_execution [simp]: "get_signal sid (set_execution eid as d) = get_signal sid d"
  by (simp add: get_signal_def)

lemma get_signal_update_status:
  "get_signal sid (update_signal_status t sid st rs None d) =
     map_option (\<lambda>r. r\<lparr>sg_status := st, sg_rejection_reason := rs, sg_updated_at := t\<rparr>) (get_signal sid d)"
proof -
  have "get_signal sid (update_signal_status t sid st rs None d) = map_option
      (\<lambda>r. if sg_signal_id r = sid then r\<lparr>sg_status := st, sg_rejection_reason := rs, sg_updated_at := t\<rparr> else r)
      (get_signal sid d)"
    unfolding update_signal_status_def by (simp add: get_signal_update_where)
  then show ?thesis by (cases "get_signal sid d") (auto dest: get_signal_Some)
qed

lemma finish_writes_outcome:
  assumes "finish_writes sid eid st msg steps" and "chain w steps w'"
    and "get_signal sid (w_db w) \<noteq> None" and "(eid, sid) \<in> set (execution_keys (w_db w))"
  shows "outcome (w_db w') sid st"
proof -
  obtain r where r: "get_signal sid (w_db w) = Some r" using assms(3) by blast
  obtain e where e: "e \<in> set (db_executions (w_db w))" "ex_id e = eid" "ex_signal_id e = sid"
    using assms(4) by (auto simp: execution_keys_def)
  obtain t extra t' where x: "list_all extra_field extra" and
    d: "w_db w' = update_signal_status t' sid st (if is_rejection st then msg else None) None
      (set_execution eid ([F_status st, F_finished_at t, F_result_message msg] @ extra) (w_db w))"
    using assms(1,2) by (auto simp: finish_writes_def)
  let ?e = "foldl assign e ([F_status st, F_finished_at t, F_result_message msg] @ extra)"
  have "?e \<in> set (db_executions (w_db w'))" using e by (auto simp: d update_signal_status_def set_execution_def
      update_where_def simp del: foldl_append foldl_Cons)
  moreover have "ex_status ?e = st" "ex_finished_at ?e = Some t" "ex_result_message ?e = msg"
    using extra_fields_keep [OF x] by simp_all
  moreover have "ex_signal_id ?e = sid" using e(3) by (simp only: foldl_assign_keeps)
  moreover have "\<exists>r'. get_signal sid (w_db w') = Some r' \<and> sg_status r' = st
      \<and> sg_rejection_reason r' = (if is_rejection st then msg else None)"
    using r unfolding d get_signal_update_status by simp
  ultimately show ?thesis unfolding outcome_def by (metis option.distinct(1))
qed

theorem process_signal_outcome:
  assumes known: "get_signal (sg_signal_id row) (w_db w) \<noteq> None"
    and r: "run (process_signal svc row) w = (Inr st, w')"
  shows "outcome (w_db w') (sg_signal_id row) st" and "st \<noteq> PENDING" and "st \<noteq> PROCESSING"
proof -
  let ?sid = "sg_signal_id row"
  obtain tr where tr: "after (process_signal svc row) tr (Ret st)" and c: "chain w tr w'"
    using after_run [of "process_signal svc row" w] r by auto
  obtain eid tr1 tr2 where t: "tr = tr1 @ tr2" "after (open_execution svc row) tr1 (Ret eid)"
    and f: "finishes ?sid eid st tr2" by (rule process_signal_finishes [OF tr])
  obtain tr3 msg steps where t2: "tr2 = tr3 @ steps" and fw: "finish_writes ?sid eid st msg steps"
    and st: "st \<noteq> PENDING" "st \<noteq> PROCESSING" using f by (auto simp: finishes_def)
  from c t(1) t2 obtain w1 w2 where c1: "chain w tr1 w1" and c2: "chain w1 tr3 w2" and c3: "chain w2 steps w'"
    by (auto simp: chain_append)
  have eff: "\<forall>(v, v') \<in> set tr. db_effect (\<lambda>s. s = ?sid) (w_db v) (w_db v')"
    using guarantees_after [OF tr process_signal_effect] by blast
  then have eff1: "\<forall>(v, v') \<in> set tr1. db_effect (\<lambda>s. s = ?sid) (w_db v) (w_db v')"
    and eff3: "\<forall>(v, v') \<in> set tr3. db_effect (\<lambda>s. s = ?sid) (w_db v) (w_db v')" using t(1) t2 by auto
  have k1: "get_signal ?sid (w_db w1) \<noteq> None" by (rule chain_effect(1) [OF c1 eff1 known])
  have "(eid, ?sid) \<in> set (execution_keys (w_db w1))"
    using t(2) c1 by (auto simp: open_execution_def returns insert_execution_def execution_keys_def
        execution_fields_def Let_def split: if_splits)
  then have "(eid, ?sid) \<in> set (execution_keys (w_db w2))" "get_signal ?sid (w_db w2) \<noteq> None"
    using chain_effect [OF c2 eff3 k1] by auto
  then show "outcome (w_db w') ?sid st" using finish_writes_outcome [OF fw c3] by blast
  show "st \<noteq> PENDING" "st \<noteq> PROCESSING" by (fact st)+
qed

lemma chain_calm:
  "chain w tr w' \<Longrightarrow> calm_trace sid tr \<Longrightarrow> get_signal sid (w_db w) = Some r \<Longrightarrow>
   \<exists>r'. get_signal sid (w_db w') = Some r' \<and> sg_status r' = sg_status r"
proof (induction tr arbitrary: w r)
  case (Cons s tr)
  then obtain r1 where r1: "get_signal sid (w_db (snd s)) = Some r1" "sg_status r1 = sg_status r"
    by (auto simp: calm_step_def)
  from Cons.IH [OF _ _ r1(1)] Cons.prems r1(2) show ?case by simp
qed auto

theorem process_signal_error:
  assumes "get_signal (sg_signal_id row) (w_db w) = Some r"
    and "run (process_signal svc row) w = (Inl e, w')"
  shows "\<exists>r'. get_signal (sg_signal_id row) (w_db w') = Some r' \<and> sg_status r' = sg_status r"
proof -
  obtain tr where tr: "after (process_signal svc row) tr (Throw e)" and c: "chain w tr w'"
    using after_run [of "process_signal svc row" w] assms(2) by auto
  show ?thesis by (rule chain_calm [OF c process_signal_raises [OF tr] assms(1)])
qed

end
