(* ===== verification/Connection.thy ===== *)
theory Connection
  imports Clearance
begin

section \<open>The connection to the terminal\<close>

text \<open>
  What the gateway's connection methods call, in every history: a probe is one \<open>account_info\<close>, an
  attempt is one \<open>initialize\<close> and perhaps one \<open>last_error\<close>, and \<open>ensure_connected\<close> makes three
  attempts at most.
\<close>

lemma after_catchP:
  "after (catchP m h) tr q \<Longrightarrow> (\<exists>m'. after m tr m')
     \<or> (\<exists>e tr1 tr2. tr = tr1 @ tr2 \<and> after m tr1 (Throw e) \<and> after (h e) tr2 q)"
proof (induction m arbitrary: tr)
  case (Throw e)
  then show ?case by fastforce
next
  case (Atomic f)
  show ?case
  proof (cases tr)
    case (Cons s tr')
    obtain w w' where s: "s = (w, w')" by (cases s)
    from Atomic.prems have w': "w' = snd (f w)" and t: "after (catchP (fst (f w)) h) tr' q"
      by (auto simp: Cons s after_Atomic)
    have cons: "after (Atomic f) ((w, w') # tr1) m' \<longleftrightarrow> after (fst (f w)) tr1 m'" for tr1 m'
      by (auto simp: after_Atomic w')
    from Atomic.IH [OF t] show ?thesis unfolding Cons s by (metis append_Cons cons)
  qed (auto intro: after.here)
qed auto

text \<open>\<open>calls L p\<close>: in every history of \<open>p\<close>, complete or not, its own SDK calls form a list of \<open>L\<close>.\<close>

definition calls :: "sdk_event list set \<Rightarrow> ('s world, 'a) prog \<Rightarrow> bool" where
  "calls L p \<longleftrightarrow> (\<forall>tr q. after p tr q \<longrightarrow> own_events tr \<in> L)"

definition joined :: "sdk_event list set \<Rightarrow> sdk_event list set \<Rightarrow> sdk_event list set" where
  "joined L L' = {es @ fs | es fs. es \<in> L \<and> fs \<in> L'}"

definition maybe :: "('r \<Rightarrow> sdk_event) \<Rightarrow> sdk_event list set" where
  "maybe ev = {[]} \<union> {[ev r] | r. True}"

lemma calls_Nil: "calls L p \<Longrightarrow> [] \<in> L"
  unfolding calls_def using after.here by fastforce

lemma calls_mono: "calls L p \<Longrightarrow> L \<subseteq> L' \<Longrightarrow> calls L' p"
  unfolding calls_def by blast

lemma calls_Ret: "calls {[]} (Ret a)"
  by (simp add: calls_def)

lemma calls_liftE: "calls {[]} (liftE r)"
  by (simp add: calls_def)

lemma calls_bindP:
  assumes "calls L m" and "\<And>a. calls L' (k a)"
  shows "calls (joined L L') (bindP m k)"
  unfolding calls_def
proof (intro allI impI)
  fix tr q assume "after (bindP m k) tr q"
  then consider m' where "after m tr m'"
    | a tr1 tr2 where "tr = tr1 @ tr2" "after m tr1 (Ret a)" "after (k a) tr2 q"
    unfolding after_bindP by blast
  then show "own_events tr \<in> joined L L'"
  proof cases
    case 1
    then have "own_events tr \<in> L" using assms(1) by (auto simp: calls_def)
    then show ?thesis using calls_Nil [OF assms(2)] by (force simp: joined_def)
  next
    case 2
    then show ?thesis using assms by (force simp: joined_def calls_def)
  qed
qed

lemma calls_catchP:
  assumes "calls L m" and "\<And>e. calls L' (h e)"
  shows "calls (joined L L') (catchP m h)"
  unfolding calls_def
proof (intro allI impI)
  fix tr q assume "after (catchP m h) tr q"
  from after_catchP [OF this] show "own_events tr \<in> joined L L'"
  proof (elim disjE exE conjE)
    fix m' assume "after m tr m'"
    then have "own_events tr \<in> L" using assms(1) by (auto simp: calls_def)
    then show ?thesis using calls_Nil [OF assms(2)] by (force simp: joined_def)
  next
    fix e tr1 tr2 assume "tr = tr1 @ tr2" "after m tr1 (Throw e)" "after (h e) tr2 q"
    then show ?thesis using assms by (force simp: joined_def calls_def)
  qed
qed

lemma calls_sdk_call: "calls (maybe ev) (sdk_call ev f)"
  by (auto simp: calls_def maybe_def sdk_call_def after_atomically Let_def case_prod_beta)

lemma calls_gets: "calls {[]} (gets g)"
  by (auto simp: calls_def gets_def after_atomically)

lemma calls_set_connected: "calls {[]} (set_connected b)"
  by (auto simp: calls_def set_connected_def modify_def after_atomically)

lemma calls_if: "calls L p \<Longrightarrow> calls L q \<Longrightarrow> calls L (if b then p else q)"
  by simp

lemma joined_simps [simp]: "joined {[]} L = L" "joined L {[]} = L"
  by (auto simp: joined_def)

lemma calls_last_error: "calls (maybe E_last_error) (gw_last_error m)"
proof (cases m)
  case None
  have "calls (joined {[]} {[]}) (gw_last_error m)"
    unfolding gw_last_error_def None by (simp add: calls_Ret)
  then show ?thesis by (rule calls_mono) (simp add: maybe_def)
next
  case (Some k)
  have "calls (joined (joined (maybe E_last_error) {[]}) {[]}) (gw_last_error m)"
    unfolding gw_last_error_def Some option.case
    by (intro calls_catchP calls_bindP calls_sdk_call calls_Ret)
  then show ?thesis by simp
qed

lemma calls_connected: "calls (maybe E_account_info) (gw_connected m)"
proof (cases m)
  case None
  have "calls (joined {[]} {[]}) (gw_connected m)"
    unfolding gw_connected_def None option.case by (intro calls_bindP calls_gets calls_Ret)
  then show ?thesis by (rule calls_mono) (simp add: maybe_def)
next
  case (Some k)
  have n: "calls (maybe E_account_info) (Ret False :: ('a world, bool) prog)"
    by (rule calls_mono [OF calls_Ret]) (simp add: maybe_def)
  have "calls (joined (maybe E_account_info) (joined {[]} {[]}))
      (bindP (sdk_call E_account_info (mt_account_info k)) (\<lambda>info.
         bindP (if info = None then set_connected False else Ret ()) (\<lambda>_. gets w_connected)))"
    by (intro calls_bindP calls_if calls_sdk_call calls_set_connected calls_Ret calls_gets)
  then have "calls (joined {[]} (maybe E_account_info)) (gw_connected m)"
    unfolding gw_connected_def Some option.case
    by (intro calls_bindP calls_if calls_gets n) simp
  then show ?thesis by simp
qed

text \<open>One attempt, and the attempts of \<open>ensure_connected\<close>.\<close>

definition attempt_calls :: "sdk_event list set" where
  "attempt_calls = joined {es. es = [] \<or> (\<exists>a r. es = [E_initialize a r])} (maybe E_last_error)"

lemma calls_initialize: "calls attempt_calls (gw_initialize m path login password server)"
proof (cases m)
  case None
  have "calls {[]} (gw_initialize m path login password server)" by (simp add: gw_initialize_def None calls_Ret)
  then show ?thesis by (rule calls_mono) (auto simp: attempt_calls_def joined_def maybe_def)
next
  case (Some k)
  let ?a = "\<lparr>ia_path = truthy_str path, ia_login = truthy_int login,
               ia_password = truthy_str password, ia_server = truthy_str server\<rparr>"
  have e: "calls (maybe E_last_error)
      (if b then bindP (gw_last_error m) (\<lambda>_. Ret ()) else Ret ())" for b
  proof (rule calls_if)
    have "calls (joined (maybe E_last_error) {[]}) (bindP (gw_last_error m) (\<lambda>_. Ret ()))"
      by (intro calls_bindP calls_last_error calls_Ret)
    then show "calls (maybe E_last_error) (bindP (gw_last_error m) (\<lambda>_. Ret ()))" by simp
    show "calls (maybe E_last_error) (Ret ())" by (rule calls_mono [OF calls_Ret]) (simp add: maybe_def)
  qed
  have "calls (joined (maybe (E_initialize ?a)) (joined {[]} (joined (maybe E_last_error) {[]})))
      (gw_initialize m path login password server)"
    unfolding gw_initialize_def Some option.case Let_def
    by (intro calls_bindP calls_sdk_call calls_set_connected calls_gets e [unfolded Some])
  then show ?thesis by (rule calls_mono) (auto simp: attempt_calls_def joined_def maybe_def)
qed

definition is_initialize :: "sdk_event \<Rightarrow> bool" where
  "is_initialize e \<longleftrightarrow> (\<exists>a r. e = E_initialize a r)"

text \<open>At most \<open>n\<close> attempts, and nothing but probes, attempts and error texts.\<close>

definition connection_calls :: "nat \<Rightarrow> sdk_event list set" where
  "connection_calls n = {es. length (filter is_initialize es) \<le> n
     \<and> (\<forall>e \<in> set es. is_initialize e \<or> (\<exists>r. e = E_last_error r) \<or> (\<exists>r. e = E_account_info r))}"

lemma joined_attempt: "joined attempt_calls (connection_calls n) \<subseteq> connection_calls (Suc n)"
  by (fastforce simp: joined_def attempt_calls_def connection_calls_def maybe_def is_initialize_def)

lemma calls_connect_attempts: "calls (connection_calls n) (connect_attempts n svc)"
proof (induction n)
  case 0
  show ?case unfolding connect_attempts.simps by (rule calls_mono [OF calls_Ret]) (simp add: connection_calls_def)
next
  case (Suc n)
  have t: "calls (connection_calls n) (Ret True :: ('a world, bool) prog)"
    by (rule calls_mono [OF calls_Ret]) (simp add: connection_calls_def)
  have "calls (joined {[]} (joined attempt_calls (connection_calls n))) (connect_attempts (Suc n) svc)"
    unfolding connect_attempts.simps Let_def
    by (intro calls_bindP calls_liftE calls_initialize calls_if t Suc.IH)
  then show ?case using joined_attempt by (auto intro: calls_mono)
qed

theorem calls_ensure_connected: "calls (connection_calls MAX_MT5_CONNECT_ATTEMPTS) (ensure_connected svc)"
proof -
  let ?n = MAX_MT5_CONNECT_ATTEMPTS
  have t: "calls (connection_calls ?n) (Ret True :: ('a world, bool) prog)"
    by (rule calls_mono [OF calls_Ret]) (simp add: connection_calls_def)
  have "calls (joined (maybe E_account_info) (connection_calls ?n)) (ensure_connected svc)"
    unfolding ensure_connected_def by (intro calls_bindP calls_connected calls_if t calls_connect_attempts)
  then show ?thesis
    by (rule calls_mono) (fastforce simp: joined_def connection_calls_def maybe_def is_initialize_def)
qed

end
