(* ===== verification/Recovery.thy ===== *)
theory Recovery
  imports Settle Connection Running
begin

section \<open>What the startup recovery does\<close>

text \<open>
  \<open>recover_on_startup\<close> gives every signal a crash left in \<open>PROCESSING\<close> one of two statuses:
  \<open>RECOVERED_EXECUTED\<close> only when the terminal is connected and its history holds a deal with the
  signal's comment, \<open>REVIEW_REQUIRED\<close> otherwise. It sends nothing and touches no execution row.
\<close>

definition deal_matches :: "string \<Rightarrow> sdk_object \<Rightarrow> bool" where
  "deal_matches sid deal \<longleftrightarrow> get_attr deal ''comment'' (AStr []) = AStr (meb_comment sid)"

lemma no_history_call:
  assumes "after (ensure_connected svc) tr (Ret c)"
  shows "E_history_deals_get f t r \<notin> set (own_events tr)"
  using calls_ensure_connected [of svc] assms
  by (auto simp: calls_def connection_calls_def is_initialize_def)

text \<open>The verdict and the evidence in the history of the thread.\<close>

lemma find_deal_history:
  assumes "after (find_deal_by_comment svc c) tr (Ret found)"
  shows "found = None \<and> (\<forall>f t deals. E_history_deals_get f t (Inr (Some deals)) \<in> set (own_events tr) \<longrightarrow>
            (\<forall>d \<in> set deals. get_attr d ''comment'' (AStr []) \<noteq> AStr c))
       \<or> found \<noteq> None \<and> (\<exists>t deals. E_history_deals_get (utc_of_us (epoch_us t - RECONCILIATION_LOOKBACK)) t
            (Inr (Some deals)) \<in> set (own_events tr) \<and> (\<exists>d \<in> set deals. get_attr d ''comment'' (AStr []) = AStr c))"
proof (cases "es_mt5 svc")
  case None
  with assms show ?thesis by (auto simp: find_deal_by_comment_def gw_history_deals_get_def returns)
next
  case (Some k)
  with assms obtain t ds where ev: "own_events tr =
      [E_history_deals_get (utc_of_us (epoch_us t - RECONCILIATION_LOOKBACK)) t (Inr ds)]"
    and found: "found = map_option (\<lambda>deal. (get_attr deal ''order'' ANone, get_attr deal ''ticket'' ANone))
      (find (\<lambda>deal. get_attr deal ''comment'' (AStr []) = AStr c) (case ds of None \<Rightarrow> [] | Some ds \<Rightarrow> ds))"
    by (auto simp: find_deal_by_comment_def gw_history_deals_get_def returns)
  show ?thesis
  proof (cases ds)
    case None
    then show ?thesis using ev found by simp
  next
    case (Some deals)
    have "found = None \<longleftrightarrow> \<not> (\<exists>d. d \<in> set deals \<and> get_attr d ''comment'' (AStr []) = AStr c)"
      unfolding found Some by (simp add: find_None_iff)
    then show ?thesis unfolding ev Some by (cases "found = None") auto
  qed
qed

theorem reconcile_verdict:
  assumes "after (reconcile_stuck_signal svc row) tr (Ret st)"
  shows "st = RECOVERED_EXECUTED \<and> (\<exists>t deals. E_history_deals_get (utc_of_us (epoch_us t - RECONCILIATION_LOOKBACK)) t
            (Inr (Some deals)) \<in> set (own_events tr) \<and> (\<exists>d \<in> set deals. deal_matches (sg_signal_id row) d))
       \<or> st = REVIEW_REQUIRED \<and> (\<forall>f t deals. E_history_deals_get f t (Inr (Some deals)) \<in> set (own_events tr) \<longrightarrow>
            (\<forall>d \<in> set deals. \<not> deal_matches (sg_signal_id row) d))"
proof -
  let ?store = "\<lambda>st reason. db_write_now (es_now svc) (\<lambda>now. update_signal_status now (sg_signal_id row) st reason None)"
  from assms obtain tr1 tr2 c where tr: "tr = tr1 @ tr2" and c: "after (ensure_connected svc) tr1 (Ret c)"
    and r: "after (if \<not> c then bindP (?store REVIEW_REQUIRED (Some ReconcileMT5Unavailable)) (\<lambda>_. Ret REVIEW_REQUIRED)
         else bindP (find_deal_by_comment svc (meb_comment (sg_signal_id row))) (\<lambda>found.
              if found \<noteq> None then bindP (?store RECOVERED_EXECUTED None) (\<lambda>_. Ret RECOVERED_EXECUTED)
              else bindP (?store REVIEW_REQUIRED (Some ReconcileNoHistory)) (\<lambda>_. Ret REVIEW_REQUIRED))) tr2 (Ret st)"
    unfolding reconcile_stuck_signal_def Let_def returns_bindP [of "ensure_connected svc"] by blast
  from no_history_call [OF c] have n: "E_history_deals_get f t x \<in> set (own_events tr) \<longleftrightarrow>
      E_history_deals_get f t x \<in> set (own_events tr2)" for f t x by (simp add: tr)
  show ?thesis
  proof (cases c)
    case False
    with r have "own_events tr2 = [] \<and> st = REVIEW_REQUIRED" by (auto simp: returns)
    then show ?thesis unfolding n by simp
  next
    case True
    with r obtain found tr3 tr4 where f: "tr2 = tr3 @ tr4"
      "after (find_deal_by_comment svc (meb_comment (sg_signal_id row))) tr3 (Ret found)"
      and st: "own_events tr4 = []" "st = (if found = None then REVIEW_REQUIRED else RECOVERED_EXECUTED)"
      by (auto simp: returns_bindP returns_db_write_now split: if_splits)
    have e: "own_events tr2 = own_events tr3" using f(1) st(1) by simp
    show ?thesis
      using find_deal_history [OF f(2)] unfolding n e deal_matches_def st(2) by (cases found) auto
  qed
qed

subsection \<open>Nothing stays in \<open>PROCESSING\<close>\<close>

lemma read_only_run: "read_only p \<Longrightarrow> w_db (snd (run p w)) = w_db w"
  using effects_run [of "(=)" p w] by simp

lemma ro_find_deal [quiet_intros]: "read_only (find_deal_by_comment svc c)"
  unfolding find_deal_by_comment_def by (intro quiet_intros)

definition set_to :: "string \<Rightarrow> execution_status \<Rightarrow> db \<Rightarrow> db \<Rightarrow> bool" where
  "set_to sid st d d' \<longleftrightarrow> (\<exists>t reason. d' = update_signal_status t sid st reason None d)"

lemma set_toI: "set_to sid st d (update_signal_status t sid st reason None d)"
  by (auto simp: set_to_def)

text \<open>One update, to one of the two statuses; an exception writes nothing.\<close>

lemma reconcile_run:
  assumes "run (reconcile_stuck_signal svc row) w = (res, w')"
  shows "case res of Inr st \<Rightarrow> st \<in> {REVIEW_REQUIRED, RECOVERED_EXECUTED}
         \<and> set_to (sg_signal_id row) st (w_db w) (w_db w')
     | Inl e \<Rightarrow> w_db w' = w_db w"
proof -
  obtain c w1 where c: "run (ensure_connected svc) w = (c, w1)" by (cases "run (ensure_connected svc) w")
  have w1: "w_db w1 = w_db w"
    using read_only_run [of "ensure_connected svc" w] c by (simp add: ro.touch_ensure_connected)
  obtain f w2 where f: "run (find_deal_by_comment svc (meb_comment (sg_signal_id row))) w1 = (f, w2)"
    by (cases "run (find_deal_by_comment svc (meb_comment (sg_signal_id row))) w1")
  have w2: "w_db w2 = w_db w1" using read_only_run [OF ro_find_deal, of svc "meb_comment (sg_signal_id row)" w1] f by simp
  show ?thesis
    using assms c f w1 w2
    by (auto simp: reconcile_stuck_signal_def Let_def run_bindP run_db_write_now set_toI
        split: sum.splits prod.splits if_splits)
qed

text \<open>Rows of other signals stay as they are.\<close>

lemma get_signal_update_other:
  "sid' \<noteq> sid \<Longrightarrow> get_signal sid' (update_signal_status t sid st rs nrm d) = get_signal sid' d"
proof -
  assume "sid' \<noteq> sid"
  let ?f = "\<lambda>r. r\<lparr>sg_status := st, sg_rejection_reason := rs,
        sg_symbol_normalized := (case nrm of None \<Rightarrow> sg_symbol_normalized r | Some s \<Rightarrow> Some s), sg_updated_at := t\<rparr>"
  have "get_signal sid' (update_signal_status t sid st rs nrm d)
      = map_option (\<lambda>r. if sg_signal_id r = sid then ?f r else r) (get_signal sid' d)"
    unfolding update_signal_status_def by (rule get_signal_update_where) simp
  with \<open>sid' \<noteq> sid\<close> show ?thesis by (cases "get_signal sid' d") (auto dest: get_signal_Some)
qed

definition resolved :: "string set \<Rightarrow> db \<Rightarrow> db \<Rightarrow> bool" where
  "resolved sids d d' \<longleftrightarrow> (\<forall>sid. if sid \<in> sids
     then \<forall>r. get_signal sid d' = Some r \<longrightarrow> sg_status r \<in> {REVIEW_REQUIRED, RECOVERED_EXECUTED}
     else get_signal sid d' = get_signal sid d)"

lemma recover_rows_run:
  assumes "run (recover_rows svc rows) w = (Inr (), w')"
  shows "resolved (sg_signal_id ` set rows) (w_db w) (w_db w') \<and> (db_ok (w_db w) \<longrightarrow> db_ok (w_db w'))"
  using assms
proof (induction rows arbitrary: w)
  case (Cons row rows)
  then obtain st w1 where 1: "run (reconcile_stuck_signal svc row) w = (Inr st, w1)"
    and 2: "run (recover_rows svc rows) w1 = (Inr (), w')"
    by (auto simp: run_bindP split: prod.splits sum.splits)
  obtain t reason where st: "st \<in> {REVIEW_REQUIRED, RECOVERED_EXECUTED}"
    and d: "w_db w1 = update_signal_status t (sg_signal_id row) st reason None (w_db w)"
    using reconcile_run [OF 1] by (auto simp: set_to_def)
  have own: "sg_status r \<in> {REVIEW_REQUIRED, RECOVERED_EXECUTED}"
    if "get_signal (sg_signal_id row) (w_db w1) = Some r" for r
    using that st unfolding d get_signal_update_status by auto
  have "resolved (sg_signal_id ` set (row # rows)) (w_db w) (w_db w')"
    using Cons.IH [OF 2] own get_signal_update_other [of _ "sg_signal_id row" t st reason None "w_db w"]
    unfolding resolved_def d [symmetric] by (auto split: if_splits)
  then show ?case using Cons.IH [OF 2] d db_ok_update_signal_status by auto
qed (simp add: resolved_def)

theorem nothing_left_processing:
  assumes "db_ok (w_db w)" and "run (recover_on_startup svc) w = (Inr (), w')"
  shows "find_stuck_processing (w_db w') = []"
proof -
  let ?stuck = "find_stuck_processing (w_db w)"
  have r: "resolved (sg_signal_id ` set ?stuck) (w_db w) (w_db w')" "db_ok (w_db w')"
    using recover_rows_run [of svc ?stuck w w'] assms
    by (auto simp: recover_on_startup_def run_bindP run_db_read)
  have "sg_status x \<noteq> PROCESSING" if x: "x \<in> set (db_signals (w_db w'))" for x
  proof
    assume p: "sg_status x = PROCESSING"
    have g: "get_signal (sg_signal_id x) (w_db w') = Some x"
      using get_signal_of_row x r(2) by (auto simp: db_ok_def)
    show False
    proof (cases "sg_signal_id x \<in> sg_signal_id ` set ?stuck")
      case True
      then have "sg_status x \<in> {REVIEW_REQUIRED, RECOVERED_EXECUTED}" using r(1) g unfolding resolved_def by metis
      then show False using p by simp
    next
      case False
      then have "get_signal (sg_signal_id x) (w_db w) = Some x" using r(1) g by (simp add: resolved_def)
      then have "x \<in> set ?stuck" using p get_signal_Some by (simp add: find_stuck_processing_def)
      then show False using False by blast
    qed
  qed
  then show ?thesis by (simp add: find_stuck_processing_def filter_empty_conv)
qed

text \<open>Recovery writes no execution row.\<close>

lemma se_reconcile [quiet_intros]: "effects same_executions (reconcile_stuck_signal svc row)"
  unfolding reconcile_stuck_signal_def find_deal_by_comment_def Let_def
  by (intro quiet_intros se.touch_db_write_now) (simp_all add: same_executions_def update_signal_status_def)

lemma se_recover_rows: "effects same_executions (recover_rows svc rows)"
  by (induction rows) (auto intro!: quiet_intros)

lemma se_recover: "effects same_executions (recover_on_startup svc)"
  unfolding recover_on_startup_def by (intro quiet_intros se_recover_rows)

subsection \<open>Requests that only read\<close>

definition leaves_alone :: "('s world, 'a) prog \<Rightarrow> bool" where
  "leaves_alone p \<longleftrightarrow> (\<forall>w. w_db (snd (run p w)) = w_db w
     \<and> order_sends (w_log (snd (run p w))) = order_sends (w_log w))"

lemma quiet_run_sends:
  assumes "effects E p"
  shows "order_sends (w_log (snd (run p w))) = order_sends (w_log w)"
  by (rule guarantees_run [where I = "\<lambda>v. order_sends (w_log v) = order_sends (w_log w)",
        OF assms [unfolded effects_def] refl]) (auto simp: effect_step_def)

lemma read_only_leaves_alone: "read_only p \<Longrightarrow> leaves_alone p"
  unfolding leaves_alone_def using read_only_run quiet_run_sends by blast

lemma ro_snapshots:
  "read_only (account_snapshot svc)" "read_only (positions_snapshot svc)" "read_only (orders_snapshot svc)"
  unfolding account_snapshot_def positions_snapshot_def orders_snapshot_def by (intro quiet_intros)+

lemma ro_or_503: "read_only m \<Longrightarrow> read_only (or_503 m)"
  unfolding or_503_def by (intro quiet_intros)

end
