(* ===== verification/Lifecycle.thy ===== *)
theory Lifecycle
  imports Orders Recovery
begin

section \<open>The life of a signal\<close>

text \<open>
  The abstract view of the store: what a client can observe of a signal is one of four stages, and
  they only move forward. Every step of the process, seen through \<open>stage_of\<close>, is a stutter or one
  edge of this automaton, for each signal.
\<close>

datatype stage = Unknown | Waiting | Working | Settled execution_status

definition stage_of :: "db \<Rightarrow> string \<Rightarrow> stage" where
  "stage_of d sid = (case get_signal sid d of
       None \<Rightarrow> Unknown
     | Some r \<Rightarrow> if sg_status r = PENDING then Waiting
                 else if sg_status r = PROCESSING then Working
                 else Settled (sg_status r))"

inductive stage_step :: "stage \<Rightarrow> stage \<Rightarrow> bool" where
  submitted: "stage_step Unknown Waiting"
| claimed: "stage_step Waiting Working"
| settled: "stage_step Working (Settled st)"

inductive_simps stage_step_Settled [simp]: "stage_step (Settled st) s"
inductive_simps stage_step_Waiting [simp]: "stage_step Waiting s"
inductive_simps stage_step_Working [simp]: "stage_step Working s"
inductive_simps stage_step_Unknown [simp]: "stage_step Unknown s"

text \<open>The step of a world as seen through a signal's stage.\<close>

definition moves :: "string \<Rightarrow> db \<Rightarrow> db \<Rightarrow> bool" where
  "moves sid d d' \<longleftrightarrow> stage_of d' sid = stage_of d sid \<or> stage_step (stage_of d sid) (stage_of d' sid)"

subsection \<open>The step of a thread\<close>

text \<open>Every program has a completion of its history.\<close>

lemma after_completion: "\<exists>tr r. after q tr (liftE r)"
  using after_run [of q undefined] by blast

text \<open>
  A program that writes a status only as its last step: any step of a history is calm, or it is
  that last one.
\<close>

definition writes_last :: "string \<Rightarrow> (execution_status \<Rightarrow> bool) \<Rightarrow> ('s world, execution_status) prog \<Rightarrow> bool" where
  "writes_last sid P p \<longleftrightarrow> (\<forall>tr e. after p tr (Throw e) \<longrightarrow> calm_trace sid tr)
     \<and> (\<forall>tr st. after p tr (Ret st) \<longrightarrow> (\<exists>tr' w w'. tr = tr' @ [(w, w')] \<and> calm_trace sid tr'
           \<and> P st \<and> set_to sid st (w_db w) (w_db w')))"

lemma writes_last_step:
  assumes p: "writes_last sid P p" and h: "after p (tr @ [(w, w')]) q"
  shows "calm_step sid w w' \<or> (\<exists>st. q = Ret st \<and> P st \<and> set_to sid st (w_db w) (w_db w'))"
proof -
  obtain tr' r where c: "after q tr' (liftE r)" using after_completion by blast
  then have full: "after p (tr @ [(w, w')] @ tr') (liftE r)"
    using h by (simp only: append_assoc [symmetric] after_append) blast
  show ?thesis
  proof (cases r)
    case (Inl e)
    then have "calm_trace sid (tr @ [(w, w')] @ tr')" using p full unfolding writes_last_def by fastforce
    then show ?thesis by simp
  next
    case (Inr st)
    with full p obtain tr1 v v' where eq: "tr @ [(w, w')] @ tr' = tr1 @ [(v, v')]" and calm: "calm_trace sid tr1"
      and st: "P st" "set_to sid st (w_db v) (w_db v')" unfolding writes_last_def by fastforce
    show ?thesis
    proof (cases tr' rule: rev_cases)
      case Nil
      then show ?thesis using c Inr eq st by auto
    next
      case (snoc ys y)
      then have "tr @ (w, w') # ys = tr1" using eq by simp
      with calm show ?thesis by auto
    qed
  qed
qed

lemma process_signal_writes_last:
  "writes_last (sg_signal_id row) (\<lambda>st. st \<noteq> PENDING \<and> st \<noteq> PROCESSING) (process_signal svc row)"
  unfolding writes_last_def
proof (intro conjI allI impI)
  let ?sid = "sg_signal_id row"
  fix tr :: "'a world trace" and st
  assume "after (process_signal svc row) tr (Ret st)"
  then obtain eid tr1 tr2 where t: "tr = tr1 @ tr2" "after (open_execution svc row) tr1 (Ret eid)"
    and f: "finishes ?sid eid st tr2" by (rule process_signal_finishes)
  then obtain tr3 msg v t' extra w t2 s where t3: "calm_trace ?sid tr3" "tr2 = tr3 @
      [(v, v\<lparr>w_db := set_execution eid ([F_status st, F_finished_at t', F_result_message msg] @ extra) (w_db v)\<rparr>),
       (w, w\<lparr>w_ext := s, w_db := update_signal_status t2 ?sid st (if is_rejection st then msg else None) None (w_db w)\<rparr>)]"
    and st: "st \<noteq> PENDING \<and> st \<noteq> PROCESSING" unfolding finishes_def finish_writes_def by blast
  let ?a = "(v, v\<lparr>w_db := set_execution eid ([F_status st, F_finished_at t', F_result_message msg] @ extra) (w_db v)\<rparr>)"
  let ?w' = "w\<lparr>w_ext := s, w_db := update_signal_status t2 ?sid st (if is_rejection st then msg else None) None (w_db w)\<rparr>"
  have "tr = (tr1 @ tr3 @ [?a]) @ [(w, ?w')]" using t(1) t3(2) by simp
  moreover have "calm_trace ?sid (tr1 @ tr3 @ [?a])"
    using calm_after [OF calm_intros(13) t(2)] t3(1) by (simp add: calm_step_def)
  moreover have "set_to ?sid st (w_db w) (w_db ?w')" by (auto simp: set_to_def)
  ultimately show "\<exists>tr' w w'. tr = tr' @ [(w, w')] \<and> calm_trace ?sid tr'
      \<and> (st \<noteq> PENDING \<and> st \<noteq> PROCESSING) \<and> set_to ?sid st (w_db w) (w_db w')" using st by blast
qed (rule process_signal_raises)

subsection \<open>The recovery handler\<close>

lemma raise_ok_reconcile: "after (reconcile_stuck_signal svc row) tr (Throw e) \<Longrightarrow> calm_trace (sg_signal_id row) tr"
  and reconcile_last_write: "after (reconcile_stuck_signal svc row) tr (Ret st) \<Longrightarrow>
    \<exists>tr' w w'. tr = tr' @ [(w, w')] \<and> calm_trace (sg_signal_id row) tr'
      \<and> st \<in> {REVIEW_REQUIRED, RECOVERED_EXECUTED} \<and> set_to (sg_signal_id row) st (w_db w) (w_db w')"
proof -
  let ?sid = "sg_signal_id row"
  let ?store = "\<lambda>st reason. db_write_now (es_now svc) (\<lambda>now. update_signal_status now ?sid st reason None)"
  have cc: "calm ?sid (ensure_connected svc)" and cf: "calm ?sid (find_deal_by_comment svc (meb_comment ?sid))"
    by (rule calm_quiet; intro quiet_intros)+
  have nw: "\<not> after (bindP (?store st reason) (\<lambda>_. Ret st)) tr (Throw e)" for st reason tr e
    by (simp add: raises_bindP db_write_now_def db_step_now_def raises_atomically Let_def case_prod_beta)
  have w: "\<exists>w w'. tr = [(w, w')] \<and> st' = st \<and> set_to ?sid st (w_db w) (w_db w')"
    if "after (bindP (?store st reason) (\<lambda>_. Ret st)) tr (Ret st')" for st st' reason tr
    using that by (auto simp: returns set_toI)
  show "after (reconcile_stuck_signal svc row) tr (Throw e) \<Longrightarrow> calm_trace ?sid tr"
    unfolding reconcile_stuck_signal_def Let_def raises_bindP [of "ensure_connected svc"]
      raises_bindP [of "find_deal_by_comment svc c" for c]
    using nw calm_after [OF cc] calm_after [OF cf] by (auto split: if_splits simp: raises_bindP [of "find_deal_by_comment svc c" for c])
  assume "after (reconcile_stuck_signal svc row) tr (Ret st)"
  then obtain c tr1 tr2 where "tr = tr1 @ tr2" "after (ensure_connected svc) tr1 (Ret c)" and
    k: "after (if \<not> c then bindP (?store REVIEW_REQUIRED (Some ReconcileMT5Unavailable)) (\<lambda>_. Ret REVIEW_REQUIRED)
         else bindP (find_deal_by_comment svc (meb_comment ?sid)) (\<lambda>found.
              if found \<noteq> None then bindP (?store RECOVERED_EXECUTED None) (\<lambda>_. Ret RECOVERED_EXECUTED)
              else bindP (?store REVIEW_REQUIRED (Some ReconcileNoHistory)) (\<lambda>_. Ret REVIEW_REQUIRED))) tr2 (Ret st)"
    unfolding reconcile_stuck_signal_def Let_def returns_bindP [of "ensure_connected svc"] by blast
  then have c1: "calm_trace ?sid tr1" and tr: "tr = tr1 @ tr2" using calm_after [OF cc] by auto
  show "\<exists>tr' w w'. tr = tr' @ [(w, w')] \<and> calm_trace ?sid tr'
      \<and> st \<in> {REVIEW_REQUIRED, RECOVERED_EXECUTED} \<and> set_to ?sid st (w_db w) (w_db w')"
  proof (cases c)
    case False
    with k w [of REVIEW_REQUIRED] obtain v v' where "tr2 = [(v, v')]" "st = REVIEW_REQUIRED"
      "set_to ?sid st (w_db v) (w_db v')" by fastforce
    with tr c1 show ?thesis by blast
  next
    case True
    with k obtain found tr3 tr4 where t2: "tr2 = tr3 @ tr4" and f: "after (find_deal_by_comment svc (meb_comment ?sid)) tr3 (Ret found)"
      and l: "after (if found \<noteq> None then bindP (?store RECOVERED_EXECUTED None) (\<lambda>_. Ret RECOVERED_EXECUTED)
              else bindP (?store REVIEW_REQUIRED (Some ReconcileNoHistory)) (\<lambda>_. Ret REVIEW_REQUIRED)) tr4 (Ret st)"
      by (auto simp: returns_bindP [of "find_deal_by_comment svc c" for c])
    obtain v v' where v: "tr4 = [(v, v')]" "st \<in> {REVIEW_REQUIRED, RECOVERED_EXECUTED}"
      "set_to ?sid st (w_db v) (w_db v')"
      using l w [of RECOVERED_EXECUTED] w [of REVIEW_REQUIRED] by (fastforce split: if_splits)
    have "tr = (tr1 @ tr3) @ [(v, v')]" "calm_trace ?sid (tr1 @ tr3)"
      using tr t2 v(1) c1 calm_after [OF cf f] by simp_all
    with v show ?thesis by blast
  qed
qed

lemma reconcile_writes_last:
  "writes_last (sg_signal_id row) (\<lambda>st. st \<in> {REVIEW_REQUIRED, RECOVERED_EXECUTED}) (reconcile_stuck_signal svc row)"
  unfolding writes_last_def using raise_ok_reconcile reconcile_last_write by blast

text \<open>The handler during startup: the rows it has not reached yet are still in \<open>PROCESSING\<close>.\<close>

definition working :: "db \<Rightarrow> signal_row \<Rightarrow> bool" where
  "working d row \<longleftrightarrow> stage_of d (sg_signal_id row) = Working"

definition recovering :: "'s service \<Rightarrow> db \<Rightarrow> ('s world, unit) prog \<Rightarrow> bool" where
  "recovering svc d h \<longleftrightarrow> h = recover_on_startup svc \<or> h = Ret () \<or> (\<exists>e. h = Throw e)
     \<or> (\<exists>row rows m tr. h = bindP m (\<lambda>_. recover_rows svc rows) \<and> after (reconcile_stuck_signal svc row) tr m
          \<and> distinct (map sg_signal_id (row # rows)) \<and> list_all (working d) rows
          \<and> (working d row \<or> (\<exists>st. m = Ret st)))"

lemma recovering_rows:
  "distinct (map sg_signal_id rows) \<Longrightarrow> list_all (working d) rows \<Longrightarrow> recovering svc d (recover_rows svc rows)"
proof (cases rows)
  case (Cons row rows')
  assume "distinct (map sg_signal_id rows)" "list_all (working d) rows"
  then show ?thesis unfolding recovering_def Cons recover_rows.simps
    by (intro disjI2 exI [of _ row] exI [of _ rows'] exI [of _ "reconcile_stuck_signal svc row"] exI [of _ "[]"]) simp
qed (simp add: recovering_def)

lemma stuck_working:
  assumes "db_ok d"
  shows "list_all (working d) (find_stuck_processing d)" and "distinct (map sg_signal_id (find_stuck_processing d))"
proof -
  show "list_all (working d) (find_stuck_processing d)"
    using assms get_signal_of_row
    by (auto simp: list_all_iff find_stuck_processing_def working_def stage_of_def db_ok_def)
  show "distinct (map sg_signal_id (find_stuck_processing d))"
    using assms by (simp add: find_stuck_processing_def db_ok_def signals_ok_def distinct_map_filter)
qed

text \<open>What a calm step, a foreign step and the last update do to a stage.\<close>

lemma calm_stage: "calm_step sid w w' \<Longrightarrow> get_signal sid (w_db w) \<noteq> None \<Longrightarrow>
    stage_of (w_db w') sid = stage_of (w_db w) sid"
  by (auto simp: calm_step_def stage_of_def)

lemma foreign_stage:
  assumes "db_effect own d d'" and "\<not> own sid"
  shows "stage_of d' sid = stage_of d sid \<or> stage_of d sid = Unknown \<and> stage_of d' sid = Waiting"
proof (cases "get_signal sid d")
  case None
  then show ?thesis using assms(1) evolves_None [of own d d' sid]
    by (cases "get_signal sid d'") (auto simp: db_effect_def stage_of_def)
next
  case (Some r)
  with assms evolves_Some [of own d d' sid r] show ?thesis
    by (auto simp: db_effect_def stage_of_def row_evolves_def)
qed

lemma set_to_stage:
  assumes "set_to sid st d d'" and "get_signal sid d \<noteq> None" and "st \<noteq> PENDING" and "st \<noteq> PROCESSING"
  shows "stage_of d' sid = Settled st"
  using assms by (auto simp: set_to_def stage_of_def get_signal_update_status)

lemma stage_known: "stage_of d sid \<noteq> Unknown \<Longrightarrow> get_signal sid d \<noteq> None"
  by (cases "get_signal sid d") (auto simp: stage_of_def)

subsection \<open>The invariant\<close>

text \<open>Each running thread owns its signal, which is in \<open>PROCESSING\<close> until the thread's last update.\<close>

definition owns :: "'s service \<Rightarrow> db \<Rightarrow> string \<times> ('s world, execution_status) prog \<Rightarrow> bool" where
  "owns svc d t \<longleftrightarrow> (\<exists>row tr. sg_signal_id row = fst t \<and> after (process_signal svc row) tr (snd t))
     \<and> (stage_of d (fst t) = Working \<or> (\<exists>st. snd t = Ret st \<and> stage_of d (fst t) = Settled st))"

definition lifecycle_inv :: "'s service \<Rightarrow> 's process \<Rightarrow> bool" where
  "lifecycle_inv svc p \<longleftrightarrow> distinct (map fst (sy_threads p))
     \<and> (\<forall>t \<in> set (sy_threads p). owns svc (w_db (sy_world p)) t)
     \<and> (sy_phase p = Starting \<longrightarrow> sy_threads p = []
          \<and> (\<forall>h. sy_handler p = Some h \<longrightarrow> recovering svc (w_db (sy_world p)) h))
     \<and> (sy_phase p \<noteq> Starting \<longrightarrow> (\<forall>h. sy_handler p = Some h \<longrightarrow> quiet (\<lambda>_. False) h))"

abbreviation all_move :: "'s process \<Rightarrow> 's process \<Rightarrow> bool" where
  "all_move p q \<equiv> \<forall>sid. moves sid (w_db (sy_world p)) (w_db (sy_world q))"

lemma moves_refl [simp]: "moves sid d d"
  by (simp add: moves_def)

lemma foreign_moves: "db_effect own d d' \<Longrightarrow> \<not> own sid \<Longrightarrow> moves sid d d'"
  using foreign_stage [of own d d' sid] by (auto simp: moves_def intro: stage_step.intros)

lemma foreign_owns: "db_effect own d d' \<Longrightarrow> \<not> own (fst t) \<Longrightarrow> owns svc d t \<Longrightarrow> owns svc d' t"
  using foreign_stage [of own d d' "fst t"] by (auto simp: owns_def)

lemma foreign_working: "db_effect own d d' \<Longrightarrow> \<not> own (sg_signal_id row) \<Longrightarrow> working d row \<Longrightarrow> working d' row"
  using foreign_stage [of own d d' "sg_signal_id row"] by (auto simp: working_def)

text \<open>The step of a program that writes last, on the signal it works on.\<close>

lemma writes_last_moves:
  assumes p: "writes_last sid P p" and P: "\<And>st. P st \<Longrightarrow> st \<noteq> PENDING \<and> st \<noteq> PROCESSING"
    and h: "after p tr (Atomic f)" and s: "stage_of (w_db w) sid = Working"
  shows "stage_of (w_db (snd (f w))) sid = Working
    \<or> (\<exists>st. fst (f w) = Ret st \<and> P st \<and> stage_of (w_db (snd (f w))) sid = Settled st)"
proof -
  have k: "get_signal sid (w_db w) \<noteq> None" using s by (intro stage_known) simp
  have "after p (tr @ [(w, snd (f w))]) (fst (f w))" using h by (auto simp: after_snoc)
  from writes_last_step [OF p this] show ?thesis
  proof (elim disjE exE conjE)
    assume "calm_step sid w (snd (f w))"
    with calm_stage [OF this k] s show ?thesis by simp
  next
    fix st assume "fst (f w) = Ret st" "P st" "set_to sid st (w_db w) (w_db (snd (f w)))"
    with set_to_stage [OF _ k] P show ?thesis by blast
  qed
qed

lemma lifecycle_thread_step:
  assumes inv: "lifecycle_inv svc p" and th: "sy_threads p = ts @ (sid, Atomic f) # us"
    and f: "f (sy_world p) = (q, w)"
  shows "lifecycle_inv svc (p\<lparr>sy_world := w, sy_threads := ts @ (sid, q) # us\<rparr>)"
    and "moves sid' (w_db (sy_world p)) (w_db w)"
proof -
  let ?w = "sy_world p"
  have o: "owns svc (w_db ?w) (sid, Atomic f)" using inv th by (simp add: lifecycle_inv_def)
  then obtain row tr where row: "sg_signal_id row = sid" "after (process_signal svc row) tr (Atomic f)"
    and s: "stage_of (w_db ?w) sid = Working" by (auto simp: owns_def)
  have next_q: "after (process_signal svc row) (tr @ [(?w, w)]) q" using row(2) f by (auto simp: after_snoc)
  have eff: "db_effect (\<lambda>s. s = sid) (w_db ?w) (w_db w)"
    using guarantees_after [OF next_q process_signal_effect] row(1) by simp
  have new: "stage_of (w_db w) sid = Working \<or> (\<exists>st. q = Ret st \<and> stage_of (w_db w) sid = Settled st)"
    using writes_last_moves [OF process_signal_writes_last _ row(2), of ?w] s row(1) f by auto
  show "moves sid' (w_db ?w) (w_db w)"
  proof (cases "sid' = sid")
    case True
    with new s show ?thesis by (auto simp: moves_def)
  next
    case False
    then show ?thesis using foreign_moves [OF eff] by simp
  qed
  have "owns svc (w_db w) (sid, q)" using new next_q row(1) by (auto simp: owns_def)
  moreover have "owns svc (w_db w) t" if "t \<in> set ts \<union> set us" for t
  proof -
    have "fst t \<noteq> sid" "owns svc (w_db ?w) t" using inv that th by (auto simp: lifecycle_inv_def)
    then show ?thesis using foreign_owns [OF eff] by blast
  qed
  ultimately show "lifecycle_inv svc (p\<lparr>sy_world := w, sy_threads := ts @ (sid, q) # us\<rparr>)"
    using inv th by (auto simp: lifecycle_inv_def)
qed

lemma recovering_bind_step:
  assumes m: "after (reconcile_stuck_signal svc row) tr (Atomic g)"
    and d: "distinct (map sg_signal_id (row # rows))" and wk: "list_all (working (w_db w)) (row # rows)"
  shows "recovering svc (w_db (snd (g w))) (bindP (fst (g w)) (\<lambda>_. recover_rows svc rows))"
    and "moves sid (w_db w) (w_db (snd (g w)))"
proof -
  let ?sid = "sg_signal_id row" and ?d = "w_db w" and ?d' = "w_db (snd (g w))"
  have next_m: "after (reconcile_stuck_signal svc row) (tr @ [(w, snd (g w))]) (fst (g w))"
    using m by (auto simp: after_snoc)
  have eff: "db_effect (\<lambda>s. s = ?sid) ?d ?d'"
    using guarantees_after [OF next_m quiet_reconcile [unfolded effects_def]] by (simp add: effect_step_def)
  have new: "stage_of ?d' ?sid = Working \<or> (\<exists>st. fst (g w) = Ret st \<and> stage_of ?d' ?sid = Settled st)"
    using writes_last_moves [OF reconcile_writes_last _ m, of w] wk by (auto simp: working_def)
  have rest: "list_all (working ?d') rows"
    unfolding list_all_iff
  proof
    fix x assume "x \<in> set rows"
    with wk d have "working ?d x" "sg_signal_id x \<noteq> ?sid" by (auto simp: list_all_iff image_iff)
    with foreign_working [OF eff] show "working ?d' x" by blast
  qed
  show "recovering svc ?d' (bindP (fst (g w)) (\<lambda>_. recover_rows svc rows))"
    unfolding recovering_def using next_m d rest new working_def by blast
  show "moves sid ?d ?d'"
  proof (cases "sid = ?sid")
    case True
    with new wk show ?thesis by (auto simp: moves_def working_def)
  next
    case False
    then show ?thesis using foreign_moves [OF eff] by simp
  qed
qed

lemma reconcile_Atomic: "\<exists>g. reconcile_stuck_signal svc row = Atomic g"
  by (simp add: reconcile_stuck_signal_def ensure_connected_def gw_connected_def gets_def atomically_def Let_def)

lemma recovering_Atomic:
  assumes "recovering svc d (Atomic f)"
  obtains "Atomic f = recover_on_startup svc"
  | row rows g tr where "f = map_prod (\<lambda>p. bindP p (\<lambda>_. recover_rows svc rows)) id \<circ> g"
      and "after (reconcile_stuck_signal svc row) tr (Atomic g)"
      and "distinct (map sg_signal_id (row # rows))" and "list_all (working d) (row # rows)"
proof -
  from assms consider "Atomic f = recover_on_startup svc"
    | row rows m tr where "Atomic f = bindP m (\<lambda>_. recover_rows svc rows)"
      "after (reconcile_stuck_signal svc row) tr m" "distinct (map sg_signal_id (row # rows))"
      "list_all (working d) rows" "working d row \<or> (\<exists>st. m = Ret st)"
    unfolding recovering_def by blast
  then show thesis
  proof cases
    case 1
    then show thesis by (rule that(1))
  next
    case (2 row rows m tr)
    show thesis
    proof (cases m)
      case (Ret st)
      with 2(1) obtain row' rows' where r: "rows = row' # rows'" by (cases rows) auto
      obtain g where g: "reconcile_stuck_signal svc row' = Atomic g" using reconcile_Atomic by blast
      show thesis
        by (rule that(2) [of rows' g row' "[]"]) (use 2 Ret r g in auto)
    next
      case (Throw e)
      with 2(1) show thesis by simp
    next
      case (Atomic g)
      show thesis by (rule that(2) [of rows g row tr]) (use 2 Atomic in auto)
    qed
  qed
qed

lemma recovering_step:
  assumes ok: "db_ok (w_db w)" and r: "recovering svc (w_db w) (Atomic f)"
  shows "recovering svc (w_db (snd (f w))) (fst (f w)) \<and> moves sid (w_db w) (w_db (snd (f w)))"
  using r
proof (cases rule: recovering_Atomic)
  case 1
  then have "f w = (recover_rows svc (find_stuck_processing (w_db w)), w)"
    by (simp add: recover_on_startup_def db_read_def gets_def atomically_def)
  then show ?thesis using recovering_rows stuck_working [OF ok] by simp
next
  case (2 row rows g tr)
  then show ?thesis using recovering_bind_step [OF 2(2,3)] by simp
qed

lemma lifecycle_claimed:
  assumes ok: "db_ok (w_db (sy_world p))" and inv: "lifecycle_inv svc p" and ph: "sy_phase p = Running"
    and c: "claim now (sy_world p) = (Some row', w)"
  shows "lifecycle_inv svc (p\<lparr>sy_world := w,
           sy_threads := (sg_signal_id row', process_signal svc row') # sy_threads p\<rparr>)"
    and "moves sid (w_db (sy_world p)) (w_db w)"
proof -
  let ?d = "w_db (sy_world p)"
  obtain row t where r: "row' = claim_row t row" "get_signal (sg_signal_id row) ?d = Some row" "sg_status row = PENDING"
    and g: "\<And>sid. get_signal sid (w_db w) =
              (if sid = sg_signal_id row then Some (claim_row t row) else get_signal sid ?d)"
    using claim_Some [OF ok c] by metis
  have old: "stage_of ?d (sg_signal_id row) = Waiting" using r by (simp add: stage_of_def)
  have new: "stage_of (w_db w) x = (if x = sg_signal_id row then Working else stage_of ?d x)" for x
    by (simp add: stage_of_def g)
  show "moves sid ?d (w_db w)" using old by (simp add: moves_def new stage_step.intros)
  have fresh: "fst t \<noteq> sg_signal_id row" if "t \<in> set (sy_threads p)" for t
    using inv that old by (auto simp: lifecycle_inv_def owns_def)
  have "owns svc (w_db w) t" if "t \<in> set (sy_threads p)" for t
    using inv that fresh [OF that] by (simp add: lifecycle_inv_def owns_def new)
  moreover have "owns svc (w_db w) (sg_signal_id row', process_signal svc row')"
    unfolding owns_def by (intro conjI exI [of _ row'] exI [of _ "[]"]) (simp_all add: new r(1))
  ultimately show "lifecycle_inv svc (p\<lparr>sy_world := w,
           sy_threads := (sg_signal_id row', process_signal svc row') # sy_threads p\<rparr>)"
    using inv ph fresh r(1) by (force simp: lifecycle_inv_def)
qed

lemma lifecycle_handler_step:
  assumes ok: "db_ok (w_db (sy_world p))" and inv: "lifecycle_inv svc p"
    and h: "sy_handler p = Some (Atomic f)" and f: "f (sy_world p) = (q, w)"
  shows "lifecycle_inv svc (p\<lparr>sy_world := w, sy_handler := Some q\<rparr>)"
    and "moves sid (w_db (sy_world p)) (w_db w)"
proof -
  have "lifecycle_inv svc (p\<lparr>sy_world := w, sy_handler := Some q\<rparr>) \<and> moves sid (w_db (sy_world p)) (w_db w)"
  proof (cases "sy_phase p = Starting")
    case True
    with inv h have "recovering svc (w_db (sy_world p)) (Atomic f)" by (simp add: lifecycle_inv_def)
    from recovering_step [OF ok this, of sid] f inv True show ?thesis by (simp add: lifecycle_inv_def)
  next
    case False
    with inv h have "quiet (\<lambda>_. False) (Atomic f)" by (simp add: lifecycle_inv_def)
    then have s: "quiet_step (\<lambda>_. False) (sy_world p) w" "quiet (\<lambda>_. False) q"
      using f by (auto simp: quiet_Atomic dest: spec [of _ "sy_world p"])
    then have eff: "db_effect (\<lambda>_. False) (w_db (sy_world p)) (w_db w)" by (simp add: effect_step_def)
    have "owns svc (w_db w) t" if "t \<in> set (sy_threads p)" for t
      using inv that foreign_owns [OF eff, where svc = svc and t = t] by (simp add: lifecycle_inv_def)
    then show ?thesis using inv False s(2) foreign_moves [OF eff] by (simp add: lifecycle_inv_def)
  qed
  then show "lifecycle_inv svc (p\<lparr>sy_world := w, sy_handler := Some q\<rparr>)"
    and "moves sid (w_db (sy_world p)) (w_db w)" by simp_all
qed

theorem lifecycle_step:
  assumes "step svc p q" and "process_inv p" and "lifecycle_inv svc p"
  shows "lifecycle_inv svc q \<and> all_move p q"
  using assms
proof (induction rule: step.induct)
  case (start p)
  then show ?case by (simp add: lifecycle_inv_def reset_gateway_def recovering_def)
next
  case (handler_step p f q w)
  then show ?case using lifecycle_handler_step [of p svc f q w] by (simp add: process_inv_def)
next
  case (request p h)
  then show ?case using quiet_request_handler by (auto simp: lifecycle_inv_def)
next
  case (idle p w)
  have "w = sy_world p" by (rule process_inv_idle [OF idle.prems(1) idle.hyps(3)])
  with idle show ?case by simp
next
  case (claimed p row w)
  then show ?case using lifecycle_claimed [of p svc "es_now svc" row w] by (simp add: process_inv_def)
next
  case (thread_step p ts sid f us q w)
  then show ?case using lifecycle_thread_step [of svc p ts sid f us q w] by simp
next
  case (stop p)
  then show ?case by (auto simp: lifecycle_inv_def intro: quiet_intros)
qed (auto simp: lifecycle_inv_def)

theorem reachable_lifecycle: "reachable svc p \<Longrightarrow> lifecycle_inv svc p"
proof (induction rule: reachable.induct)
  case (init s)
  then show ?case by (simp add: lifecycle_inv_def initial_def)
next
  case (step p q)
  then show ?case using lifecycle_step [OF step.hyps(2) reachable_inv [OF step.hyps(1)] step.IH] by simp
qed

subsection \<open>Stages as an order\<close>

text \<open>The automaton has no cycle: its edges generate an order, and a run of the process climbs it.\<close>

fun stage_rank :: "stage \<Rightarrow> nat" where
  "stage_rank Unknown = 0"
| "stage_rank Waiting = 1"
| "stage_rank Working = 2"
| "stage_rank (Settled st) = 3"

instantiation stage :: order
begin

definition less_eq_stage :: "stage \<Rightarrow> stage \<Rightarrow> bool" where
  "less_eq_stage s t \<longleftrightarrow> s = t \<or> stage_rank s < stage_rank t"

definition less_stage :: "stage \<Rightarrow> stage \<Rightarrow> bool" where
  "less_stage s t \<longleftrightarrow> stage_rank s < stage_rank t"

instance
  by standard (auto simp: less_eq_stage_def less_stage_def)

end

lemma Settled_le [simp]: "Settled st \<le> s \<longleftrightarrow> s = Settled st"
  by (cases s) (auto simp: less_eq_stage_def)

lemma stage_step_less: "stage_step s t \<Longrightarrow> s < t"
  by (induction rule: stage_step.induct) (simp_all add: less_stage_def)

lemma moves_le: "moves sid d d' \<Longrightarrow> stage_of d sid \<le> stage_of d' sid"
  unfolding moves_def using stage_step_less by (auto simp: less_imp_le)

lemma steps_climb:
  assumes "rtranclp (step svc) p q" and "reachable svc p"
  shows "stage_of (w_db (sy_world p)) sid \<le> stage_of (w_db (sy_world q)) sid"
  using assms
proof (induction rule: rtranclp_induct)
  case (step y z)
  then have r: "reachable svc y" using reachable_steps by blast
  have "moves sid (w_db (sy_world y)) (w_db (sy_world z))"
    using lifecycle_step [OF step.hyps(2) reachable_inv [OF r] reachable_lifecycle [OF r]] by blast
  then show ?case using step.IH [OF step.prems] moves_le order_trans by blast
qed simp

end
