(* ===== verification/Verdicts.thy ===== *)
theory Verdicts
  imports Lifecycle
begin

section \<open>Verdicts and the broker's answers\<close>

text \<open>
  What the status of a signal says about the broker: a verdict of the checks means nothing was sent,
  any other verdict of the pipeline is the meaning of the one answer \<open>order_send\<close> gave, and a signal
  that stands at \<open>EXECUTED\<close> or \<open>EXECUTED_PARTIAL\<close> in the store has that answer in the log.
\<close>

text \<open>The code's reading of a send result (stage 16 of the pipeline).\<close>

definition broker_verdict :: "trade_result option \<Rightarrow> execution_status" where
  "broker_verdict r = (case r of
       None \<Rightarrow> REVIEW_REQUIRED
     | Some t \<Rightarrow> if tr_retcode t = Some 10009 then EXECUTED
                 else if tr_retcode t = Some 10010 then EXECUTED_PARTIAL
                 else if tr_retcode t = Some 10008 then REVIEW_REQUIRED
                 else FAILED_ORDER_SEND)"

definition unsent :: "execution_status \<Rightarrow> bool" where
  "unsent st \<longleftrightarrow> st \<notin> {PENDING, PROCESSING, EXECUTED, EXECUTED_PARTIAL, FAILED_ORDER_SEND, REVIEW_REQUIRED,
     RECOVERED_EXECUTED}"

text \<open>\<open>answered es st\<close>: the thread's calls \<open>es\<close> justify the verdict \<open>st\<close>.\<close>

definition answered :: "string \<Rightarrow> sdk_event list \<Rightarrow> execution_status \<Rightarrow> bool" where
  "answered sid es st \<longleftrightarrow> (order_sends es = [] \<and> unsent st)
     \<or> (\<exists>fs rq r. es = fs @ [E_order_send rq (Inr r)] \<and> order_sends fs = [] \<and> rq_comment rq = meb_comment sid
          \<and> st = broker_verdict r)"

lemma answered_append: "order_sends es = [] \<Longrightarrow> answered sid fs st \<Longrightarrow> answered sid (es @ fs) st"
proof -
  assume e: "order_sends es = []" and "answered sid fs st"
  then consider "order_sends fs = []" "unsent st"
    | gs rq r where "fs = gs @ [E_order_send rq (Inr r)]" "order_sends gs = []" "rq_comment rq = meb_comment sid"
        "st = broker_verdict r"
    unfolding answered_def by blast
  then show ?thesis
  proof cases
    case 1
    then show ?thesis using e by (simp add: answered_def)
  next
    case (2 gs rq r)
    then have "es @ fs = (es @ gs) @ [E_order_send rq (Inr r)]" "order_sends (es @ gs) = []" using e by simp_all
    then show ?thesis using 2 unfolding answered_def by blast
  qed
qed

lemma quiet_own_events: "effects E p \<Longrightarrow> after p tr q \<Longrightarrow> order_sends (own_events tr) = []"
proof -
  assume "effects E p" and "after p tr q"
  from guarantees_after [OF this(2) this(1) [unfolded effects_def]]
  show ?thesis by (induction tr) (auto simp: effect_step_def)
qed

subsection \<open>Early verdicts\<close>

text \<open>The verdicts of the checks: a rejection or a failure before anything is sent.\<close>

definition refused :: "execution_status \<Rightarrow> bool" where
  "refused st \<longleftrightarrow> is_rejection st \<and> st \<noteq> FAILED_ORDER_SEND \<and> st \<noteq> REVIEW_REQUIRED"

lemma refused_unsent: "refused st \<Longrightarrow> unsent st"
  by (cases st) (simp_all add: refused_def unsent_def)

definition early :: "('w, execution_status + 'a) prog \<Rightarrow> bool" where
  "early p \<longleftrightarrow> (\<forall>tr st. after p tr (Ret (Inl st)) \<longrightarrow> refused st)"

named_theorems early_intros

lemma early_Inr [early_intros]: "early (Ret (Inr a))"
  by (simp add: early_def)

lemma early_Throw [early_intros]: "early (Throw e)"
  by (simp add: early_def)

lemma early_bindP [early_intros]: "(\<And>a. early (k a)) \<Longrightarrow> early (bindP m k)"
  unfolding early_def returns_bindP by blast

lemma early_bindR [early_intros]:
  assumes "early m" and "\<And>a. early (k a)"
  shows "early (bindR m k)"
  unfolding early_def
proof (intro allI impI)
  fix tr st assume "after (bindR m k) tr (Ret (Inl st))"
  then obtain r tr1 tr2 where "after m tr1 (Ret r)"
    "after (case r of Inl st \<Rightarrow> Ret (Inl st) | Inr a \<Rightarrow> k a) tr2 (Ret (Inl st))"
    unfolding bindR_def returns_bindP by blast
  then show "refused st" using assms unfolding early_def by (cases r) auto
qed

lemma early_finish [early_intros]: "refused st \<Longrightarrow> early (return_early (finish svc sid eid st msg extra))"
  by (auto simp: early_def return_early_def finish_def returns_bindP)

lemma early_if [early_intros]: "early p \<Longrightarrow> early q \<Longrightarrow> early (if b then p else q)"
  by simp

lemma early_option [early_intros]:
  "early p \<Longrightarrow> (\<And>x. early (k x)) \<Longrightarrow> early (case v of None \<Rightarrow> p | Some x \<Rightarrow> k x)"
  by (cases v) simp_all

lemma early_prod [early_intros]: "(\<And>x y. early (k x y)) \<Longrightarrow> early (case v of (x, y) \<Rightarrow> k x y)"
  by (cases v) simp

lemma refused_simps [simp]:
  "refused REJECTED_STALE" "refused REJECTED_FUTURE_TIMESTAMP" "refused REJECTED_SYMBOL"
  "refused REJECTED_SYMBOL_UNAVAILABLE" "refused REJECTED_RISK" "refused REJECTED_STOP_LOSS" "refused REJECTED_SPREAD"
  "refused REJECTED_DAILY_LOSS" "refused REJECTED_DAILY_TRADE_LIMIT" "refused REJECTED_POSITION_LIMIT"
  "refused REJECTED_VOLUME" "refused REJECTED_VOLUME_BELOW_MINIMUM" "refused REJECTED_ORDER_CHECK"
  "refused FAILED_MT5_UNAVAILABLE" "refused FAILED_MT5_STATE_UNKNOWN" "refused FAILED_BROKER_TIME_UNKNOWN"
  by (simp_all add: refused_def)

lemma unsent_dry_run [simp]: "unsent DRY_RUN_APPROVED"
  by (simp add: unsent_def)

text \<open>The statuses of the risk checks.\<close>

definition rejects :: "risk_check_result \<Rightarrow> bool" where
  "rejects c \<longleftrightarrow> (\<forall>st. rc_status c = Some st \<longrightarrow> refused st)"

lemma rejects_checks [simp]:
  "rejects (check_freshness ts age now)" "rejects (check_risk_percent rp fx)"
  "rejects (check_stop_loss a sl e req)" "rejects (check_daily_trade_limit n k)" "rejects (check_position_limit n k)"
  "check_spread bid ask pt n = Inr c \<Longrightarrow> rejects c" "check_daily_loss eq base mxl = Inr c \<Longrightarrow> rejects c"
  by (auto simp: rejects_def check_freshness_def check_risk_percent_def check_stop_loss_def check_spread_def
      check_daily_trade_limit_def check_position_limit_def check_daily_loss_def rc_pass_def rc_fail_def Let_def
      bindE_eq_Inr split: option.splits if_splits)

lemma early_require_ok [early_intros]: "rejects c \<Longrightarrow> early (require_ok svc sid eid c)"
  by (auto simp: require_ok_def rejects_def intro!: early_intros split: option.split)

lemma early_bind_liftE: "(\<And>a. r = Inr a \<Longrightarrow> early (k a)) \<Longrightarrow> early (bindP (liftE r) k)"
  by (cases r) (auto simp: early_def)

lemma early_stages:
  "early (screen_signal svc row eid)" "early (map_symbol svc row eid)" "early (connect_account svc sid eid)"
  "early (market_data svc row eid symb)" "early (quote_checks svc row eid mk)"
  "early (count_checks svc sid eid key t)" "early (loss_checks svc row eid key eq t)"
  "early (size_order svc row eid symb eq mk)" "early (check_order svc sid eid rq)"
  unfolding screen_signal_def map_symbol_def connect_account_def market_data_def quote_checks_def count_checks_def
    loss_checks_def size_order_def check_order_def Let_def
  by (intro early_bind_liftE early_intros; simp)+

subsection \<open>The verdict of a history\<close>

definition justified :: "string \<Rightarrow> ('s world, execution_status + execution_status) prog \<Rightarrow> bool" where
  "justified sid p \<longleftrightarrow> (\<forall>tr r. after p tr (Ret r) \<longrightarrow> answered sid (own_events tr) (merge_sum r))"

lemma justified_bindR:
  assumes "effects E m" and "early m" and "\<And>a tr. after m tr (Ret (Inr a)) \<Longrightarrow> justified sid (k a)"
  shows "justified sid (bindR m k)"
  unfolding justified_def
proof (intro allI impI)
  fix tr r assume "after (bindR m k) tr (Ret r)"
  then obtain x tr1 tr2 where t: "tr = tr1 @ tr2" "after m tr1 (Ret x)"
    "after (case x of Inl st \<Rightarrow> Ret (Inl st) | Inr a \<Rightarrow> k a) tr2 (Ret r)"
    unfolding bindR_def returns_bindP by blast
  have q: "order_sends (own_events tr1) = []" by (rule quiet_own_events [OF assms(1) t(2)])
  show "answered sid (own_events tr) (merge_sum r)"
  proof (cases x)
    case (Inl st)
    then have "unsent st" using assms(2) t(2) by (auto simp: early_def refused_unsent)
    then show ?thesis using Inl t q by (auto simp: answered_def)
  next
    case (Inr a)
    then have "answered sid (own_events tr2) (merge_sum r)" using assms(3) [of tr1 a] t(2,3) by (auto simp: justified_def)
    then show ?thesis using answered_append [OF q] t(1) by simp
  qed
qed

lemma justified_bindP:
  assumes "effects E m" and "\<And>a. justified sid (k a)"
  shows "justified sid (bindP m k)"
  using assms quiet_own_events answered_append unfolding justified_def returns_bindP by fastforce

lemma justified_early:
  fixes p :: "('s world, execution_status) prog"
  assumes "effects E p" and "\<And>tr st. after p tr (Ret st) \<Longrightarrow> unsent st"
  shows "justified sid (return_early p)"
  unfolding justified_def
proof (intro allI impI)
  fix tr :: "'s world trace" and r :: "execution_status + execution_status"
  assume r: "after (return_early p) tr (Ret r)"
  then obtain st where st: "r = Inl st" "after p tr (Ret st)" by (auto simp: return_early_def returns_bindP)
  have "unsent st" by (rule assms(2) [OF st(2)])
  then show "answered sid (own_events tr) (merge_sum r)"
    using quiet_own_events [OF assms(1) st(2)] st(1) by (simp add: answered_def)
qed


lemma no_events_finish: "after (finish svc sid eid st msg extra) tr (Ret st') \<Longrightarrow> st' = st \<and> own_events tr = []"
  by (auto simp: finish_def returns)

lemma send_order_answer:
  assumes "es_mt5 svc = Some k" and "after (send_order svc sid eid rq) tr (Ret st)"
  shows "\<exists>r. own_events tr = [E_order_send rq (Inr r)] \<and> st = broker_verdict r"
  using assms(2)
  by (auto simp: send_order_def gw_order_send_def assms(1) returns Let_def broker_verdict_def result_retcode_def
      TRADE_RETCODE_DONE_def TRADE_RETCODE_DONE_PARTIAL_def TRADE_RETCODE_PLACED_def
      split: option.splits if_splits dest!: no_events_finish)

lemma justified_send:
  assumes "es_mt5 svc = Some k" and "rq_comment rq = meb_comment sid"
  shows "justified sid (go_on (send_order svc sid' eid rq))"
  unfolding justified_def
proof (intro allI impI)
  fix tr :: "'a world trace" and r :: "execution_status + execution_status"
  assume "after (go_on (send_order svc sid' eid rq)) tr (Ret r)"
  then obtain st where st: "r = Inr st" "after (send_order svc sid' eid rq) tr (Ret st)"
    by (auto simp: go_on_def returns_bindP)
  from send_order_answer [OF assms(1) st(2)] obtain a where "own_events tr = [] @ [E_order_send rq (Inr a)]" "st = broker_verdict a"
    by auto
  moreover have "order_sends [] = []" by (simp add: order_sends_def)
  ultimately show "answered sid (own_events tr) (merge_sum r)"
    using assms(2) st(1) unfolding answered_def by auto
qed

lemma justified_if: "justified sid p \<Longrightarrow> justified sid q \<Longrightarrow> justified sid (if b then p else q)"
  by simp

lemma justified_prod: "(\<And>x y. v = (x, y) \<Longrightarrow> justified sid (k x y)) \<Longrightarrow> justified sid (case v of (x, y) \<Rightarrow> k x y)"
  by (cases v) simp

lemma justified_dry_run:
  "justified sid (return_early (finish svc sid' eid DRY_RUN_APPROVED msg extra))"
  by (rule justified_early [OF quiet_finish]) (auto dest: no_events_finish)

text \<open>Without the MetaTrader package the account is never reached.\<close>

lemma connected_package:
  assumes "after (connect_account svc sid eid) tr (Ret (Inr x))"
  shows "es_mt5 svc \<noteq> None"
proof
  assume none: "es_mt5 svc = None"
  have a: "\<not> after (connect_attempts n svc) tr (Ret True)" for n tr
    by (induction n arbitrary: tr) (auto simp: Let_def returns_bindP gw_initialize_def none)
  have "\<not> after (ensure_connected svc) tr (Ret True)" for tr
    by (auto simp: ensure_connected_def gw_connected_def none returns_bindP a split: if_splits)
  then show False using assms by (auto simp: connect_account_def returns_bindP split: if_splits)
qed

lemma process_signal_justified:
  "\<exists>m. process_signal svc row = bindP (open_execution svc row) (\<lambda>eid. end_of (m eid))
      \<and> (\<forall>eid. justified (sg_signal_id row) (m eid))"
  unfolding process_signal_def Let_def
  apply (rule exI, rule conjI, rule refl, rule allI)
  apply (rule justified_bindR [OF quiet_screen_signal early_stages(1)])
  apply (rule justified_bindR [OF quiet_map_symbol early_stages(2)])
  apply (rule justified_bindR [OF quiet_connect_account early_stages(3)])
  apply (rule justified_prod)
  apply (rule justified_bindR [OF quiet_market_data early_stages(4)])
  apply (rule justified_bindR [OF quiet_quote_checks early_stages(5)])
  apply (rule justified_bindR [OF quiet_count_checks early_stages(6)])
  apply (rule justified_bindR [OF quiet_loss_checks early_stages(7)])
  apply (rule justified_bindR [OF quiet_size_order early_stages(8)])
  apply (rule justified_bindP [OF quiet.touch_liftE])
  apply (rule justified_bindR [OF quiet_check_order early_stages(9)])
  apply (drule connected_package, elim not_None_eq [THEN iffD1, elim_format] exE)
  apply (intro justified_if justified_dry_run justified_send)
   apply (assumption, simp add: build_order_request_def)
  done

theorem process_signal_answered:
  assumes "after (process_signal svc row) tr (Ret st)"
  shows "answered (sg_signal_id row) (own_events tr) st"
proof -
  obtain m where m: "process_signal svc row = bindP (open_execution svc row) (\<lambda>eid. end_of (m eid))"
    and j: "\<And>eid. justified (sg_signal_id row) (m eid)" using process_signal_justified by blast
  from assms [unfolded m end_of_def returns_bindP] obtain eid tr1 tr2 r where
    t: "tr = tr1 @ tr2" "after (open_execution svc row) tr1 (Ret eid)" "after (m eid) tr2 (Ret r)" "st = merge_sum r"
    by auto
  have "order_sends (own_events tr1) = []" by (rule quiet_own_events [OF quiet_open_execution t(2)])
  moreover have "answered (sg_signal_id row) (own_events tr2) st" using j [of eid] t(3,4) by (auto simp: justified_def)
  ultimately show ?thesis using answered_append t(1) by simp
qed

subsection \<open>Verdicts in the store\<close>

text \<open>Recovery settles with its own two statuses only.\<close>

lemma recovering_settles:
  assumes ok: "db_ok (w_db w)" and r: "recovering svc (w_db w) (Atomic f)"
    and s: "stage_of (w_db w) sid = Working" "stage_of (w_db (snd (f w))) sid = Settled st"
  shows "st \<in> {REVIEW_REQUIRED, RECOVERED_EXECUTED}"
  using r
proof (cases rule: recovering_Atomic)
  case 1
  then have "w_db (snd (f w)) = w_db w" by (simp add: recover_on_startup_def db_read_def gets_def atomically_def)
  with s show ?thesis by simp
next
  case (2 row rows g tr)
  let ?sid = "sg_signal_id row"
  have d: "w_db (snd (f w)) = w_db (snd (g w))" using 2(1) by simp
  have next_m: "after (reconcile_stuck_signal svc row) (tr @ [(w, snd (g w))]) (fst (g w))"
    using 2(2) by (auto simp: after_snoc)
  have eff: "db_effect (\<lambda>s. s = ?sid) (w_db w) (w_db (snd (g w)))"
    using guarantees_after [OF next_m quiet_reconcile [unfolded effects_def]] by (simp add: effect_step_def)
  show ?thesis
  proof (cases "sid = ?sid")
    case True
    from writes_last_moves [OF reconcile_writes_last _ 2(2), of w] s d True show ?thesis by auto
  next
    case False
    with foreign_stage [OF eff, of sid] s d show ?thesis by auto
  qed
qed

text \<open>A signal leaves \<open>PROCESSING\<close> through the return of its own thread, or through recovery.\<close>

lemma settled_by:
  assumes "step svc p q" and "process_inv p" and "lifecycle_inv svc p"
    and "stage_of (w_db (sy_world p)) sid = Working" and "stage_of (w_db (sy_world q)) sid = Settled st"
  shows "(sid, Ret st) \<in> set (sy_threads q) \<or> st \<in> {REVIEW_REQUIRED, RECOVERED_EXECUTED}"
  using assms
proof (induction rule: step.induct)
  case (handler_step p f q w)
  show ?case
  proof (cases "sy_phase p = Starting")
    case True
    with handler_step have "recovering svc (w_db (sy_world p)) (Atomic f)" "db_ok (w_db (sy_world p))"
      by (auto simp: lifecycle_inv_def process_inv_def)
    from recovering_settles [OF this(2,1)] handler_step show ?thesis by auto
  next
    case False
    with handler_step have "quiet (\<lambda>_. False) (Atomic f)" by (simp add: lifecycle_inv_def)
    then have "db_effect (\<lambda>_. False) (w_db (sy_world p)) (w_db w)"
      using handler_step.hyps(2) by (auto simp: quiet_Atomic effect_step_def dest: spec [of _ "sy_world p"])
    from foreign_stage [OF this, of sid] handler_step.prems show ?thesis by auto
  qed
next
  case (idle p w)
  have "w = sy_world p" by (rule process_inv_idle [OF idle.prems(1) idle.hyps(3)])
  with idle show ?case by simp
next
  case (claimed p row w)
  have "db_ok (w_db (sy_world p))" using claimed.prems(1) by (simp add: process_inv_def)
  from claim_Some [OF this claimed.hyps(3)] obtain r t where "row = claim_row t r"
    and g: "\<And>sid. get_signal sid (w_db w) =
              (if sid = sg_signal_id r then Some (claim_row t r) else get_signal sid (w_db (sy_world p)))" by metis
  then have "stage_of (w_db w) sid = Working" using claimed.prems(3) by (auto simp: stage_of_def)
  with claimed.prems(4) show ?case by simp
next
  case (thread_step p ts sid' f us q w)
  have o: "owns svc (w_db (sy_world p)) (sid', Atomic f)" using thread_step by (simp add: lifecycle_inv_def)
  then obtain row tr where row: "sg_signal_id row = sid'" "after (process_signal svc row) tr (Atomic f)"
    by (auto simp: owns_def)
  have next_q: "after (process_signal svc row) (tr @ [(sy_world p, w)]) q"
    using row(2) thread_step.hyps(2) by (auto simp: after_snoc)
  have eff: "db_effect (\<lambda>s. s = sid') (w_db (sy_world p)) (w_db w)"
    using guarantees_after [OF next_q process_signal_effect] row(1) by simp
  have "sid = sid'" using foreign_stage [OF eff, of sid] thread_step.prems(3,4) by auto
  moreover have "owns svc (w_db w) (sid', q)"
    using lifecycle_thread_step(1) [OF thread_step.prems(2) thread_step.hyps] by (simp add: lifecycle_inv_def)
  ultimately show ?case using thread_step.prems(4) by (auto simp: owns_def)
qed (auto simp: reset_gateway_def)

text \<open>What the log holds for a signal of that status.\<close>

definition confirmed :: "sdk_event list \<Rightarrow> string \<Rightarrow> execution_status \<Rightarrow> bool" where
  "confirmed es sid st \<longleftrightarrow> (\<exists>rq res. E_order_send rq (Inr (Some res)) \<in> set es \<and> rq_comment rq = meb_comment sid
     \<and> broker_verdict (Some res) = st)"

definition reports :: "execution_status \<Rightarrow> bool" where
  "reports st \<longleftrightarrow> st \<in> {EXECUTED, EXECUTED_PARTIAL, FAILED_ORDER_SEND}"

lemma answered_confirmed: "answered sid es st \<Longrightarrow> reports st \<Longrightarrow> confirmed es sid st"
proof -
  assume "answered sid es st" and st: "reports st"
  then obtain fs rq r where r: "es = fs @ [E_order_send rq (Inr r)]" "rq_comment rq = meb_comment sid" "st = broker_verdict r"
    unfolding answered_def by (auto simp: unsent_def reports_def)
  with st obtain res where "r = Some res" by (cases r) (auto simp: reports_def broker_verdict_def)
  then have "E_order_send rq (Inr (Some res)) \<in> set es" "broker_verdict (Some res) = st" using r by simp_all
  then show ?thesis using r(2) unfolding confirmed_def by blast
qed

lemma confirmed_mono: "confirmed es sid st \<Longrightarrow> set es \<subseteq> set fs \<Longrightarrow> confirmed fs sid st"
  unfolding confirmed_def by blast

definition verdicts_inv :: "'s process \<Rightarrow> bool" where
  "verdicts_inv p \<longleftrightarrow> (\<forall>sid st. stage_of (w_db (sy_world p)) sid = Settled st \<longrightarrow> reports st
     \<longrightarrow> confirmed (w_log (sy_world p)) sid st)"

lemma log_extends:
  assumes "step svc p q" and "process_inv p" and "orders_inv svc p"
  shows "\<exists>es. w_log (sy_world q) = w_log (sy_world p) @ es"
  using assms
proof (induction rule: step.induct)
  case (handler_step p f q w)
  then have "quiet (\<lambda>_. True) (Atomic f)" by (simp add: process_inv_def)
  then have "quiet_step (\<lambda>_. True) (sy_world p) w"
    using handler_step.hyps by (auto simp: quiet_Atomic dest: spec [of _ "sy_world p"])
  then show ?case by (auto simp: effect_step_def)
next
  case (idle p w)
  have "w = sy_world p" by (rule process_inv_idle [OF idle.prems(1) idle.hyps(3)])
  then show ?case by simp
next
  case (claimed p row w)
  have "db_ok (w_db (sy_world p))" using claimed.prems(1) by (simp add: process_inv_def)
  from claim_Some [OF this claimed.hyps(3)] have "w_log w = w_log (sy_world p)" by metis
  then show ?case by simp
next
  case (thread_step p ts sid f us q w)
  then have "thread_ok svc (sy_world p) (sid, Atomic f)" by (auto simp: orders_inv_def)
  then obtain row tr where "sg_signal_id row = sid" "after (process_signal svc row) tr (Atomic f)"
    by (auto simp: thread_ok_def)
  with conforms_after [OF this(2) sends_once_process_signal] obtain may may' where
    "send_monitor sid may (sy_world p) w may'"
    unfolding conforms_Atomic using thread_step.hyps(2) by (metis snd_conv)
  then show ?case by (auto simp: send_monitor_def)
qed (auto simp: reset_gateway_def)

text \<open>The store only grows: no execution, no baseline and no signal is lost, and payloads stay.\<close>

definition store_grows :: "db \<Rightarrow> db \<Rightarrow> bool" where
  "store_grows d d' \<longleftrightarrow> (\<exists>ks. execution_keys d' = execution_keys d @ ks) \<and> (\<exists>bs. db_baselines d' = db_baselines d @ bs)
     \<and> (\<forall>sid r. get_signal sid d = Some r \<longrightarrow> (\<exists>r'. get_signal sid d' = Some r' \<and> immutable r' = immutable r))"

lemma store_grows_refl: "store_grows d d"
  by (simp add: store_grows_def)

lemma store_grows_trans:
  assumes "store_grows d e" and "store_grows e f"
  shows "store_grows d f"
proof -
  have "\<exists>r'. get_signal sid f = Some r' \<and> immutable r' = immutable r" if "get_signal sid d = Some r" for sid r
    using assms that unfolding store_grows_def by metis
  then show ?thesis using assms unfolding store_grows_def by auto
qed

lemma db_effect_grows: "db_effect own d d' \<Longrightarrow> store_grows d d'"
  unfolding db_effect_def store_grows_def using evolves_Some by (fastforce simp: row_evolves_def)

lemma store_grows_baseline:
  assumes "store_grows d d'" and "get_daily_loss_baseline key day d = Some b"
  shows "get_daily_loss_baseline key day d' = Some b"
  using assms by (auto simp: store_grows_def get_daily_loss_baseline_def select_one_def find_append)

lemma store_extends:
  assumes "step svc p q" and "process_inv p" and "orders_inv svc p"
  shows "store_grows (w_db (sy_world p)) (w_db (sy_world q))"
  using assms
proof (induction rule: step.induct)
  case (handler_step p f q w)
  then have "quiet (\<lambda>_. True) (Atomic f)" by (simp add: process_inv_def)
  then have "quiet_step (\<lambda>_. True) (sy_world p) w"
    using handler_step.hyps by (auto simp: quiet_Atomic dest: spec [of _ "sy_world p"])
  then show ?case by (auto simp: effect_step_def dest: db_effect_grows)
next
  case (idle p w)
  have "w = sy_world p" by (rule process_inv_idle [OF idle.prems(1) idle.hyps(3)])
  then show ?case by (simp add: store_grows_refl)
next
  case (claimed p row w)
  have ok: "db_ok (w_db (sy_world p))" using claimed.prems(1) by (simp add: process_inv_def)
  have "execution_keys (w_db w) = execution_keys (w_db (sy_world p))" "db_baselines (w_db w) = db_baselines (w_db (sy_world p))"
    using claimed.hyps(3)
    by (auto simp: claim_def claim_next_pending_def execution_keys_def Let_def case_prod_beta split: if_splits option.splits)
  moreover obtain old t where "get_signal (sg_signal_id old) (w_db (sy_world p)) = Some old"
    and "\<And>sid. get_signal sid (w_db w) =
          (if sid = sg_signal_id old then Some (claim_row t old) else get_signal sid (w_db (sy_world p)))"
    using claim_Some [OF ok claimed.hyps(3)] by metis
  then have "\<exists>r'. get_signal sid (w_db w) = Some r' \<and> immutable r' = immutable r"
    if "get_signal sid (w_db (sy_world p)) = Some r" for sid r
    using that by (auto simp: immutable_def claim_row_def)
  ultimately show ?case by (simp add: store_grows_def)
next
  case (thread_step p ts sid f us q w)
  then have "thread_ok svc (sy_world p) (sid, Atomic f)" by (auto simp: orders_inv_def)
  then obtain row tr where "sg_signal_id row = sid" "after (process_signal svc row) tr (Atomic f)"
    by (auto simp: thread_ok_def)
  with conforms_after [OF this(2) sends_once_process_signal] obtain may may' where
    "send_monitor sid may (sy_world p) w may'"
    unfolding conforms_Atomic using thread_step.hyps(2) by (metis snd_conv)
  then show ?case by (auto simp: send_monitor_def dest: db_effect_grows)
qed (auto simp: reset_gateway_def store_grows_refl)

theorem reachable_grows:
  "rtranclp (step svc) p q \<Longrightarrow> reachable svc p \<Longrightarrow> store_grows (w_db (sy_world p)) (w_db (sy_world q))"
proof (induction rule: rtranclp_induct)
  case base
  then show ?case by (simp add: store_grows_refl)
next
  case (step q r)
  have "reachable svc q" using step.hyps(1) step.prems by (induction rule: rtranclp_induct) (auto intro: reachable.step)
  with step show ?case
    using store_extends reachable_inv reachable_orders store_grows_trans by metis
qed

lemma verdicts_step:
  assumes s: "step svc p q" and r: "reachable svc p" and inv: "verdicts_inv p"
  shows "verdicts_inv q"
  unfolding verdicts_inv_def
proof (intro allI impI)
  fix sid st assume q: "stage_of (w_db (sy_world q)) sid = Settled st" and rep: "reports st"
  note invs = reachable_inv [OF r] reachable_lifecycle [OF r]
  obtain es where l: "w_log (sy_world q) = w_log (sy_world p) @ es"
    using log_extends [OF s invs(1) reachable_orders [OF r]] by blast
  have "moves sid (w_db (sy_world p)) (w_db (sy_world q))" using lifecycle_step [OF s invs] by blast
  then consider "stage_of (w_db (sy_world p)) sid = Settled st" | "stage_of (w_db (sy_world p)) sid = Working"
    using q by (auto simp: moves_def elim: stage_step.cases)
  then show "confirmed (w_log (sy_world q)) sid st"
  proof cases
    case 1
    then show ?thesis using inv rep l confirmed_mono by (fastforce simp: verdicts_inv_def)
  next
    case 2
    from settled_by [OF s invs 2 q] rep have "(sid, Ret st) \<in> set (sy_threads q)" by (auto simp: reports_def)
    then have "thread_ok svc (sy_world q) (sid, Ret st)"
      using reachable_orders [OF reachable.step [OF r s]] by (auto simp: orders_inv_def)
    then obtain row tr where t: "sg_signal_id row = sid" "after (process_signal svc row) tr (Ret st)"
      "set (own_events tr) \<subseteq> set (w_log (sy_world q))" by (auto simp: thread_ok_def)
    from answered_confirmed [OF process_signal_answered [OF t(2)] rep] t(1,3) show ?thesis
      using confirmed_mono by blast
  qed
qed

theorem reachable_verdicts: "reachable svc p \<Longrightarrow> verdicts_inv p"
proof (induction rule: reachable.induct)
  case (init s)
  then show ?case by (simp add: verdicts_inv_def initial_def stage_of_def get_signal_def select_one_def empty_db_def)
next
  case (step p q)
  then show ?case using verdicts_step by blast
qed

end
