(* ===== verification/DailyLimit.thy ===== *)
theory DailyLimit
  imports Verdicts
begin

section \<open>The daily trade limit\<close>

text \<open>
  A run of the pipeline that ends in a trade leaves at most \<open>max_trades_per_day\<close> counted trades of
  the account since the midnight of the broker's date, labelled UTC as the code does: the check reads the
  count before, and the run adds its own execution row and touches no other.
\<close>

subsection \<open>The rows of other executions\<close>

definition others_same :: "int \<Rightarrow> db \<Rightarrow> db \<Rightarrow> bool" where
  "others_same eid d d' \<longleftrightarrow>
     filter (\<lambda>e. ex_id e \<noteq> eid) (db_executions d') = filter (\<lambda>e. ex_id e \<noteq> eid) (db_executions d)"

interpretation oth: database_effect "others_same eid" for eid
  by unfold_locales (simp add: others_same_def)

lemma others_same_update: "others_same eid d (snd (update_execution eid as d))"
proof -
  have "filter (\<lambda>e. ex_id e \<noteq> eid) (update_where (\<lambda>r. ex_id r = eid) (\<lambda>r. foldl assign r as) es)
      = filter (\<lambda>e. ex_id e \<noteq> eid) es" for es
    by (induction es) (auto simp: update_where_def)
  then show ?thesis by (simp add: others_same_def set_execution_def)
qed

lemma others_same_signals [simp]:
  "others_same eid d (update_signal_status t sid st rs nrm d)" "others_same eid d (set_symbol_normalized t sid s d)"
  "others_same eid d (snd (set_daily_loss_baseline t k day eq d))"
  by (simp_all add: others_same_def update_signal_status_def set_symbol_normalized_def set_daily_loss_baseline_def)

lemma oth_update [quiet_intros]: "effects (others_same eid) (db_step (update_execution eid as))"
  by (rule oth.touch_db_step) (rule others_same_update)

lemma oth_finish [quiet_intros]: "effects (others_same eid) (finish svc sid eid st msg extra)"
  unfolding finish_def by (intro quiet_intros oth.touch_db_write_now) simp

lemma oth_require_ok [quiet_intros]: "effects (others_same eid) (require_ok svc sid eid c)"
  unfolding require_ok_def by (intro quiet_intros)

lemma oth_volume [quiet_intros]:
  "effects (others_same eid) (calculate_risk_based_volume m symb act e sl eq rp vmin vmax vstep)"
  unfolding calculate_risk_based_volume_def by (intro quiet_intros)

lemma oth_baseline [quiet_intros]:
  "effects (others_same eid) (db_step_now now (\<lambda>t. set_daily_loss_baseline t k day eq))"
  "effects (others_same eid) (db_write_now now (\<lambda>t. set_symbol_normalized t sid s))"
  by (rule oth.touch_db_step_now oth.touch_db_write_now, simp)+

lemma oth_stages:
  "effects (others_same eid) (screen_signal svc row eid)" "effects (others_same eid) (map_symbol svc row eid)"
  "effects (others_same eid) (connect_account svc sid eid)" "effects (others_same eid) (market_data svc row eid symb)"
  "effects (others_same eid) (quote_checks svc row eid mk)" "effects (others_same eid) (count_checks svc sid eid key t)"
  "effects (others_same eid) (loss_checks svc row eid key eq t)" "effects (others_same eid) (size_order svc row eid symb eq mk)"
  "effects (others_same eid) (check_order svc sid eid rq)"
  unfolding screen_signal_def map_symbol_def connect_account_def market_data_def quote_checks_def count_checks_def
    loss_checks_def size_order_def check_order_def Let_def
  by (intro quiet_intros)+

text \<open>The whole pipeline after its row is inserted, the order included.\<close>

lemma commits_send_order: "commits (others_same eid) (send_order svc sid eid rq)"
  unfolding send_order_def Let_def
  by (rule oth.commits_bindP [OF oth.commits_order_send], rule oth.commits_effects) (intro quiet_intros)

subsection \<open>A run that reaches the broker\<close>

lemma late_bindR:
  assumes "after (bindR m k) tr (Ret r)" and "early m" and "\<not> unsent (merge_sum r)"
  obtains a tr1 tr2 where "tr = tr1 @ tr2" "after m tr1 (Ret (Inr a))" "after (k a) tr2 (Ret r)"
proof -
  from assms(1) obtain x tr1 tr2 where t: "tr = tr1 @ tr2" "after m tr1 (Ret x)"
    "after (case x of Inl st \<Rightarrow> Ret (Inl st) | Inr a \<Rightarrow> k a) tr2 (Ret r)"
    unfolding bindR_def returns_bindP by blast
  show thesis
  proof (cases x)
    case (Inl st)
    then have "unsent st" using assms(2) t(2) by (auto simp: early_def refused_unsent)
    then show thesis using Inl t(3) assms(3) by simp
  next
    case (Inr a)
    then show thesis using t that by simp
  qed
qed

text \<open>The count the run has compared with the limit, on the account and at the broker time it saw.\<close>

definition counted :: "'s service \<Rightarrow> signal_row \<Rightarrow> 's world trace \<Rightarrow> string \<Rightarrow> datetime \<Rightarrow> bool" where
  "counted svc row tr key broker_now \<longleftrightarrow>
     (\<exists>account. E_account_info (Inr (Some account)) \<in> set (own_events tr) \<and> account_key_for account = Some key)
   \<and> (\<exists>symb tk. resolve (es_symbol_mapper svc) (sg_symbol_raw row) = Some symb
        \<and> E_symbol_info_tick symb (Inr (Some tk)) \<in> set (own_events tr) \<and> tick_datetime (tk_time tk) = Some broker_now)
   \<and> (\<exists>n. db_value (count_executed_trades_since key (isoformat (start_of_trading_day broker_now))) tr n
        \<and> n < cfg_max_trades_per_day (es_settings svc))"

lemma countedI:
  assumes "after (map_symbol svc row eid) t2 (Ret (Inr symb))"
    and "after (connect_account svc sid eid) t3 (Ret (Inr (key, eq)))"
    and "after (market_data svc row eid symb) t4 (Ret (Inr mk))"
    and "after (count_checks svc sid eid key (mk_broker_now mk)) t6 (Ret (Inr u))"
  shows "counted svc row (t1 @ t2 @ t3 @ t4 @ t5 @ t6 @ t7) key (mk_broker_now mk)"
  unfolding counted_def
  using map_symbol_passed [OF assms(1)] connect_account_passed [OF assms(2)] market_data_passed(3) [OF assms(3)]
    count_checks_passed(1) [OF assms(4)] by auto

lemma pipeline_parts:
  "\<exists>k. process_signal svc row = bindP (open_execution svc row) k \<and> (\<forall>eid. commits (others_same eid) (k eid))
     \<and> (\<forall>eid tr st. after (k eid) tr (Ret st) \<longrightarrow> \<not> unsent st \<longrightarrow> (\<exists>key broker_now. counted svc row tr key broker_now))"
proof -
  obtain m where m: "process_signal svc row = bindP (open_execution svc row) (\<lambda>eid. end_of (m eid))"
    and k: "\<And>eid. commits (others_same eid) (end_of (m eid))"
    and c: "\<And>eid tr r. after (m eid) tr (Ret r) \<Longrightarrow> \<not> unsent (merge_sum r)
      \<Longrightarrow> \<exists>key broker_now. counted svc row tr key broker_now"
    unfolding process_signal_def Let_def
    apply atomize_elim
    apply (rule exI, rule conjI, rule refl, rule conjI)
     apply (intro allI)
     apply (unfold end_of_def go_on_def) []
     apply (intro oth.commits_bindP oth.commits_bindR oth.commits_prod oth.commits_if commits_send_order oth.commits_pure
      oth.commits_effects [OF oth.touch_return_early] oth_finish oth_stages [THEN oth.commits_effects])
    apply (intro allI impI)
    apply (erule late_bindR [OF _ early_stages(1)], assumption)
    apply (erule late_bindR [OF _ early_stages(2)], assumption)
    apply (erule late_bindR [OF _ early_stages(3)], assumption)
    apply (simp only: split_paired_all prod.case)
    apply (erule late_bindR [OF _ early_stages(4)], assumption)
    apply (erule late_bindR [OF _ early_stages(5)], assumption)
    apply (erule late_bindR [OF _ early_stages(6)], assumption)
    apply (blast intro: countedI)
    done
  have "\<exists>key broker_now. counted svc row tr key broker_now"
    if "after (end_of (m eid)) tr (Ret st)" "\<not> unsent st" for eid tr st
    using that c by (auto simp: end_of_def returns_bindP)
  with m k show ?thesis by blast
qed

subsection \<open>The count after the run\<close>

lemma chain_others:
  "chain w tr w' \<Longrightarrow> \<forall>(v, v') \<in> set tr. others_same eid (w_db v) (w_db v') \<Longrightarrow> others_same eid (w_db w) (w_db w')"
  by (induction tr arbitrary: w) (auto simp: others_same_def)

lemma filter_one_more:
  assumes "distinct (map f xs)"
  shows "length (filter P xs) \<le> length (filter P (filter (\<lambda>x. f x \<noteq> y) xs)) + 1"
  using assms
proof (induction xs)
  case (Cons x xs)
  have "filter (\<lambda>z. f z \<noteq> y) xs = xs" if "f x = y"
    using that Cons.prems by (intro filter_True ballI) (auto simp: image_iff)
  with Cons show ?case by auto
qed simp

lemma filter_filter_le: "length (filter P (filter Q xs)) \<le> length (filter P xs)"
  by (induction xs) auto

lemma one_more_trade:
  assumes "others_same eid d d'" and "db_ok d'"
  shows "count_executed_trades_since key since d' \<le> count_executed_trades_since key since d + 1"
proof -
  define P where "P r \<longleftrightarrow> counts_as_trade (ex_status r) \<and> ex_account_key r = Some key \<and> since \<le> ex_started_at r"
    for r :: execution_row
  have c: "count_executed_trades_since key since e = int (length (filter P (db_executions e)))" for e
    by (simp add: count_executed_trades_since_def P_def [abs_def])
  have "distinct (map ex_id (db_executions d'))" using assms(2) by (simp add: db_ok_def executions_ok_def strict_sorted_iff)
  then have "length (filter P (db_executions d')) \<le> length (filter P (filter (\<lambda>e. ex_id e \<noteq> eid) (db_executions d'))) + 1"
    by (rule filter_one_more)
  also have "filter (\<lambda>e. ex_id e \<noteq> eid) (db_executions d') = filter (\<lambda>e. ex_id e \<noteq> eid) (db_executions d)"
    using assms(1) by (simp add: others_same_def)
  also have "length (filter P (filter (\<lambda>e. ex_id e \<noteq> eid) (db_executions d))) \<le> length (filter P (db_executions d))"
    by (rule filter_filter_le)
  finally show ?thesis by (simp add: c)
qed

lemma chain_db_ok:
  "chain w tr w' \<Longrightarrow> \<forall>(v, v') \<in> set tr. db_effect own (w_db v) (w_db v') \<Longrightarrow> db_ok (w_db w) \<Longrightarrow> db_ok (w_db w')"
  by (induction tr arbitrary: w) (auto simp: db_effect_def dest: evolves_db_ok)

text \<open>The log a run leaves is the one it found and its own calls.\<close>

lemma chain_log:
  assumes "chain w tr w'" and "\<forall>(v, v') \<in> set tr. \<exists>es. w_log v' = w_log v @ es"
  shows "w_log w' = w_log w @ own_events tr"
  using assms by (induction tr arbitrary: w) (fastforce)+

lemma process_signal_log:
  assumes "after (process_signal svc row) tr q" and "chain w tr w'"
  shows "w_log w' = w_log w @ own_events tr"
proof (rule chain_log [OF assms(2)])
  have "guarantees (\<lambda>v v'. \<exists>es. w_log v' = w_log v @ es) (process_signal svc row)"
    by (rule conforms_guarantee [OF sends_once_process_signal]) (auto simp: send_monitor_def)
  then show "\<forall>(v, v') \<in> set tr. \<exists>es. w_log v' = w_log v @ es" using guarantees_after [OF assms(1)] by auto
qed

theorem process_signal_within_limit:
  assumes ok: "db_ok (w_db w)" and r: "run (process_signal svc row) w = (Inr st, w')" and st: "\<not> unsent st"
  shows "\<exists>tr key broker_now. w_log w' = w_log w @ own_events tr \<and> counted svc row tr key broker_now
    \<and> count_executed_trades_since key (isoformat (start_of_trading_day broker_now)) (w_db w')
        \<le> cfg_max_trades_per_day (es_settings svc)"
proof -
  obtain tr where tr: "after (process_signal svc row) tr (Ret st)" and c: "chain w tr w'"
    using after_run [of "process_signal svc row" w] r by auto
  obtain k where k: "process_signal svc row = bindP (open_execution svc row) k" "\<And>eid. commits (others_same eid) (k eid)"
    "\<And>eid tr st. after (k eid) tr (Ret st) \<Longrightarrow> \<not> unsent st \<Longrightarrow> \<exists>key broker_now. counted svc row tr key broker_now"
    using pipeline_parts [of svc row] by auto
  obtain eid t0 u where t: "tr = t0 @ u" "after (k eid) u (Ret st)"
    using tr unfolding k(1) returns_bindP by blast
  obtain key broker_now where cd: "counted svc row u key broker_now" using k(3) [OF t(2) st] by blast
  let ?count = "count_executed_trades_since key (isoformat (start_of_trading_day broker_now))"
  obtain v where v: "(v, v) \<in> set u" "?count (w_db v) < cfg_max_trades_per_day (es_settings svc)"
    using cd by (auto simp: counted_def db_value_def)
  obtain u1 u2 where u: "u = u1 @ (v, v) # u2" using split_list [OF v(1)] by blast
  have oth: "\<forall>(x, y) \<in> set u2. others_same eid (w_db x) (w_db y)"
    using guarantees_after [OF t(2) k(2) [unfolded commits_def]] u by auto
  have "chain v u2 w'" using c by (auto simp: t(1) u chain_append)
  then have o2: "others_same eid (w_db v) (w_db w')" using chain_others oth by blast
  have "\<forall>(v, v') \<in> set tr. db_effect (\<lambda>s. s = sg_signal_id row) (w_db v) (w_db v')"
    using guarantees_after [OF tr process_signal_effect] by blast
  then have "db_ok (w_db w')" using chain_db_ok [OF c _ ok] by blast
  then have "?count (w_db w') \<le> cfg_max_trades_per_day (es_settings svc)"
    using one_more_trade [OF o2, of key "isoformat (start_of_trading_day broker_now)"] v(2) by simp
  moreover have "counted svc row tr key broker_now" using cd by (auto simp: counted_def t(1))
  ultimately show ?thesis using process_signal_log [OF tr c] by blast
qed

end
