(* ===== verification/Client.thy ===== *)
theory Client
  imports PyTime PyFloat
begin

section \<open>The Python client (client/bridge_client.py)\<close>

text \<open>
  \<open>MT5ExecutionBridgeClient\<close>: every method builds one request, hands it to \<open>httpx\<close>, raises on an
  answer that is not a success and returns the JSON of the answer. \<open>httpx\<close> is not part of the
  repository: it is the parameter \<open>http\<close>, a function of the request, the timeout and the state of
  everything outside the client, of which nothing is assumed here. A payload keeps the order of its
  members.
\<close>

datatype json = JText string | JNumber pyfloat | JNull

type_synonym payload = "(string \<times> json) list"

datatype http_request = Get string | Post string payload

record 'j response =
  rs_status_code :: int
  rs_json :: 'j

datatype client_error = TransportError string | HTTPStatusError int

type_synonym ('s, 'j) transport = "http_request \<Rightarrow> pyfloat \<Rightarrow> 's \<Rightarrow> (string + 'j response) \<times> 's"

subsection \<open>The client object\<close>

record client =
  cl_base_url :: string
  cl_timeout :: pyfloat

definition rstrip_slash :: "string \<Rightarrow> string" where
  "rstrip_slash s = rev (dropWhile (\<lambda>c. c = CHR ''/'') (rev s))"

definition DEFAULT_BASE_URL :: string where
  "DEFAULT_BASE_URL = ''http://127.0.0.1:8200''"

definition new_client :: "string \<Rightarrow> pyfloat \<Rightarrow> client" where
  "new_client base_url timeout = \<lparr>cl_base_url = rstrip_slash base_url, cl_timeout = timeout\<rparr>"

text \<open>One exchange: the call, \<open>raise_for_status()\<close> (a success is 2xx) and \<open>json()\<close>.\<close>

definition raise_for_status :: "'j response \<Rightarrow> client_error + 'j response" where
  "raise_for_status r =
     (if 200 \<le> rs_status_code r \<and> rs_status_code r < 300 then Inr r else Inl (HTTPStatusError (rs_status_code r)))"

definition exchange :: "('s, 'j) transport \<Rightarrow> client \<Rightarrow> http_request \<Rightarrow> 's \<Rightarrow> (client_error + 'j) \<times> 's" where
  "exchange http c request s = (case http request (cl_timeout c) s of
       (Inl e, s') \<Rightarrow> (Inl (TransportError e), s')
     | (Inr response, s') \<Rightarrow> (map_sum id rs_json (raise_for_status response), s'))"

subsection \<open>The methods\<close>

definition client_health :: "('s, 'j) transport \<Rightarrow> client \<Rightarrow> 's \<Rightarrow> (client_error + 'j) \<times> 's" where
  "client_health http c = exchange http c (Get (cl_base_url c @ ''/health''))"

definition client_status :: "('s, 'j) transport \<Rightarrow> client \<Rightarrow> 's \<Rightarrow> (client_error + 'j) \<times> 's" where
  "client_status http c = exchange http c (Get (cl_base_url c @ ''/api/status''))"

definition client_get_signal :: "('s, 'j) transport \<Rightarrow> client \<Rightarrow> string \<Rightarrow> 's \<Rightarrow> (client_error + 'j) \<times> 's" where
  "client_get_signal http c signal_id = exchange http c (Get (cl_base_url c @ ''/api/signals/'' @ signal_id))"

definition optional_member :: "string \<Rightarrow> json option \<Rightarrow> payload" where
  "optional_member key v = (case v of None \<Rightarrow> [] | Some j \<Rightarrow> [(key, j)])"

text \<open>The arguments of \<open>send_signal\<close>.\<close>

record signal_args =
  sa_signal_id :: string
  sa_symbol :: string
  sa_action :: string
  sa_risk_percent :: pyfloat
  sa_stop_loss :: pyfloat
  sa_take_profit :: "pyfloat option"
  sa_strategy :: "string option"
  sa_comment :: "string option"
  sa_timestamp :: "string option"

text \<open>\<open>timestamp or datetime.now(UTC).isoformat()\<close>: an empty text counts as missing.\<close>

definition timestamp_text :: "datetime \<Rightarrow> string option \<Rightarrow> string" where
  "timestamp_text now timestamp =
     (case timestamp of None \<Rightarrow> isoformat now | Some t \<Rightarrow> if t = [] then isoformat now else t)"

definition signal_payload :: "datetime \<Rightarrow> signal_args \<Rightarrow> payload" where
  "signal_payload now a =
     [(''signal_id'', JText (sa_signal_id a)),
      (''timestamp'', JText (timestamp_text now (sa_timestamp a))),
      (''symbol'', JText (sa_symbol a)),
      (''action'', JText (sa_action a)),
      (''risk_percent'', JNumber (sa_risk_percent a)),
      (''stop_loss'', JNumber (sa_stop_loss a))]
     @ optional_member ''take_profit'' (map_option JNumber (sa_take_profit a))
     @ optional_member ''strategy'' (map_option JText (sa_strategy a))
     @ optional_member ''comment'' (map_option JText (sa_comment a))"

definition send_signal ::
  "('s, 'j) transport \<Rightarrow> client \<Rightarrow> datetime \<Rightarrow> signal_args \<Rightarrow> 's \<Rightarrow> (client_error + 'j) \<times> 's"
where
  "send_signal http c now a = exchange http c (Post (cl_base_url c @ ''/api/signals'') (signal_payload now a))"

subsection \<open>The example script (examples/python_client_example.py)\<close>

text \<open>\<open>strftime("%Y%m%dT%H%M%S")\<close> of a year of four digits.\<close>

definition example_signal_id :: "datetime \<Rightarrow> string" where
  "example_signal_id t = ''example-'' @ pad 4 (dt_year t) @ pad 2 (dt_month t) @ pad 2 (dt_day t) @ ''T''
     @ pad 2 (dt_hour t) @ pad 2 (dt_minute t) @ pad 2 (dt_second t)"

definition example_args :: "string \<Rightarrow> signal_args" where
  "example_args signal_id = \<lparr>sa_signal_id = signal_id, sa_symbol = ''EURUSD'', sa_action = ''BUY'',
     sa_risk_percent = flit (1/2), sa_stop_loss = flit (217/200), sa_take_profit = Some (flit (219/200)),
     sa_strategy = Some ''example'', sa_comment = None, sa_timestamp = None\<rparr>"

text \<open>The script: four exchanges in order, the first that raises ends it. The answer is what it prints.\<close>

definition after_answer ::
  "('s \<Rightarrow> ('e + 'a) \<times> 's) \<Rightarrow> ('a \<Rightarrow> 's \<Rightarrow> ('e + 'b) \<times> 's) \<Rightarrow> 's \<Rightarrow> ('e + 'b) \<times> 's"
where
  "after_answer m k s = (case m s of (Inl e, s') \<Rightarrow> (Inl e, s') | (Inr a, s') \<Rightarrow> k a s')"

definition example_main ::
  "('s, 'j) transport \<Rightarrow> datetime \<Rightarrow> datetime \<Rightarrow> 's \<Rightarrow> (client_error + (string \<times> 'j) list) \<times> 's"
where
  "example_main http id_time send_time =
     (let client = new_client DEFAULT_BASE_URL (Fin 10); signal_id = example_signal_id id_time
      in after_answer (client_health http client) (\<lambda>health.
         after_answer (client_status http client) (\<lambda>status.
         after_answer (send_signal http client send_time (example_args signal_id)) (\<lambda>result.
         after_answer (client_get_signal http client signal_id) (\<lambda>final.
         Pair (Inr [(''Health:'', health), (''Status:'', status), (''Submitted:'', result),
                    (''Signal status:'', final)]))))))"

subsection \<open>Lemmas\<close>

lemma signal_payload_keys:
  "distinct (map fst (signal_payload now a))"
  "set (map fst (signal_payload now a)) \<subseteq> {''signal_id'', ''timestamp'', ''symbol'', ''action'', ''risk_percent'',
     ''stop_loss'', ''take_profit'', ''strategy'', ''comment''}"
  by (auto simp: signal_payload_def optional_member_def split: option.splits)

text \<open>The members by name.\<close>

lemma signal_payload_members:
  "map_of (signal_payload now a) ''signal_id'' = Some (JText (sa_signal_id a))"
  "map_of (signal_payload now a) ''timestamp'' = Some (JText (timestamp_text now (sa_timestamp a)))"
  "map_of (signal_payload now a) ''symbol'' = Some (JText (sa_symbol a))"
  "map_of (signal_payload now a) ''action'' = Some (JText (sa_action a))"
  "map_of (signal_payload now a) ''risk_percent'' = Some (JNumber (sa_risk_percent a))"
  "map_of (signal_payload now a) ''stop_loss'' = Some (JNumber (sa_stop_loss a))"
  "map_of (signal_payload now a) ''take_profit'' = map_option JNumber (sa_take_profit a)"
  "map_of (signal_payload now a) ''strategy'' = map_option JText (sa_strategy a)"
  "map_of (signal_payload now a) ''comment'' = map_option JText (sa_comment a)"
  by (auto simp: signal_payload_def optional_member_def split: option.splits)

lemma exchange_ok:
  assumes "http request (cl_timeout c) s = (Inr \<lparr>rs_status_code = 200, rs_json = j\<rparr>, s')"
  shows "exchange http c request s = (Inr j, s')"
  using assms by (simp add: exchange_def raise_for_status_def)

end
