(* ===== verification/Delivery.thy ===== *)
theory Delivery
  imports Client Scenario
begin

section \<open>From the client to the store and back\<close>

text \<open>
  The client's methods against the handlers of the API. What lies between is not part of the
  repository: \<open>httpx\<close>, the server and pydantic's reading of a payload are the parameters \<open>http\<close> and
  \<open>read\<close>. \<open>delivers\<close> says that a valid signal and the question for an identifier reach their handlers within
  the client's timeout, and that the handler's answer comes back. An identifier goes into the path as it
  is, so this is not said of the segments \<open>.\<close> and \<open>..\<close>, which a client resolves away, nor of other
  characters. \<open>reads_by_name\<close> says of a payload whose members have the types of the fields, that a field of
  \<open>SignalCreate\<close> is the member of that name, a missing or null member is None, and a timestamp is read as
  \<open>fromisoformat\<close> does. It says nothing of a text where a number belongs, or the like.
\<close>

datatype api_json = J_accepted signal_accepted_response | J_status signal_status_response | J_detail string

text \<open>How an answer of a handler goes over the wire: its status code and its JSON.\<close>

definition wire :: "('a \<Rightarrow> api_json) \<Rightarrow> 'a http_response result \<Rightarrow> api_json response" where
  "wire f r = (case r of
       Inr (HttpOk a) \<Rightarrow> \<lparr>rs_status_code = 200, rs_json = f a\<rparr>
     | Inr (HttpError code detail) \<Rightarrow> \<lparr>rs_status_code = code, rs_json = J_detail detail\<rparr>
     | Inl _ \<Rightarrow> \<lparr>rs_status_code = 500, rs_json = J_detail ''Internal Server Error''\<rparr>)"

definition path_segment :: "string \<Rightarrow> bool" where
  "path_segment s \<longleftrightarrow> list_all safe_char s \<and> 1 \<le> length s \<and> length s \<le> 160 \<and> s \<notin> {''.'', ''..''}"

definition delivers ::
  "'s clock \<Rightarrow> client \<Rightarrow> (payload \<Rightarrow> string) \<Rightarrow> (payload \<Rightarrow> signal_create option) \<Rightarrow> ('s world, api_json) transport \<Rightarrow> bool"
where
  "delivers now c content_length read http \<longleftrightarrow>
     (\<forall>payload body signal w. read payload = Some body \<longrightarrow> make_signal body = Inr signal \<longrightarrow>
        http (Post (cl_base_url c @ ''/api/signals'') payload) (cl_timeout c) w
          = (case run (body_size_limit (Some (content_length payload)) (post_signals now body)) w of (r, w') \<Rightarrow>
               (Inr (wire J_accepted r), w')))
   \<and> (\<forall>signal_id w. path_segment signal_id \<longrightarrow>
        http (Get (cl_base_url c @ ''/api/signals/'' @ signal_id)) (cl_timeout c) w
          = (case run (api_get_signal signal_id) w of (r, w') \<Rightarrow> (Inr (wire J_status r), w')))"

definition number_member :: "json option \<Rightarrow> pyfloat option" where
  "number_member m = (case m of Some (JNumber x) \<Rightarrow> Some x | _ \<Rightarrow> None)"

definition text_member :: "json option \<Rightarrow> string option" where
  "text_member m = (case m of Some (JText s) \<Rightarrow> Some s | _ \<Rightarrow> None)"

text \<open>A member that may be missing or null, and is a number of JSON, or a text, otherwise.\<close>

definition maybe_number :: "json option \<Rightarrow> bool" where
  "maybe_number m \<longleftrightarrow> (case m of Some (JNumber x) \<Rightarrow> is_finite x | Some (JText s) \<Rightarrow> False | _ \<Rightarrow> True)"

definition maybe_text :: "json option \<Rightarrow> bool" where
  "maybe_text m \<longleftrightarrow> (case m of Some (JNumber x) \<Rightarrow> False | _ \<Rightarrow> True)"

definition typed_payload :: "payload \<Rightarrow> bool" where
  "typed_payload p \<longleftrightarrow> distinct (map fst p)
     \<and> set (map fst p) \<subseteq> {''signal_id'', ''timestamp'', ''symbol'', ''action'', ''risk_percent'', ''stop_loss'', ''take_profit'',
          ''strategy'', ''comment''}
     \<and> maybe_number (map_of p ''stop_loss'') \<and> maybe_number (map_of p ''take_profit'')
     \<and> maybe_text (map_of p ''strategy'') \<and> maybe_text (map_of p ''comment'')"

text \<open>An offset of whole minutes, the only ones a JSON timestamp has.\<close>

definition minute_offset :: "datetime \<Rightarrow> bool" where
  "minute_offset t \<longleftrightarrow> (case dt_offset t of None \<Rightarrow> True | Some f \<Rightarrow> f mod 60 = 0)"

definition reads_by_name :: "(payload \<Rightarrow> signal_create option) \<Rightarrow> bool" where
  "reads_by_name read \<longleftrightarrow> (\<forall>p sid ts t symb act rp. typed_payload p \<longrightarrow>
     map_of p ''signal_id'' = Some (JText sid) \<longrightarrow>
     map_of p ''timestamp'' = Some (JText ts) \<longrightarrow> fromisoformat ts = Inr t \<longrightarrow> minute_offset t \<longrightarrow>
     map_of p ''symbol'' = Some (JText symb) \<longrightarrow> map_of p ''action'' = Some (JText act) \<longrightarrow>
     map_of p ''risk_percent'' = Some (JNumber rp) \<longrightarrow> is_finite rp \<longrightarrow>
     read p = Some \<lparr>sc_signal_id = sid, sc_timestamp = t, sc_symbol = symb, sc_action = act, sc_risk_percent = rp,
       sc_stop_loss = number_member (map_of p ''stop_loss''), sc_take_profit = number_member (map_of p ''take_profit''),
       sc_strategy = text_member (map_of p ''strategy''), sc_comment = text_member (map_of p ''comment'')\<rparr>)"

subsection \<open>A posted signal\<close>

lemma sql_real_id: "optionally positive_finite v \<Longrightarrow> sql_real v = v"
  by (auto simp: sql_real_def optionally_def positive_finite_def is_finite_def split: option.splits)

lemma posted_signal_reads_back:
  assumes "make_signal body = Inr signal" and "get_signal (sc_signal_id body) (w_db w) = None"
    and "valid_datetime (sc_timestamp body)"
    and "run (post_signals now body) w = (r, w')"
  shows "\<exists>row. get_signal (sc_signal_id body) (w_db w') = Some row
    \<and> run (api_get_signal (sc_signal_id body)) w' = (Inr (HttpOk (status_response row)), w')
    \<and> sg_symbol_raw row = sc_symbol body \<and> sg_action row = upper (strip (sc_action body))
    \<and> sg_risk_percent row = sc_risk_percent body \<and> sg_stop_loss row = sc_stop_loss body
    \<and> sg_take_profit row = sc_take_profit body \<and> sg_status row = PENDING \<and> sg_attempt_count row = 0
    \<and> fromisoformat (sg_signal_timestamp row) = Inr (sc_timestamp body)"
proof -
  have s: "signal = body\<lparr>sc_action := upper (strip (sc_action body))\<rparr>" "sd_risk_percent (signal_dict_of signal) \<noteq> NaN"
    "optionally positive_finite (sc_stop_loss body)" "optionally positive_finite (sc_take_profit body)"
    using assms(1) by (auto simp: make_signal_def validate_signal_id_def validate_action_def Let_def signal_dict_of_def
        is_finite_def split: if_splits)
  obtain us e where now: "now (w_ext w) = (us, e)" by (cases "now (w_ext w)")
  let ?t = "isoformat (utc_of_us us)"
  let ?row = "new_signal_row (db_signals_seq (w_db w) + 1) ?t (signal_dict_of signal)"
  have id: "sd_signal_id (signal_dict_of signal) = sc_signal_id body" by (simp add: s(1) signal_dict_of_def)
  have g: "get_signal (sc_signal_id body) (w_db w') = Some ?row"
    using assms(2,4) s(2) now id
    by (auto simp: post_signals_def assms(1) submit_signal_def submit_def run_bindP run_utcnow run_db_step
        insert_signal_if_new_def Let_def get_signal_append new_signal_row_def)
  then have "run (api_get_signal (sc_signal_id body)) w' = (Inr (HttpOk (status_response ?row)), w')"
    by (simp add: api_get_signal_def service_get_def run_bindP run_db_read)
  with g show ?thesis
    using fromisoformat_isoformat [OF assms(3)] s(3,4)
    by (intro exI [of _ ?row]) (simp add: new_signal_row_def signal_dict_of_def s(1) sql_real_id)
qed

subsection \<open>A client's signal\<close>

text \<open>What the server reads of a client's signal.\<close>

definition body_of :: "datetime \<Rightarrow> signal_args \<Rightarrow> signal_create" where
  "body_of t a = \<lparr>sc_signal_id = sa_signal_id a, sc_timestamp = t, sc_symbol = sa_symbol a, sc_action = sa_action a,
     sc_risk_percent = sa_risk_percent a, sc_stop_loss = Some (sa_stop_loss a), sc_take_profit = sa_take_profit a,
     sc_strategy = sa_strategy a, sc_comment = sa_comment a\<rparr>"

text \<open>Arguments the API accepts, with an identifier that can stand in a path.\<close>

definition acceptable :: "signal_args \<Rightarrow> bool" where
  "acceptable a \<longleftrightarrow> path_segment (sa_signal_id a)
     \<and> 1 \<le> length (sa_symbol a) \<and> length (sa_symbol a) \<le> 50 \<and> upper (strip (sa_action a)) \<in> {''BUY'', ''SELL''}
     \<and> (\<exists>r. sa_risk_percent a = Fin r \<and> 0 < r \<and> r \<le> 100) \<and> positive_finite (sa_stop_loss a)
     \<and> optionally positive_finite (sa_take_profit a)"

lemma path_segment_safe: "path_segment s \<Longrightarrow> safe_signal_id s"
  unfolding safe_signal_id_iff path_segment_def by (intro exI [of _ s]) auto

lemma acceptable_payload:
  assumes "acceptable a"
  shows "typed_payload (signal_payload now a)" and "is_finite (sa_risk_percent a)"
proof -
  have n: "maybe_number (map_option JNumber x)" if "optionally positive_finite x" for x
    using that by (cases x) (simp_all add: maybe_number_def optionally_def positive_finite_def)
  have t: "maybe_text (map_option JText x)" for x by (cases x) (simp_all add: maybe_text_def)
  have "maybe_number (Some (JNumber (sa_stop_loss a)))" using assms by (simp add: acceptable_def maybe_number_def positive_finite_def)
  then show "typed_payload (signal_payload now a)"
    using signal_payload_keys [of now a] n t assms by (simp add: typed_payload_def signal_payload_members acceptable_def)
  show "is_finite (sa_risk_percent a)" using assms by (auto simp: acceptable_def is_finite_def)
qed

lemma read_signal:
  assumes "reads_by_name read" and "acceptable a" and "fromisoformat (timestamp_text now (sa_timestamp a)) = Inr t"
    and "minute_offset t"
  shows "read (signal_payload now a) = Some (body_of t a)"
proof -
  have "number_member (map_option JNumber x) = x" "text_member (map_option JText y) = y"
    "number_member (Some (JNumber z)) = Some z" for x y z
    by (cases x; cases y; simp add: number_member_def text_member_def)+
  then show ?thesis
    using assms(1) [unfolded reads_by_name_def, rule_format, OF acceptable_payload(1) [OF assms(2)]
        signal_payload_members(1,2) assms(3,4) signal_payload_members(3,4,5) acceptable_payload(2) [OF assms(2)]]
    by (simp add: signal_payload_members body_of_def)
qed

lemma make_acceptable:
  assumes "acceptable a"
  shows "make_signal (body_of t a) = Inr ((body_of t a)\<lparr>sc_action := upper (strip (sa_action a))\<rparr>)"
proof -
  have "safe_signal_id (sa_signal_id a)" using assms by (simp add: acceptable_def path_segment_safe)
  then show ?thesis
    using assms
    by (auto simp: make_signal_def body_of_def acceptable_def path_segment_def length_between_def validate_signal_id_def validate_action_def
        optionally_def is_finite_def Let_def)
qed

lemma posted_new_signal:
  assumes "make_signal body = Inr signal" and "get_signal (sc_signal_id body) (w_db w) = None"
  shows "\<exists>w'. run (post_signals now body) w = (Inr (HttpOk \<lparr>sar_accepted = True, sar_duplicate = False,
     sar_signal_id = sc_signal_id body, sar_status = PENDING\<rparr>), w')"
proof -
  have id: "sd_signal_id (signal_dict_of signal) = sc_signal_id body"
    using make_signal_Inr(1) [OF assms(1)] by (simp add: signal_dict_of_def)
  have "sd_risk_percent (signal_dict_of signal) \<noteq> NaN"
    using make_signal_Inr(6) [OF assms(1)] by (auto simp: signal_dict_of_def is_finite_def)
  with assms(2) id show ?thesis
    by (auto simp: post_signals_def assms(1) submit_signal_def submit_def run_bindP run_utcnow run_db_step
        insert_signal_if_new_def Let_def get_signal_append new_signal_row_def case_prod_beta)
qed

theorem signal_round_trip:
  assumes d: "delivers clock c content_length read http" and n: "reads_by_name read"
    and ok: "acceptable a" and ts: "fromisoformat (timestamp_text now (sa_timestamp a)) = Inr t" "valid_datetime t"
      "minute_offset t"
    and size: "py_int (content_length (signal_payload now a)) = Inr n" "n \<le> 16384"
    and new: "get_signal (sa_signal_id a) (w_db w) = None"
    and send: "send_signal http c now a w = (r, w')"
  shows "r = Inr (J_accepted \<lparr>sar_accepted = True, sar_duplicate = False, sar_signal_id = sa_signal_id a, sar_status = PENDING\<rparr>)
    \<and> (\<exists>row. client_get_signal http c (sa_signal_id a) w' = (Inr (J_status (status_response row)), w')
         \<and> get_signal (sa_signal_id a) (w_db w') = Some row
         \<and> sg_symbol_raw row = sa_symbol a \<and> sg_action row = upper (strip (sa_action a))
         \<and> sg_risk_percent row = sa_risk_percent a \<and> sg_stop_loss row = Some (sa_stop_loss a)
         \<and> sg_take_profit row = sa_take_profit a \<and> sg_status row = PENDING \<and> sg_attempt_count row = 0
         \<and> fromisoformat (sg_signal_timestamp row) = Inr t)"
proof -
  let ?body = "body_of t a"
  have b: "sc_signal_id ?body = sa_signal_id a" "sc_symbol ?body = sa_symbol a" "sc_action ?body = sa_action a"
    "sc_risk_percent ?body = sa_risk_percent a" "sc_stop_loss ?body = Some (sa_stop_loss a)"
    "sc_take_profit ?body = sa_take_profit a" "sc_timestamp ?body = t" by (simp_all add: body_of_def)
  note m = make_acceptable [OF ok, of t] and rd = read_signal [OF n ok ts(1,3)]
  obtain v where v: "run (post_signals clock ?body) w = (Inr (HttpOk \<lparr>sar_accepted = True, sar_duplicate = False,
       sar_signal_id = sa_signal_id a, sar_status = PENDING\<rparr>), v)"
    using posted_new_signal [OF m, of w clock] new by (auto simp: b)
  have "http (Post (cl_base_url c @ ''/api/signals'') (signal_payload now a)) (cl_timeout c) w
      = (Inr (wire J_accepted (fst (run (post_signals clock ?body) w))), v)"
    using d rd m size v by (simp add: delivers_def body_size_limit_def run_bindP run_liftE MAX_REQUEST_BODY_BYTES_def)
  then have s: "r = Inr (J_accepted \<lparr>sar_accepted = True, sar_duplicate = False, sar_signal_id = sa_signal_id a, sar_status = PENDING\<rparr>)"
    "w' = v"
    using send v exchange_ok [of http "Post (cl_base_url c @ ''/api/signals'') (signal_payload now a)" c w _ v]
    by (auto simp: send_signal_def wire_def)
  obtain row where row: "get_signal (sa_signal_id a) (w_db v) = Some row"
    "run (api_get_signal (sa_signal_id a)) v = (Inr (HttpOk (status_response row)), v)"
    "sg_symbol_raw row = sa_symbol a" "sg_action row = upper (strip (sa_action a))"
    "sg_risk_percent row = sa_risk_percent a" "sg_stop_loss row = Some (sa_stop_loss a)"
    "sg_take_profit row = sa_take_profit a" "sg_status row = PENDING" "sg_attempt_count row = 0"
    "fromisoformat (sg_signal_timestamp row) = Inr t"
    using posted_signal_reads_back [OF m _ _ v] new ts(2) unfolding b by auto
  have "http (Get (cl_base_url c @ ''/api/signals/'' @ sa_signal_id a)) (cl_timeout c) v
      = (Inr (wire J_status (Inr (HttpOk (status_response row)))), v)"
    using d ok row(2) by (simp add: delivers_def acceptable_def)
  then have "client_get_signal http c (sa_signal_id a) v = (Inr (J_status (status_response row)), v)"
    unfolding client_get_signal_def by (intro exchange_ok) (simp add: wire_def)
  with row s show ?thesis by auto
qed

subsection \<open>A server that delivers\<close>

definition demo_read :: "payload \<Rightarrow> signal_create option" where
  "demo_read p = (case (map_of p ''signal_id'', map_of p ''timestamp'', map_of p ''symbol'', map_of p ''action'',
        map_of p ''risk_percent'') of
       (Some (JText sid), Some (JText ts), Some (JText symb), Some (JText act), Some (JNumber rp)) \<Rightarrow>
         (case fromisoformat ts of Inl _ \<Rightarrow> None | Inr t \<Rightarrow>
            Some \<lparr>sc_signal_id = sid, sc_timestamp = t, sc_symbol = symb, sc_action = act, sc_risk_percent = rp,
              sc_stop_loss = number_member (map_of p ''stop_loss''), sc_take_profit = number_member (map_of p ''take_profit''),
              sc_strategy = text_member (map_of p ''strategy''), sc_comment = text_member (map_of p ''comment'')\<rparr>)
     | _ \<Rightarrow> None)"

definition demo_length :: "payload \<Rightarrow> string" where
  "demo_length p = ''200''"

definition demo_http :: "string \<Rightarrow> (unit world, api_json) transport" where
  "demo_http url request timeout w = (case request of
       Post target p \<Rightarrow>
         (case demo_read p of
            Some body \<Rightarrow> (case run (body_size_limit (Some (demo_length p)) (post_signals demo_clock body)) w of (r, w') \<Rightarrow>
                (Inr (wire J_accepted r), w'))
          | None \<Rightarrow> (Inr \<lparr>rs_status_code = 422, rs_json = J_detail ''validation error''\<rparr>, w))
     | Get target \<Rightarrow> (case run (api_get_signal (drop (length (url @ ''/api/signals/'')) target)) w of (r, w') \<Rightarrow>
           (Inr (wire J_status r), w')))"

lemma demo_reads: "reads_by_name demo_read"
  by (simp add: reads_by_name_def demo_read_def)

lemma demo_delivers: "delivers demo_clock c demo_length demo_read (demo_http (cl_base_url c))"
  by (simp add: delivers_def demo_http_def)

text \<open>The signal of the example script is acceptable.\<close>

lemma demo_example: "acceptable (example_args (example_signal_id demo_now))"
proof -
  have "path_segment (example_signal_id demo_now)" "upper (strip ''BUY'') = ''BUY''" "flit (1/2) = Fin (1/2)" "positive_finite (flit (217/200))"
    "positive_finite (flit (219/200))" by code_simp+
  moreover have "\<exists>r :: rat. r * 2 = 1 \<and> 0 < r \<and> r \<le> 100" by (rule exI [of _ "1 / 2"]) simp
  ultimately show ?thesis by (simp add: acceptable_def example_args_def optionally_def)
qed

end
