(* ===== verification/Application.thy ===== *)
theory Application
  imports ExecutionWorker
begin

section \<open>Building the application (app/main.py, get_settings of app/config.py)\<close>

text \<open>
  \<open>create_app\<close> and \<open>_build_state\<close>: the settings are those given or the validated environment, the
  symbol map is loaded, and the services are wired to one gateway, one store and one clock. What the
  services share is the world they run in, so the value built is the \<open>service\<close> record; a refused
  configuration or a map file that is not an object is the exception of the source. The inputs are the
  parsed environment, the parsed map file (None when there is no file) and the MetaTrader package the
  import found (None when it is missing).
\<close>

definition get_settings :: "settings \<Rightarrow> settings result" where
  "get_settings env = make_settings env"

definition build_state :: "'s clock \<Rightarrow> 's mt5 \<Rightarrow> json_document option \<Rightarrow> settings \<Rightarrow> 's service result" where
  "build_state now imported map_file cfg =
     bindE (from_file map_file) (\<lambda>symbol_mapper.
     Inr \<lparr>es_mt5 = new_gateway None imported, es_now = now, es_symbol_mapper = symbol_mapper, es_settings = cfg\<rparr>)"

text \<open>\<open>settings or get_settings()\<close>: a given object has been validated when it was made.\<close>

definition create_app ::
  "'s clock \<Rightarrow> 's mt5 \<Rightarrow> json_document option \<Rightarrow> settings option \<Rightarrow> settings \<Rightarrow> 's service result"
where
  "create_app now imported map_file given env =
     bindE (case given of Some cfg \<Rightarrow> Inr cfg | None \<Rightarrow> get_settings env) (build_state now imported map_file)"

text \<open>The module's own application.\<close>

definition app :: "'s clock \<Rightarrow> 's mt5 \<Rightarrow> json_document option \<Rightarrow> settings \<Rightarrow> 's service result" where
  "app now imported map_file env = create_app now imported map_file None env"

lemma build_state_Inr:
  "build_state now imported map_file cfg = Inr svc \<longleftrightarrow>
     (\<exists>m. from_file map_file = Inr m
        \<and> svc = \<lparr>es_mt5 = imported, es_now = now, es_symbol_mapper = m, es_settings = cfg\<rparr>)"
  by (auto simp: build_state_def new_gateway_def bindE_eq_Inr)

lemma app_settings:
  assumes "app now imported map_file env = Inr svc"
  shows "es_settings svc = env" and "make_settings env = Inr env"
  using assms
  by (auto simp: app_def create_app_def get_settings_def bindE_eq_Inr build_state_Inr make_settings_Inr)

end
