(* ===== verification/Executions.thy ===== *)
theory Executions
  imports Verdicts
begin

section \<open>The execution rows\<close>

text \<open>
  Every execution of a reachable store is open, with the status PROCESSING and no end, or closed by the
  pipeline with an end and a status of its own. Recovery writes no execution, so no execution is ever
  RECOVERED_EXECUTED, and the daily count is over the executed and the partially executed ones.
\<close>

subsection \<open>Open and closed\<close>

definition closing :: "execution_status \<Rightarrow> bool" where
  "closing st \<longleftrightarrow> st \<notin> {PENDING, PROCESSING, RECOVERED_EXECUTED}"

definition execution_ok :: "execution_row \<Rightarrow> bool" where
  "execution_ok e \<longleftrightarrow> ex_status e = PROCESSING \<and> ex_finished_at e = None
     \<or> closing (ex_status e) \<and> ex_finished_at e \<noteq> None"

lemma refused_closing: "refused st \<Longrightarrow> closing st"
  by (auto simp: refused_def closing_def)

lemma closing_simps [simp]:
  "closing EXECUTED" "closing EXECUTED_PARTIAL" "closing FAILED_ORDER_SEND" "closing REVIEW_REQUIRED"
  "closing DRY_RUN_APPROVED"
  by (simp_all add: closing_def)

text \<open>A step keeps the rows so.\<close>

definition tidy :: "db \<Rightarrow> db \<Rightarrow> bool" where
  "tidy d d' \<longleftrightarrow> ((\<forall>e \<in> set (db_executions d). execution_ok e) \<longrightarrow> (\<forall>e \<in> set (db_executions d'). execution_ok e))"

interpretation ti: database_effect tidy
  by unfold_locales (simp add: tidy_def)

lemma tidy_same: "db_executions d' = db_executions d \<Longrightarrow> tidy d d'"
  by (simp add: tidy_def)

lemma commits_same: "effects same_executions p \<Longrightarrow> commits tidy p"
  by (rule ti.commits_effects, erule effects_mono) (simp add: same_executions_def tidy_same)

lemma tidy_update:
  assumes "\<And>e. execution_ok e \<Longrightarrow> execution_ok (foldl assign e as)"
  shows "tidy d (snd (update_execution eid as d))"
  using assms by (auto simp: tidy_def set_execution_def set_update_where)

lemma tidy_field: "extra_field a \<Longrightarrow> tidy d (snd (update_execution eid [a] d))"
  using extra_fields_keep [of "[a]"] by (intro tidy_update) (simp add: execution_ok_def)

lemma tidy_finish:
  assumes "closing st" and "list_all extra_field extra"
  shows "tidy d (snd (update_execution eid ([F_status st, F_finished_at t, F_result_message m] @ extra) d))"
  using extra_fields_keep [OF assms(2)] assms(1) by (intro tidy_update) (simp add: execution_ok_def)

lemma tidy_open: "tidy d (snd (insert_execution (execution_fields svc row t) d))"
  by (auto simp: tidy_def insert_execution_def execution_fields_def execution_ok_def Let_def)

lemma tidy_signals [simp]:
  "tidy d (update_signal_status t sid st rs nrm d)" "tidy d (set_symbol_normalized t sid s d)"
  "tidy d (snd (set_daily_loss_baseline t k day eq d))"
  by (rule tidy_same, simp add: update_signal_status_def set_symbol_normalized_def set_daily_loss_baseline_def)+

subsection \<open>The pipeline\<close>

lemma ti_update [quiet_intros]: "extra_field a \<Longrightarrow> effects tidy (db_step (update_execution eid [a]))"
  by (intro ti.touch_db_step tidy_field)

lemma ti_finish [quiet_intros]:
  assumes "closing st" and "list_all extra_field extra"
  shows "effects tidy (finish svc sid eid st msg extra)"
  unfolding finish_def by (intro quiet_intros ti.touch_db_step ti.touch_db_write_now tidy_finish assms) simp

lemma ti_require_ok: "rejects c \<Longrightarrow> effects tidy (require_ok svc sid eid c)"
  unfolding require_ok_def rejects_def
  by (auto intro!: quiet_intros refused_closing split: option.split)

lemma ti_volume [quiet_intros]:
  "effects tidy (calculate_risk_based_volume m symb act e sl eq rp vmin vmax vstep)"
  unfolding calculate_risk_based_volume_def by (intro quiet_intros)

lemma ti_baseline [quiet_intros]:
  "effects tidy (db_step_now now (\<lambda>t. set_daily_loss_baseline t k day eq))"
  "effects tidy (db_write_now now (\<lambda>t. set_symbol_normalized t sid s))"
  by (rule ti.touch_db_step_now ti.touch_db_write_now, simp)+

lemma ti_open_execution: "effects tidy (open_execution svc row)"
  unfolding open_execution_def by (intro quiet_intros ti.touch_db_step tidy_open)

lemma ti_stages:
  "effects tidy (screen_signal svc row eid)" "effects tidy (map_symbol svc row eid)"
  "effects tidy (connect_account svc sid eid)" "effects tidy (market_data svc row eid symb)"
  "effects tidy (quote_checks svc row eid mk)" "effects tidy (count_checks svc sid eid key t)"
  "effects tidy (loss_checks svc row eid key eq t)" "effects tidy (size_order svc row eid symb eq mk)"
  "effects tidy (check_order svc sid eid rq)"
  unfolding screen_signal_def map_symbol_def connect_account_def market_data_def quote_checks_def count_checks_def
    loss_checks_def size_order_def check_order_def Let_def
  by (intro ti.touch_bind_liftE ti_require_ok quiet_intros; simp add: extra_field_def refused_closing)+

lemma commits_send: "commits tidy (send_order svc sid eid rq)"
  unfolding send_order_def Let_def
  by (rule ti.commits_bindP [OF ti.commits_order_send], rule ti.commits_effects)
    (intro quiet_intros; simp add: extra_field_def)

lemma commits_process_signal: "commits tidy (process_signal svc row)"
  unfolding process_signal_def Let_def end_of_def go_on_def
  by (intro ti.commits_bindP ti.commits_bindR ti.commits_prod ti.commits_if commits_send ti.commits_pure
      ti.commits_effects [OF ti.touch_return_early] ti_finish ti_stages [THEN ti.commits_effects]
      ti_open_execution [THEN ti.commits_effects]) (simp_all add: refused_closing)

subsection \<open>The process\<close>

lemma same_requests: "request_handler svc h \<Longrightarrow> effects same_executions h"
proof (induction rule: request_handler.induct)
  case (post body)
  have "db_executions (snd (insert_signal_if_new t s d)) = db_executions d" for t s d
    by (simp add: insert_signal_if_new_def Let_def)
  then have "effects same_executions (submit (es_now svc) signal)" for signal
    unfolding submit_def
    by (intro quiet_intros se.touch_db_step) (auto simp: same_executions_def case_prod_beta Let_def)
  then show ?case
    unfolding ignore_def post_signals_def submit_signal_def by (auto intro!: quiet_intros split: sum.split)
qed (auto simp: ignore_def api_get_signal_def service_get_def api_account_def api_positions_def api_orders_def api_status_def
    or_503_def account_snapshot_def positions_snapshot_def orders_snapshot_def intro!: quiet_intros)

definition executions_inv :: "'s process \<Rightarrow> bool" where
  "executions_inv p \<longleftrightarrow> (\<forall>e \<in> set (db_executions (w_db (sy_world p))). execution_ok e)
     \<and> (\<forall>h. sy_handler p = Some h \<longrightarrow> commits tidy h) \<and> (\<forall>(sid, h) \<in> set (sy_threads p). commits tidy h)"

lemma executions_inv_step:
  assumes "step svc p q" and "executions_inv p"
  shows "executions_inv q"
  using assms
proof (induction rule: step.induct)
  case (start p)
  then show ?case by (simp add: executions_inv_def reset_gateway_def commits_same se_recover)
next
  case (handler_step p f q w)
  then have "commits tidy (Atomic f)" by (simp add: executions_inv_def)
  then have "tidy (w_db (sy_world p)) (w_db w)" "commits tidy q"
    using handler_step.hyps(2) by (simp_all add: commits_Atomic) (metis fst_conv snd_conv)+
  with handler_step.prems show ?case by (simp add: executions_inv_def tidy_def)
next
  case (request p h)
  then show ?case by (simp add: executions_inv_def commits_same same_requests)
next
  case (idle p w)
  then have "db_executions (w_db w) = db_executions (w_db (sy_world p))"
    by (auto simp: claim_def claim_next_pending_def Let_def case_prod_beta split: if_splits option.splits)
  with idle show ?case by (simp add: executions_inv_def)
next
  case (claimed p row w)
  then have "db_executions (w_db w) = db_executions (w_db (sy_world p))"
    by (auto simp: claim_def claim_next_pending_def Let_def case_prod_beta split: if_splits option.splits)
  with claimed show ?case by (simp add: executions_inv_def commits_process_signal)
next
  case (thread_step p ts sid f us q w)
  then have "commits tidy (Atomic f)" by (simp add: executions_inv_def)
  then have "tidy (w_db (sy_world p)) (w_db w)" "commits tidy q"
    using thread_step.hyps(2) by (simp_all add: commits_Atomic) (metis fst_conv snd_conv)+
  with thread_step show ?case by (simp add: executions_inv_def tidy_def)
next
  case (stop p)
  have "commits tidy (gw_shutdown (es_mt5 svc))" by (rule ti.commits_effects) (intro quiet_intros)
  with stop show ?case by (simp add: executions_inv_def)
qed (simp_all add: executions_inv_def)

theorem reachable_executions: "reachable svc p \<Longrightarrow> executions_inv p"
proof (induction rule: reachable.induct)
  case (init s)
  then show ?case by (simp add: executions_inv_def initial_def empty_db_def)
next
  case (step p q)
  show ?case by (rule executions_inv_step [OF step.hyps(2) step.IH])
qed

text \<open>What the daily count then counts.\<close>

lemma count_of_executed:
  assumes "\<forall>e \<in> set (db_executions d). execution_ok e"
  shows "count_executed_trades_since key since d
    = int (length (filter (\<lambda>e. ex_status e \<in> {EXECUTED, EXECUTED_PARTIAL}
        \<and> ex_account_key e = Some key \<and> since \<le> ex_started_at e) (db_executions d)))"
proof -
  have "counts_as_trade (ex_status e) \<longleftrightarrow> ex_status e \<in> {EXECUTED, EXECUTED_PARTIAL}" if "e \<in> set (db_executions d)" for e
    using that assms by (auto simp: counts_as_trade_def execution_ok_def closing_def)
  then show ?thesis
    unfolding count_executed_trades_since_def
    by (intro arg_cong [where f = "\<lambda>xs. int (length xs)"] filter_cong refl) simp
qed

end
