(* ===== verification/Accuracy.thy ===== *)
theory Accuracy
  imports RiskService VolumeCalculator
begin

section \<open>The accuracy of the checks\<close>

text \<open>
  The spread and the daily loss are compared with their limits after two and three float operations.
  For amounts between \<open>2^-100\<close> and \<open>2^100\<close> the comparison is that of the exact amounts but for a
  relative \<open>2^-50\<close> around the limit.
\<close>

lemma rnd_range:
  assumes "p2 a \<le> x" and "x \<le> p2 b" and "- 1022 \<le> a" and "- 1074 \<le> b" and "b \<le> 900"
  shows "\<exists>y. rnd x = Fin y \<and> p2 a \<le> y \<and> y \<le> p2 b \<and> x * (1 - ulp53) \<le> y \<and> y \<le> x * (1 + ulp53)"
proof -
  note r = round_val_range [OF assms(1-4)]
  have "p2 (- 1022) \<le> p2 a" using assms(3) by simp
  with assms(1) r(4) have "2 powi (- 1022) \<le> \<bar>x\<bar>" unfolding p2_def by linarith
  from round_val_rel_error [OF this] r(4) have "\<bar>round_val x - x\<bar> \<le> x * ulp53" by (simp add: ulp53_def)
  from abs_le_D2 [OF this] have "x * (1 - ulp53) \<le> round_val x" by (simp add: algebra_simps)
  with r(1-3) r(5) [OF assms(5)] show ?thesis by (intro exI [of _ "round_val x"]) simp
qed

lemma ulp53_margin:
  "(1 + ulp53) ^ 2 \<le> 1 + 1 / 2 ^ 50" "1 - 1 / 2 ^ 50 \<le> (1 - ulp53) ^ 2"
  "(1 + ulp53) ^ 3 \<le> 1 + 1 / 2 ^ 50" "1 - 1 / 2 ^ 50 \<le> (1 - ulp53) ^ 3"
  by (simp_all add: ulp53_def power2_eq_square power3_eq_cube)

lemma regroup:
  fixes d p v :: rat
  shows "d / p * v ^ 2 = d * v / p * v" and "100 * d / p * v ^ 3 = d / p * v ^ 2 * 100 * v"
  by (simp_all add: power2_eq_square power3_eq_cube)

text \<open>A difference over a positive number, as the two checks compute it.\<close>

lemma quot_range:
  assumes "moderate d" and "moderate p"
  obtains q where "quot (rnd d) p = Fin q" and "p2 (- 200) \<le> q" and "q \<le> p2 200"
    and "d / p * (1 - ulp53) ^ 2 \<le> q" and "q \<le> d / p * (1 + ulp53) ^ 2"
proof -
  note pos = assms [THEN moderate_pos] and u = ulp53_pos
  obtain e where e: "rnd d = Fin e" "p2 (- 100) \<le> e" "e \<le> p2 100" "d * (1 - ulp53) \<le> e" "e \<le> d * (1 + ulp53)"
    using assms(1) rnd_range [of "- 100" d 100] by (auto simp: moderate_def)
  have m: "p2 (- 200) \<le> e / p" "e / p \<le> p2 200"
    using p2_div_le [of p "- 100" e 100] div_le_p2 [of "- 100" p e 100] e(2,3) assms(2) pos by (auto simp: moderate_def)
  then obtain q where q: "rnd (e / p) = Fin q" "p2 (- 200) \<le> q" "q \<le> p2 200"
    "e / p * (1 - ulp53) \<le> q" "q \<le> e / p * (1 + ulp53)"
    using rnd_range [of "- 200" "e / p" 200] by auto
  have "d * (1 - ulp53) / p * (1 - ulp53) \<le> e / p * (1 - ulp53)"
    using e(4) pos u by (intro mult_right_mono divide_right_mono) auto
  then have "d / p * (1 - ulp53) ^ 2 \<le> q" using q(4) unfolding regroup by linarith
  moreover have "e / p * (1 + ulp53) \<le> d * (1 + ulp53) / p * (1 + ulp53)"
    using e(5) pos u by (intro mult_right_mono divide_right_mono) auto
  then have "q \<le> d / p * (1 + ulp53) ^ 2" using q(5) unfolding regroup by linarith
  ultimately show thesis using that [of q] e(1) q(1-3) by (simp add: quot_def)
qed

text \<open>From a bound on a computed value to one on the exact value.\<close>

lemma exact_mono:
  fixes d p c m :: rat
  assumes "0 \<le> d" and "0 < p" and "c \<le> m"
  shows "d / p * c * p \<le> d * m"
  using assms by (simp add: mult_left_mono)

lemma exact_upper:
  fixes d p c m n :: rat
  assumes "0 \<le> d" and "0 < p" and "c \<le> m"
  shows "n \<le> d / p * c \<Longrightarrow> n * p \<le> d * m" and "n < d / p * c \<Longrightarrow> n * p < d * m"
  using exact_mono [OF assms] assms(2)
  by (meson mult_right_mono less_imp_le order_trans mult_strict_right_mono order_less_le_trans)+

lemma exact_lower:
  fixes d p c m n :: rat
  assumes "0 \<le> d" and "0 < p" and "m \<le> c"
  shows "d / p * c \<le> n \<Longrightarrow> d * m \<le> n * p" and "d / p * c < n \<Longrightarrow> d * m < n * p"
proof -
  have m: "d * m \<le> d / p * c * p" using assms by (simp add: mult_left_mono)
  show "d / p * c \<le> n \<Longrightarrow> d * m \<le> n * p" and "d / p * c < n \<Longrightarrow> d * m < n * p"
    using m assms(2) by (meson mult_right_mono less_imp_le order_trans mult_strict_right_mono order_le_less_trans)+
qed

lemma spread_accurate:
  assumes "0 < b" and "a = b \<or> moderate (a - b)" and "moderate p" and "0 \<le> n"
  shows "\<exists>c. check_spread (Fin b) (Fin a) (Fin p) n = Inr c
    \<and> (if rc_ok c then (a - b) * (1 - 1 / 2 ^ 50) \<le> of_int n * p
       else rc_status c = Some REJECTED_SPREAD \<and> of_int n * p < (a - b) * (1 + 1 / 2 ^ 50))"
proof -
  have p: "0 < p" by (rule moderate_pos) fact
  have ab: "b \<le> a" using assms(2) moderate_pos [of "a - b"] by auto
  have c: "check_spread (Fin b) (Fin a) (Fin p) n = Inr (if flt (fint n) (spread_points b a p)
      then rc_fail REJECTED_SPREAD (SpreadExceeds (spread_points b a p) n) else rc_pass)"
    using assms(1) p ab by (simp add: check_spread_Fin)
  show ?thesis
  proof (cases "a = b")
    case True
    have "spread_points b b p = Fin 0" using p by (simp add: spread_points_def quot_def)
    then show ?thesis using c True assms(4) p by (simp add: fint_def rc_pass_def)
  next
    case False
    then have m: "moderate (a - b)" using assms(2) by blast
    from quot_range [OF m assms(3)] obtain q where q: "spread_points b a p = Fin q"
      "(a - b) / p * (1 - ulp53) ^ 2 \<le> q" "q \<le> (a - b) / p * (1 + ulp53) ^ 2" unfolding spread_points_def by blast
    have d: "0 \<le> a - b" using ab by simp
    have "of_int n < q \<Longrightarrow> of_int n * p < (a - b) * (1 + 1 / 2 ^ 50)"
      using q(3) by (intro exact_upper(2) [OF d p ulp53_margin(1)]) simp
    moreover have "q \<le> of_int n \<Longrightarrow> (a - b) * (1 - 1 / 2 ^ 50) \<le> of_int n * p"
      using q(2) by (intro exact_lower(1) [OF d p ulp53_margin(2)]) simp
    ultimately show ?thesis using c q(1) by (auto simp: fint_def rc_pass_def rc_fail_def)
  qed
qed

lemma loss_accurate:
  assumes "moderate base" and "base \<le> eq \<or> moderate (base - eq)" and "0 < mx"
  shows "\<exists>c. check_daily_loss (Fin eq) (Fin base) (Fin mx) = Inr c
    \<and> (if rc_ok c then 100 * (base - eq) * (1 - 1 / 2 ^ 50) < mx * base
       else rc_status c = Some REJECTED_DAILY_LOSS \<and> mx * base \<le> 100 * (base - eq) * (1 + 1 / 2 ^ 50))"
proof -
  have base: "0 < base" by (rule moderate_pos) fact
  note c = check_daily_loss_Fin [OF base, of eq "Fin mx"]
  show ?thesis
  proof (cases "base \<le> eq")
    case True
    have "fle (loss_percent eq base) (Fin 0)" by (rule loss_percent_no_loss [OF base True])
    then have "\<not> fle (Fin mx) (loss_percent eq base)" using assms(3) fle_trans [of "Fin mx" _ "Fin 0"] by auto
    moreover have "100 * (base - eq) * (1 - 1 / 2 ^ 50) \<le> 0" using True by (simp add: mult_nonpos_nonneg)
    moreover have "0 < mx * base" using assms(3) base by simp
    ultimately show ?thesis using c by (auto simp: rc_pass_def)
  next
    case False
    then have m: "moderate (base - eq)" and d: "0 \<le> base - eq" using assms(2) by auto
    from quot_range [OF m assms(1)] obtain q where q: "quot (rnd (base - eq)) base = Fin q" "p2 (- 200) \<le> q" "q \<le> p2 200"
      "(base - eq) / base * (1 - ulp53) ^ 2 \<le> q" "q \<le> (base - eq) / base * (1 + ulp53) ^ 2" by blast
    have "p2 0 \<le> (100 :: rat)" "(100 :: rat) \<le> p2 7" by (simp_all add: p2_def power_int_def)
    then have "p2 (- 200 + 0) \<le> q * 100" "q * 100 \<le> p2 (200 + 7)"
      using q(2,3) p2_pos [of "- 200"] by (intro p2_mult_le mult_le_p2; linarith)+
    then obtain l where l: "rnd (q * 100) = Fin l" "q * 100 * (1 - ulp53) \<le> l" "l \<le> q * 100 * (1 + ulp53)"
      using rnd_range [of "- 200" "q * 100" 207] by auto
    have lp: "loss_percent eq base = Fin l" by (simp add: loss_percent_def q(1) l(1))
    let ?d = "100 * (base - eq)"
    have "(base - eq) / base * (1 - ulp53) ^ 2 * 100 * (1 - ulp53) \<le> q * 100 * (1 - ulp53)"
      using q(4) ulp53_pos by (intro mult_right_mono) auto
    with l(2) have low: "?d / base * (1 - ulp53) ^ 3 \<le> l" unfolding regroup by linarith
    have "q * 100 * (1 + ulp53) \<le> (base - eq) / base * (1 + ulp53) ^ 2 * 100 * (1 + ulp53)"
      using q(5) ulp53_pos by (intro mult_right_mono) auto
    with l(3) have high: "l \<le> ?d / base * (1 + ulp53) ^ 3" unfolding regroup by linarith
    have d: "0 \<le> ?d" using d by simp
    have "l < mx \<Longrightarrow> ?d * (1 - 1 / 2 ^ 50) < mx * base"
      using low by (intro exact_lower(2) [OF d base ulp53_margin(4)]) simp
    moreover have "mx \<le> l \<Longrightarrow> mx * base \<le> ?d * (1 + 1 / 2 ^ 50)"
      using high by (intro exact_upper(1) [OF d base ulp53_margin(3)]) simp
    ultimately show ?thesis using c lp by (auto simp: rc_pass_def rc_fail_def not_le)
  qed
qed

end
