(* ===== verification/StopLoss.thy ===== *)
theory StopLoss
  imports Verdicts
begin

section \<open>Signals without a stop loss\<close>

text \<open>
  The volume is sized by the distance to the stop, so a signal without one cannot be sized: whatever
  \<open>require_stop_loss\<close> says, the pipeline never gets past that stage with it.
\<close>

text \<open>What follows a stage that never lets a signal pass does not matter.\<close>

lemma dead_end:
  assumes "\<And>tr a. \<not> after m tr (Ret (Inr a))"
  shows "bindR m k = bindR m h"
  using assms
proof (induction m)
  case (Ret r)
  then show ?case using after.here [of "Ret r"] by (cases r) (auto simp: bindR_def)
next
  case (Atomic f)
  have "bindR (fst (f w)) k = bindR (fst (f w)) h" for w
  proof (rule Atomic.IH)
    fix tr a
    show "\<not> after (fst (f w)) tr (Ret (Inr a))"
      using Atomic.prems [of "(w, snd (f w)) # tr" a] by (blast intro: after.step)
  qed
  then show ?case by (simp add: bindR_def fun_eq_iff prod_eq_iff)
qed (simp add: bindR_def)

lemma unsized:
  "after (calculate_risk_based_volume m symb act e None eq rp vmin vmax vstep) tr (Ret v) \<Longrightarrow> \<not> vr_ok v"
  by (auto simp: calculate_risk_based_volume_def vr_fail_def split: if_splits)

lemma size_order_stops:
  assumes "sg_stop_loss row = None"
  shows "\<not> after (size_order svc row eid symb eq mk) tr (Ret (Inr v))"
proof
  assume "after (size_order svc row eid symb eq mk) tr (Ret (Inr v))"
  then obtain tr1 tr2 r where
    r: "after (calculate_risk_based_volume (es_mt5 svc) symb (sg_action row) (mk_entry_price mk) None eq (sg_risk_percent row)
       (dflt_value (flit (1/100)) (si_volume_min (mk_symbol_info mk))) (dflt_value (Fin 100) (si_volume_max (mk_symbol_info mk)))
       (dflt_value (flit (1/100)) (si_volume_step (mk_symbol_info mk)))) tr1 (Ret r)"
    and k: "after (if \<not> vr_ok r then return_early (finish svc (sg_signal_id row) eid
                (if vr_reason r = Some VolumeBelowMinimum then REJECTED_VOLUME_BELOW_MINIMUM else REJECTED_VOLUME) (vr_reason r) [])
         else bindP (db_step (update_execution eid [F_calculated_volume (vr_volume r)])) (\<lambda>_. Ret (Inr (vr_volume r)))) tr2 (Ret (Inr v))"
    unfolding size_order_def Let_def returns_bindP assms by blast
  from unsized [OF r] k show False by (auto simp: return_early_def returns_bindP)
qed

text \<open>A program that sends nothing, returns only refusals, and never gets to its end.\<close>

definition refuses :: "string \<Rightarrow> ('s world, execution_status + 'a) prog \<Rightarrow> bool" where
  "refuses sid p \<longleftrightarrow> quiet (\<lambda>s. s = sid) p \<and> early p \<and> (\<forall>tr a. \<not> after p tr (Ret (Inr a)))"

lemma passed_bindR: "after (bindR m k) tr (Ret (Inr b)) \<Longrightarrow> \<exists>a tr'. after (k a) tr' (Ret (Inr b))"
proof -
  assume "after (bindR m k) tr (Ret (Inr b))"
  then obtain r tr' where "after (case r of Inl st \<Rightarrow> Ret (Inl st) | Inr a \<Rightarrow> k a) tr' (Ret (Inr b))"
    unfolding bindR_def returns_bindP by blast
  then show ?thesis by (cases r) auto
qed

lemma refuses_bindR:
  assumes "quiet (\<lambda>s. s = sid) m" and "early m" and "\<And>a. refuses sid (k a)"
  shows "refuses sid (bindR m k)"
  unfolding refuses_def
proof (intro conjI allI)
  show "quiet (\<lambda>s. s = sid) (bindR m k)" using assms by (intro quiet.touch_bindR) (simp_all add: refuses_def)
  show "early (bindR m k)" using assms by (intro early_bindR) (simp_all add: refuses_def)
  show "\<not> after (bindR m k) tr (Ret (Inr b))" for tr b
    using passed_bindR [of m k tr b] assms(3) by (auto simp: refuses_def)
qed

lemma refuses_stop:
  assumes "quiet (\<lambda>s. s = sid) m" and "early m" and "\<And>tr a. \<not> after m tr (Ret (Inr a))"
  shows "refuses sid (bindR m k)"
  unfolding dead_end [OF assms(3), where k = k and h = "\<lambda>_. Throw TypeError"]
  by (rule refuses_bindR [OF assms(1,2)]) (simp add: refuses_def quiet.touch_Throw early_Throw)

lemma refuses_prod: "(\<And>x y. refuses sid (k x y)) \<Longrightarrow> refuses sid (case v of (x, y) \<Rightarrow> k x y)"
  by (cases v) simp

text \<open>The pipeline.\<close>

lemma process_signal_without_stop:
  assumes "sg_stop_loss row = None"
  shows "\<exists>m. process_signal svc row = bindP (open_execution svc row) (\<lambda>eid. end_of (m eid))
    \<and> (\<forall>eid. refuses (sg_signal_id row) (m eid))"
  unfolding process_signal_def Let_def
  apply (rule exI, rule conjI, rule refl, rule allI)
  apply (rule refuses_bindR [OF quiet_screen_signal early_stages(1)])
  apply (rule refuses_bindR [OF quiet_map_symbol early_stages(2)])
  apply (rule refuses_bindR [OF quiet_connect_account early_stages(3)])
  apply (rule refuses_prod)
  apply (rule refuses_bindR [OF quiet_market_data early_stages(4)])
  apply (rule refuses_bindR [OF quiet_quote_checks early_stages(5)])
  apply (rule refuses_bindR [OF quiet_count_checks early_stages(6)])
  apply (rule refuses_bindR [OF quiet_loss_checks early_stages(7)])
  apply (rule refuses_stop [OF quiet_size_order early_stages(8) size_order_stops [OF assms]])
  done

theorem no_stop_no_order:
  assumes "sg_stop_loss row = None" and "after (process_signal svc row) tr q"
  shows "order_sends (own_events tr) = [] \<and> (\<forall>st. q = Ret st \<longrightarrow> refused st)"
proof -
  let ?sid = "sg_signal_id row"
  obtain m where m: "process_signal svc row = bindP (open_execution svc row) (\<lambda>eid. end_of (m eid))"
    and p: "\<And>eid. quiet (\<lambda>s. s = ?sid) (m eid)" "\<And>eid. early (m eid)"
      "\<And>eid tr st. \<not> after (m eid) tr (Ret (Inr st))"
    using process_signal_without_stop [OF assms(1)] unfolding refuses_def by blast
  have "quiet (\<lambda>s. s = ?sid) (process_signal svc row)"
    unfolding m by (intro quiet.touch_bindP quiet_open_execution quiet_end_of p(1))
  then have "order_sends (own_events tr) = []" using assms(2) by (rule quiet_own_events)
  moreover have "refused st" if q: "q = Ret st" for st
  proof -
    from assms(2) obtain eid tr1 r where "after (m eid) tr1 (Ret r)" "st = merge_sum r"
      unfolding q m end_of_def returns_bindP by auto
    then show ?thesis using p(2) [of eid] p(3) [of eid] by (cases r) (auto simp: early_def)
  qed
  ultimately show ?thesis by blast
qed

end
