(* ===== verification/Decision.thy ===== *)
theory Decision
  imports Verdicts Scenario
begin

section \<open>The decision of the pipeline\<close>

text \<open>
  A reference for \<open>process_signal\<close>: the table of its gates, in order, each with the condition that
  stops a signal there and the status it stops with. Against a terminal whose answers depend only on
  the question, and a clock that stands still, the pipeline run alone decides as the table does, the
  exceptions included. The table says what is asked, not how: no row is written and no step taken.
\<close>

subsection \<open>Tables of gates\<close>

type_synonym gate = "bool result \<times> execution_status"

fun first_stop :: "gate list \<Rightarrow> 'a \<Rightarrow> (execution_status + 'a) result" where
  "first_stop [] a = Inr (Inr a)"
| "first_stop ((c, st) # gs) a = bindE c (\<lambda>stops. if stops then Inr (Inl st) else first_stop gs a)"

lemma first_stop_append:
  "first_stop (gs @ hs) b = bindE (first_stop gs a) (\<lambda>r. case r of Inl st \<Rightarrow> Inr (Inl st) | Inr _ \<Rightarrow> first_stop hs b)"
  by (induction gs a rule: first_stop.induct) (auto simp: bindE_def split: sum.split)

lemma first_stop_Inr: "first_stop gs a = Inr (Inr b) \<Longrightarrow> b = a"
  by (induction gs a rule: first_stop.induct) (auto simp: bindE_eq_Inr split: if_splits)

subsection \<open>A steady terminal\<close>

record terminal =
  te_login :: bool
  te_account :: "account_info option"
  te_symbol :: "string \<Rightarrow> symbol_info option"
  te_select :: "string \<Rightarrow> bool"
  te_tick :: "string \<Rightarrow> tick option"
  te_positions :: "sdk_object list option"
  te_profit :: "int \<Rightarrow> string \<Rightarrow> pyfloat \<Rightarrow> pyfloat \<Rightarrow> pyfloat option"
  te_check :: "order_request \<Rightarrow> trade_result option"
  te_send :: "order_request \<Rightarrow> trade_result option"

text \<open>The price of one lot is the only profit the bridge asks for. The outside may change otherwise.\<close>

definition steady :: "'s sdk \<Rightarrow> terminal \<Rightarrow> bool" where
  "steady k t \<longleftrightarrow> (\<forall>s. fst (mt_account_info k s) = Inr (te_account t) \<and> fst (mt_positions_get k s) = Inr (te_positions t)
     \<and> (\<forall>args. fst (mt_initialize k args s) = Inr (te_login t))
     \<and> (\<forall>symb. fst (mt_symbol_info k symb s) = Inr (te_symbol t symb) \<and> fst (mt_symbol_info_tick k symb s) = Inr (te_tick t symb)
          \<and> fst (mt_symbol_select k symb True s) = Inr (te_select t symb)
          \<and> (\<forall>ty price sl. fst (mt_order_calc_profit k ty symb (Fin 1) price sl s) = Inr (te_profit t ty symb price sl)))
     \<and> (\<forall>rq. fst (mt_order_check k rq s) = Inr (te_check t rq) \<and> fst (mt_order_send k rq s) = Inr (te_send t rq)))"

text \<open>What the questions of the pipeline amount to.\<close>

definition connects :: "settings \<Rightarrow> terminal \<Rightarrow> bool \<Rightarrow> bool result" where
  "connects cfg t was_connected =
     (if was_connected \<and> te_account t \<noteq> None then Inr True
      else if cfg_mt5_login cfg = [] then Inr (te_login t) else map_sum id (\<lambda>_. te_login t) (py_int (cfg_mt5_login cfg)))"

definition usable_symbol :: "terminal \<Rightarrow> string \<Rightarrow> symbol_info option" where
  "usable_symbol t symb = (case te_symbol t symb of
       Some si \<Rightarrow> if si_visible si = Some False \<and> \<not> te_select t symb then None else Some si
     | None \<Rightarrow> None)"

definition spread_stops :: "pyfloat \<Rightarrow> pyfloat \<Rightarrow> pyfloat \<Rightarrow> int \<Rightarrow> bool result" where
  "spread_stops bid ask point mx =
     (if fle bid (Fin 0) \<or> fle ask (Fin 0) \<or> fle point (Fin 0) \<or> flt ask bid then Inr True
      else map_sum id (flt (fint mx)) (fdiv (fsub ask bid) point))"

definition loss_stops :: "pyfloat \<Rightarrow> pyfloat option \<Rightarrow> pyfloat \<Rightarrow> bool result" where
  "loss_stops equity known mx =
     (if known = None \<and> equity = NaN then Inl IntegrityError
      else let base = dflt_value equity known
           in if fle base (Fin 0) then Inr True
              else map_sum id (\<lambda>q. fle mx (fmul q (Fin 100))) (fdiv (fsub base equity) base))"

definition wrong_side :: "string \<Rightarrow> pyfloat option \<Rightarrow> pyfloat \<Rightarrow> bool \<Rightarrow> bool" where
  "wrong_side action stop_loss entry required = (case stop_loss of
       None \<Rightarrow> required
     | Some sl \<Rightarrow> action = ''BUY'' \<and> fle entry sl \<or> action = ''SELL'' \<and> fle sl entry)"

definition sized :: "terminal \<Rightarrow> signal_row \<Rightarrow> string \<Rightarrow> market \<Rightarrow> pyfloat \<Rightarrow> volume_result option result" where
  "sized t row symb mk equity =
     (let entry = mk_entry_price mk; si = mk_symbol_info mk
      in if fle entry (Fin 0) then Inr None
      else case sg_stop_loss row of
        None \<Rightarrow> Inl TypeError
      | Some sl \<Rightarrow> if fle sl (Fin 0) then Inr None
          else case te_profit t (order_type_of (sg_action row)) symb entry sl of
             None \<Rightarrow> Inr None
           | Some loss \<Rightarrow> map_sum id Some (size_volume loss equity (sg_risk_percent row)
               (dflt_value (flit (1/100)) (si_volume_min si)) (dflt_value (Fin 100) (si_volume_max si))
               (dflt_value (flit (1/100)) (si_volume_step si))))"

definition unsizable :: "volume_result option \<Rightarrow> bool" where
  "unsizable v = (case v of None \<Rightarrow> True | Some r \<Rightarrow> \<not> vr_ok r \<and> vr_reason r \<noteq> Some VolumeBelowMinimum)"

definition below_minimum :: "volume_result option \<Rightarrow> bool" where
  "below_minimum v = (case v of None \<Rightarrow> False | Some r \<Rightarrow> \<not> vr_ok r \<and> vr_reason r = Some VolumeBelowMinimum)"

text \<open>An answer is stored before it is read, and SQLite's integers have 64 bits.\<close>

definition check_stops :: "trade_result option \<Rightarrow> bool result" where
  "check_stops r = (case r of None \<Rightarrow> Inr True
     | Some res \<Rightarrow> if sqlite_int (tr_retcode res) then Inr (tr_retcode res \<notin> {Some 0, Some 10009}) else Inl OverflowError)"

definition broker_answer :: "trade_result option \<Rightarrow> execution_status result" where
  "broker_answer r = (case r of None \<Rightarrow> Inr REVIEW_REQUIRED
     | Some res \<Rightarrow>
         if sqlite_int (tr_retcode res)
            \<and> (tr_retcode res \<in> {Some 10008, Some 10009, Some 10010} \<longrightarrow> sqlite_int (tr_order res) \<and> sqlite_int (tr_deal res))
         then Inr (broker_verdict r) else Inl OverflowError)"

text \<open>
  The table, for a claimed row on a store \<open>d\<close> at the instant \<open>now\<close>. A gate that reads an answer comes
  after the gate that stops when there is none.
\<close>

definition market_of :: "terminal \<Rightarrow> signal_row \<Rightarrow> string \<Rightarrow> market" where
  "market_of t row symb =
     (let tk = the (te_tick t symb)
      in \<lparr>mk_symbol_info = the (usable_symbol t symb), mk_bid = tk_bid tk, mk_ask = tk_ask tk,
          mk_entry_price = (if sg_action row = ''BUY'' then tk_ask tk else tk_bid tk), mk_broker_now = the (tick_datetime (tk_time tk))\<rparr>)"

definition order_of :: "'s service \<Rightarrow> terminal \<Rightarrow> signal_row \<Rightarrow> order_request" where
  "order_of svc t row =
     (let symb = the (resolve (es_symbol_mapper svc) (sg_symbol_raw row)); mk = market_of t row symb;
          v = the (vr_volume (the (projr (sized t row symb mk (ai_equity (the (te_account t)))))))
      in build_order_request svc symb (sg_action row) v (mk_entry_price mk) (sg_stop_loss row) (sg_take_profit row)
           (mk_symbol_info mk) (sg_signal_id row))"

definition screen_gates :: "settings \<Rightarrow> signal_row \<Rightarrow> datetime \<Rightarrow> gate list" where
  "screen_gates cfg row now =
     (let age = (\<lambda>ts. epoch_us now - signal_us ts); sent = fromisoformat (sg_signal_timestamp row)
      in [(map_sum id (\<lambda>ts. cfg_max_signal_age_seconds cfg * 1000000 < age ts) sent, REJECTED_STALE),
          (map_sum id (\<lambda>ts. age ts < - 5000000) sent, REJECTED_FUTURE_TIMESTAMP),
          (Inr (sg_action row = ''BUY'' \<and> \<not> cfg_allow_market_buy cfg), REJECTED_RISK),
          (Inr (sg_action row = ''SELL'' \<and> \<not> cfg_allow_market_sell cfg), REJECTED_RISK)])"

definition account_gates :: "settings \<Rightarrow> terminal \<Rightarrow> bool \<Rightarrow> gate list" where
  "account_gates cfg t was_connected =
     [(map_sum id Not (connects cfg t was_connected), FAILED_MT5_UNAVAILABLE),
      (Inr (te_account t = None), FAILED_MT5_UNAVAILABLE),
      (Inr (account_key_for (the (te_account t)) = None), FAILED_MT5_UNAVAILABLE)]"

definition market_gates :: "terminal \<Rightarrow> string \<Rightarrow> gate list" where
  "market_gates t symb =
     [(Inr (usable_symbol t symb = None), REJECTED_SYMBOL_UNAVAILABLE),
      (Inr (te_tick t symb = None), FAILED_MT5_UNAVAILABLE),
      (Inr (tick_datetime (tk_time (the (te_tick t symb))) = None), FAILED_BROKER_TIME_UNKNOWN)]"

definition quote_gates :: "settings \<Rightarrow> signal_row \<Rightarrow> market \<Rightarrow> gate list" where
  "quote_gates cfg row mk =
     [(Inr (wrong_side (sg_action row) (sg_stop_loss row) (mk_entry_price mk) (cfg_require_stop_loss cfg)), REJECTED_STOP_LOSS),
      (spread_stops (mk_bid mk) (mk_ask mk) (dflt_value (Fin 0) (si_point (mk_symbol_info mk))) (cfg_max_spread_points cfg),
         REJECTED_SPREAD)]"

definition count_gates :: "settings \<Rightarrow> terminal \<Rightarrow> db \<Rightarrow> string \<Rightarrow> datetime \<Rightarrow> gate list" where
  "count_gates cfg t d key broker_now =
     [(Inr (cfg_max_trades_per_day cfg \<le> count_executed_trades_since key (isoformat (start_of_trading_day broker_now)) d),
         REJECTED_DAILY_TRADE_LIMIT),
      (Inr (te_positions t = None), FAILED_MT5_STATE_UNKNOWN),
      (Inr (cfg_max_open_positions cfg \<le> int (length (filter (\<lambda>p. get_attr p ''magic'' ANone = AInt (cfg_magic_number cfg)) (the (te_positions t))))),
         REJECTED_POSITION_LIMIT)]"

definition loss_gates :: "settings \<Rightarrow> signal_row \<Rightarrow> db \<Rightarrow> string \<Rightarrow> pyfloat \<Rightarrow> datetime \<Rightarrow> gate list" where
  "loss_gates cfg row d key equity broker_now =
     [(loss_stops equity (get_daily_loss_baseline key (trading_day_key broker_now) d) (cfg_max_daily_loss_percent cfg),
         REJECTED_DAILY_LOSS),
      (Inr (fle (sg_risk_percent row) (Fin 0) \<or> flt (cfg_max_risk_percent cfg) (sg_risk_percent row)), REJECTED_RISK)]"

definition size_gates :: "volume_result option result \<Rightarrow> gate list" where
  "size_gates v =
     [(map_sum id unsizable v, REJECTED_VOLUME), (map_sum id below_minimum v, REJECTED_VOLUME_BELOW_MINIMUM)]"

definition gates :: "'s service \<Rightarrow> terminal \<Rightarrow> bool \<Rightarrow> datetime \<Rightarrow> signal_row \<Rightarrow> db \<Rightarrow> gate list" where
  "gates svc t was_connected now row d =
     (let cfg = es_settings svc; found = resolve (es_symbol_mapper svc) (sg_symbol_raw row); symb = the found;
          account = the (te_account t); key = the (account_key_for account); equity = ai_equity account;
          mk = market_of t row symb
      in screen_gates cfg row now
         @ (Inr (found = None), REJECTED_SYMBOL) # account_gates cfg t was_connected
         @ market_gates t symb
         @ quote_gates cfg row mk
         @ count_gates cfg t d key (mk_broker_now mk)
         @ loss_gates cfg row d key equity (mk_broker_now mk)
         @ size_gates (sized t row symb mk equity)
         @ [(check_stops (te_check t (order_of svc t row)), REJECTED_ORDER_CHECK),
            (Inr (cfg_dry_run cfg \<or> \<not> cfg_live_execution_enabled cfg), DRY_RUN_APPROVED)])"

text \<open>Past the last gate the order is sent, and the verdict is the broker's.\<close>

definition decision :: "'s service \<Rightarrow> terminal \<Rightarrow> bool \<Rightarrow> datetime \<Rightarrow> signal_row \<Rightarrow> db \<Rightarrow> execution_status result" where
  "decision svc t was_connected now row d =
     bindE (first_stop (gates svc t was_connected now row d) ()) (\<lambda>r. case r of
         Inl st \<Rightarrow> Inr st
       | Inr _ \<Rightarrow> broker_answer (te_send t (order_of svc t row)))"

subsection \<open>Stages and their gates\<close>

text \<open>
  \<open>staged P m gs a Q\<close>: from a world with \<open>P\<close>, the stage \<open>m\<close> stops as the gates \<open>gs\<close> say, and when they
  let it pass it answers \<open>a\<close> and leaves a world with \<open>Q\<close>.
\<close>

definition staged ::
  "('w \<Rightarrow> bool) \<Rightarrow> ('w, execution_status + 'a) prog \<Rightarrow> gate list \<Rightarrow> 'a \<Rightarrow> ('w \<Rightarrow> bool) \<Rightarrow> bool"
where
  "staged P m gs a Q \<longleftrightarrow> (\<forall>w. P w \<longrightarrow> fst (run m w) = first_stop gs a
     \<and> (first_stop gs a = Inr (Inr a) \<longrightarrow> Q (snd (run m w))))"

text \<open>\<open>yields P m r Q\<close>: a step of a stage, with its result.\<close>

definition yields :: "('w \<Rightarrow> bool) \<Rightarrow> ('w, 'a) prog \<Rightarrow> 'a result \<Rightarrow> ('w \<Rightarrow> bool) \<Rightarrow> bool" where
  "yields P m r Q \<longleftrightarrow> (\<forall>w. P w \<longrightarrow> fst (run m w) = r \<and> (\<forall>x. r = Inr x \<longrightarrow> Q (snd (run m w))))"

lemma staged_bindR_past:
  assumes m: "staged P m gs a Q" and k: "first_stop gs a = Inr (Inr a) \<Longrightarrow> staged Q (k a) hs b R"
  shows "staged P (bindR m k) (gs @ hs) b R"
  unfolding staged_def
proof (intro allI impI)
  fix w assume P: "P w"
  obtain r w' where r: "run m w = (r, w')" by (cases "run m w")
  have f: "first_stop gs a = r" "r = Inr (Inr a) \<Longrightarrow> Q w'" using m P r by (auto simp: staged_def)
  have fs: "first_stop (gs @ hs) b = bindE r (\<lambda>x. case x of Inl st \<Rightarrow> Inr (Inl st) | Inr _ \<Rightarrow> first_stop hs b)"
    using first_stop_append [of gs hs b a] by (simp only: f(1))
  show "fst (run (bindR m k) w) = first_stop (gs @ hs) b
      \<and> (first_stop (gs @ hs) b = Inr (Inr b) \<longrightarrow> R (snd (run (bindR m k) w)))"
  proof (cases "r = Inr (Inr a)")
    case True
    then have "run (bindR m k) w = run (k a) w'" "first_stop (gs @ hs) b = first_stop hs b"
      using fs by (simp_all add: bindR_def run_bindP r)
    then show ?thesis using k f(1) f(2) [OF True] True by (simp add: staged_def)
  next
    case False
    then have "r = Inl e \<or> r = Inr (Inl st)" if "\<And>e. r \<noteq> Inl e" "\<And>st. r \<noteq> Inr (Inl st)" for e st
      using that first_stop_Inr [of gs a] f(1) by (metis sum.exhaust)
    then consider e where "r = Inl e" | st where "r = Inr (Inl st)" by blast
    then show ?thesis by cases (simp_all add: fs bindR_def run_bindP r)
  qed
qed

lemma staged_bindR: "staged P m gs a Q \<Longrightarrow> staged Q (k a) hs b R \<Longrightarrow> staged P (bindR m k) (gs @ hs) b R"
  by (rule staged_bindR_past)

lemma staged_bindR_one:
  "staged P m [g] a Q \<Longrightarrow> staged Q (k a) gs b R \<Longrightarrow> staged P (bindR m k) (g # gs) b R"
  using staged_bindR [of P m "[g]" a Q k gs b R] by simp

lemma staged_bindP:
  "yields P m (Inr x) Q \<Longrightarrow> staged Q (k x) gs a R \<Longrightarrow> staged P (bindP m k) gs a R"
  by (fastforce simp: staged_def yields_def run_bindP split: sum.split prod.split)

lemma staged_yields:
  assumes "yields P m r Q" and "\<And>x. r = Inr x \<Longrightarrow> staged Q (k x) ((Inr (g x), st) # gs) a R"
  shows "staged P (bindP m k) ((map_sum id g r, st) # gs) a R"
proof (cases r)
  case (Inl e)
  then show ?thesis using assms(1) by (fastforce simp: staged_def yields_def run_bindP split: prod.split)
next
  case (Inr x)
  then show ?thesis using staged_bindP assms by fastforce
qed

lemma staged_Ret: "(\<And>w. P w \<Longrightarrow> Q w) \<Longrightarrow> staged P (Ret (Inr a)) [] a Q"
  by (simp add: staged_def)

lemma staged_pass: "(b \<Longrightarrow> False) \<Longrightarrow> staged P m gs a Q \<Longrightarrow> staged P m ((Inr b, st) # gs) a Q"
  by (cases b) (auto simp: staged_def)

lemma run_finish:
  "fst (run (finish svc sid eid st msg extra) w) = (if list_all bindable extra then Inr st else Inl OverflowError)"
  by (simp add: finish_def run_bindP run_utcnow run_db_step run_db_write_now update_execution_def split: prod.split)

lemma staged_finish: "staged P (return_early (finish svc sid eid st msg [])) ((Inr True, st) # gs) a Q"
  using run_finish [of svc sid eid st msg "[]"]
  by (auto simp: staged_def return_early_def run_bindP split: sum.split prod.split) (metis fst_conv sum.inject(2) sum.distinct(1))+

lemma staged_if:
  "b = c \<Longrightarrow> (\<not> c \<Longrightarrow> staged P m gs a Q)
     \<Longrightarrow> staged P (if b then return_early (finish svc sid eid st msg []) else m) ((Inr c, st) # gs) a Q"
  by (auto intro: staged_finish staged_pass)

lemma staged_option:
  "(\<And>x. v = Some x \<Longrightarrow> staged P (k x) gs a Q)
     \<Longrightarrow> staged P (case v of None \<Rightarrow> return_early (finish svc sid eid st msg []) | Some x \<Rightarrow> k x)
          ((Inr (v = None), st) # gs) a Q"
  by (cases v) (auto intro: staged_finish staged_pass)

lemma yields_liftE: "yields P (liftE r) r P"
  by (simp add: yields_def run_liftE)

lemma yields_bindP: "yields P m (Inr x) Q \<Longrightarrow> yields Q (k x) r R \<Longrightarrow> yields P (bindP m k) r R"
  by (fastforce simp: yields_def run_bindP split: sum.split prod.split)

lemma yields_Ret: "(\<And>w. P w \<Longrightarrow> Q w) \<Longrightarrow> yields P (Ret x) (Inr x) Q"
  by (simp add: yields_def)

text \<open>A call whose answer is not used.\<close>

lemma staged_ignoring:
  assumes "\<And>w. \<exists>x. fst (run m w) = Inr x" and "\<And>x. staged (\<lambda>_. True) (k x) gs a Q"
  shows "staged P (bindP m k) gs a Q"
  unfolding staged_def
proof (intro allI impI)
  fix w
  obtain x w' where "run m w = (Inr x, w')" using assms(1) [of w] by (metis prod.collapse)
  then show "fst (run (bindP m k) w) = first_stop gs a
      \<and> (first_stop gs a = Inr (Inr a) \<longrightarrow> Q (snd (run (bindP m k) w)))"
    using assms(2) [of x] by (simp add: run_bindP staged_def)
qed

lemma run_last_error: "\<exists>x. fst (run (gw_last_error m) w) = Inr x"
  by (cases m) (auto simp: gw_last_error_def run_catchP run_bindP run_sdk_call case_prod_beta Let_def split: sum.split)

lemma staged_require:
  assumes "rc_ok c \<longleftrightarrow> \<not> b" and "b \<Longrightarrow> rc_status c = Some st"
  shows "staged P (require_ok svc sid eid c) [(Inr b, st)] () P"
  using assms staged_finish [of P svc sid eid st]
  by (cases b) (auto simp: require_ok_def staged_def)

subsection \<open>The world of a run\<close>

text \<open>
  What a run leaves alone while it decides: its own row is \<open>PROCESSING\<close>, the rows of others and the
  baselines are those of \<open>d\<close>; the connection flag matters until the connection is made.
\<close>

definition deciding :: "bool option \<Rightarrow> int \<Rightarrow> db \<Rightarrow> 's world \<Rightarrow> bool" where
  "deciding c eid d w \<longleftrightarrow> (\<exists>e. db_executions (w_db w) = db_executions d @ [e] \<and> ex_id e = eid \<and> ex_status e = PROCESSING)
     \<and> eid \<notin> ex_id ` set (db_executions d) \<and> db_baselines (w_db w) = db_baselines d
     \<and> (\<forall>b. c = Some b \<longrightarrow> w_connected w = b)"

definition still :: "'s service \<Rightarrow> terminal \<Rightarrow> datetime \<Rightarrow> bool" where
  "still svc t now \<longleftrightarrow> (\<exists>k. es_mt5 svc = Some k \<and> steady k t) \<and> (\<forall>s. utc_of_us (fst (es_now svc s)) = now)"

lemma yields_utcnow: "still svc t now \<Longrightarrow> yields (deciding c eid d) (utcnow (es_now svc)) (Inr now) (deciding c eid d)"
  by (auto simp: yields_def still_def run_utcnow deciding_def Let_def case_prod_beta)

lemma yields_sdk_call:
  "(\<And>s. fst (f s) = Inr x) \<Longrightarrow> yields (deciding c eid d) (sdk_call ev f) (Inr x) (deciding c eid d)"
  by (auto simp: yields_def run_sdk_call deciding_def Let_def case_prod_beta)

lemma yields_update:
  assumes "\<And>r. ex_status (assign r f) = ex_status r" and "bindable f"
  shows "yields (deciding c eid d) (db_step (update_execution eid [f])) (Inr ()) (deciding c eid d)"
proof -
  have "map (\<lambda>r. if ex_id r = eid then assign r f else r) (db_executions d) = db_executions d"
    if "eid \<notin> ex_id ` set (db_executions d)" using that by (intro map_idI) auto
  then show ?thesis
    using assms by (auto simp: yields_def run_db_step deciding_def update_execution_def set_execution_def update_where_def)
qed

lemma yields_symbol:
  "yields (deciding c eid d) (db_write_now now (\<lambda>n. set_symbol_normalized n sid symb)) (Inr ()) (deciding c eid d)"
  by (auto simp: yields_def run_db_write_now deciding_def set_symbol_normalized_def Let_def case_prod_beta)

lemma deciding_count: "deciding c eid d w \<Longrightarrow> count_executed_trades_since key since (w_db w) = count_executed_trades_since key since d"
  by (auto simp: deciding_def count_executed_trades_since_def counts_as_trade_def)

lemma deciding_baseline: "deciding c eid d w \<Longrightarrow> get_daily_loss_baseline key day (w_db w) = get_daily_loss_baseline key day d"
  by (auto simp: deciding_def get_daily_loss_baseline_def)

lemma yields_read:
  "yields (deciding c eid d) (db_read (count_executed_trades_since key since))
     (Inr (count_executed_trades_since key since d)) (deciding c eid d)"
  "yields (deciding c eid d) (db_read (get_daily_loss_baseline key day))
     (Inr (get_daily_loss_baseline key day d)) (deciding c eid d)"
  by (simp_all add: yields_def run_db_read deciding_count deciding_baseline)

subsection \<open>The stages\<close>

lemma staged_screen:
  assumes s: "still svc t now" and age: "0 \<le> cfg_max_signal_age_seconds (es_settings svc)" "cfg_max_signal_age_seconds (es_settings svc) \<le> 2 ^ 32"
  shows "staged (deciding c eid d) (screen_signal svc row eid) (screen_gates (es_settings svc) row now) () (deciding c eid d)"
proof (cases "fromisoformat (sg_signal_timestamp row)")
  case (Inl e)
  then show ?thesis by (simp add: screen_signal_def screen_gates_def staged_def)
next
  case (Inr ts)
  let ?age = "epoch_us now - signal_us ts" and ?mx = "cfg_max_signal_age_seconds (es_settings svc)"
  let ?fresh = "[(Inr (?mx * 1000000 < ?age), REJECTED_STALE), (Inr (?age < - 5000000), REJECTED_FUTURE_TIMESTAMP)]"
  let ?rest = "[(Inr (sg_action row = ''BUY'' \<and> \<not> cfg_allow_market_buy (es_settings svc)), REJECTED_RISK),
     (Inr (sg_action row = ''SELL'' \<and> \<not> cfg_allow_market_sell (es_settings svc)), REJECTED_RISK)]"
  have g: "screen_gates (es_settings svc) row now = ?fresh @ ?rest" by (simp add: screen_gates_def Inr Let_def)
  have f: "staged (deciding c eid d) (require_ok svc (sg_signal_id row) eid (check_freshness ts ?mx now)) ?fresh () (deciding c eid d)"
  proof (cases "?mx * 1000000 < ?age")
    case True
    then show ?thesis
      using staged_require [of "check_freshness ts ?mx now" True REJECTED_STALE] check_freshness_status [OF age]
      by (simp add: rc_ok_iff_status staged_def)
  next
    case False
    have "staged (deciding c eid d) (require_ok svc (sg_signal_id row) eid (check_freshness ts ?mx now))
        [(Inr (?age < - 5000000), REJECTED_FUTURE_TIMESTAMP)] () (deciding c eid d)"
      using False by (intro staged_require) (simp_all add: rc_ok_iff_status check_freshness_status [OF age])
    then show ?thesis by (rule staged_pass [rotated]) (use False in simp)
  qed
  show ?thesis
    unfolding screen_signal_def Let_def Inr liftE_simps bindP.simps g
    by (intro staged_bindP [OF yields_utcnow [OF s]] staged_bindR [OF f] staged_if staged_Ret) simp_all
qed

lemma staged_map_symbol:
  assumes "still svc t now"
  shows "staged (deciding c eid d) (map_symbol svc row eid)
    [(Inr (resolve (es_symbol_mapper svc) (sg_symbol_raw row) = None), REJECTED_SYMBOL)]
    (the (resolve (es_symbol_mapper svc) (sg_symbol_raw row))) (deciding c eid d)"
  unfolding map_symbol_def
  by (intro staged_option staged_bindP [OF yields_update] staged_bindP [OF yields_symbol]) (simp_all add: staged_Ret)

lemma yields_initialize:
  assumes "es_mt5 svc = Some k" and "steady k t"
  shows "yields (deciding None eid d) (gw_initialize (es_mt5 svc) p l pw sv) (Inr (te_login t)) (deciding None eid d)"
  using assms
  by (auto simp: yields_def gw_initialize_def gw_last_error_def run_steps Let_def case_prod_beta steady_def deciding_def
      split: sum.split)

definition login_given :: "settings \<Rightarrow> int option result" where
  "login_given cfg = (if cfg_mt5_login cfg \<noteq> [] then map_sum id Some (py_int (cfg_mt5_login cfg)) else Inr None)"

lemma yields_connect_attempts:
  assumes "es_mt5 svc = Some k" and "steady k t" and "login_given (es_settings svc) = Inr l"
  shows "yields (deciding None eid d) (connect_attempts n svc) (Inr (n \<noteq> 0 \<and> te_login t)) (deciding None eid d)"
proof (induction n)
  case (Suc n)
  show ?case
    unfolding connect_attempts.simps Let_def assms(3) [unfolded login_given_def] liftE_simps bindP.simps
    using Suc by (intro yields_bindP [OF yields_initialize [OF assms(1,2)]]) (auto intro: yields_Ret)
qed (simp add: yields_Ret)

lemma yields_attempts_from_text:
  assumes "es_mt5 svc = Some k" and "steady k t"
  shows "yields (deciding None eid d) (connect_attempts (Suc n) svc)
    (map_sum id (\<lambda>_. te_login t) (login_given (es_settings svc))) (deciding None eid d)"
proof (cases "login_given (es_settings svc)")
  case (Inl e)
  then show ?thesis by (simp add: Let_def yields_def login_given_def)
next
  case (Inr l)
  then show ?thesis using yields_connect_attempts [OF assms Inr, of eid d "Suc n"] by simp
qed

lemma yields_ensure_connected:
  assumes "still svc t now"
  shows "yields (deciding (Some c) eid d) (ensure_connected svc) (connects (es_settings svc) t c) (deciding None eid d)"
proof -
  obtain k where k: "es_mt5 svc = Some k" "steady k t" using assms by (auto simp: still_def)
  have probe: "yields (deciding (Some c) eid d) (gw_connected (es_mt5 svc)) (Inr (c \<and> te_account t \<noteq> None)) (deciding None eid d)"
    using k by (auto simp: yields_def gw_connected_def run_steps case_prod_beta steady_def deciding_def)
  have r: "connects (es_settings svc) t c = (if c \<and> te_account t \<noteq> None then Inr True
      else map_sum id (\<lambda>_. te_login t) (login_given (es_settings svc)))"
    by (auto simp: connects_def login_given_def sum.map_comp comp_def id_def)
  show ?thesis
    unfolding ensure_connected_def r
    using yields_attempts_from_text [OF k, of eid d 2]
    by (intro yields_bindP [OF probe]) (auto simp: MAX_MT5_CONNECT_ATTEMPTS_def numeral_3_eq_3 numeral_2_eq_2 intro: yields_Ret)
qed

lemma staged_connect:
  assumes s: "still svc t now"
  shows "staged (deciding (Some c) eid d) (connect_account svc sid eid) (account_gates (es_settings svc) t c)
    (the (account_key_for (the (te_account t))), ai_equity (the (te_account t))) (deciding None eid d)"
proof -
  obtain k where k: "es_mt5 svc = Some k" "steady k t" using s by (auto simp: still_def)
  have a: "yields (deciding None eid d) (gw_account_info (es_mt5 svc)) (Inr (te_account t)) (deciding None eid d)"
    using k by (auto simp: gw_account_info_def steady_def intro!: yields_sdk_call)
  show ?thesis
    unfolding connect_account_def account_gates_def
    by (intro staged_yields [OF yields_ensure_connected [OF s]] staged_if staged_bindP [OF a] staged_option)
      (auto intro!: staged_option staged_bindP [OF yields_update] staged_Ret)
qed

lemma staged_market:
  assumes s: "still svc t now"
  shows "staged (deciding None eid d) (market_data svc row eid symb) (market_gates t symb)
    (market_of t row symb) (deciding None eid d)"
proof -
  obtain k where k: "es_mt5 svc = Some k" "steady k t" using s by (auto simp: still_def)
  have i: "yields (deciding None eid d) (gw_ensure_symbol (es_mt5 svc) symb) (Inr (usable_symbol t symb)) (deciding None eid d)"
    using k by (auto simp: yields_def gw_ensure_symbol_def run_steps case_prod_beta steady_def deciding_def usable_symbol_def
        Let_def split: option.splits)
  have q: "yields (deciding None eid d) (gw_symbol_info_tick (es_mt5 svc) symb) (Inr (te_tick t symb)) (deciding None eid d)"
    using k by (auto simp: gw_symbol_info_tick_def steady_def intro!: yields_sdk_call)
  have c: "yields (deciding None eid d) (gw_server_time (es_mt5 svc) symb)
      (Inr (case te_tick t symb of None \<Rightarrow> None | Some tk \<Rightarrow> tick_datetime (tk_time tk))) (deciding None eid d)"
    unfolding gw_server_time_def by (intro yields_bindP [OF q] yields_Ret)
  show ?thesis
  proof (cases "te_tick t symb")
    case None
    then show ?thesis
      unfolding market_data_def market_gates_def market_of_def entry_price_of_def action_value.simps Let_def
      using q by (intro staged_bindP [OF i] staged_option staged_bindP) (auto intro: staged_finish)
  next
    case (Some tk)
    then have c: "yields (deciding None eid d) (gw_server_time (es_mt5 svc) symb) (Inr (tick_datetime (tk_time tk))) (deciding None eid d)"
      using c by simp
    show ?thesis
      unfolding market_data_def market_gates_def market_of_def entry_price_of_def action_value.simps Let_def
      by (intro staged_bindP [OF i] staged_option staged_bindP [OF q] staged_bindP [OF yields_update] staged_bindP [OF c])
        (use Some c in \<open>auto intro!: staged_bindP [OF c] staged_option staged_Ret\<close>)
  qed
qed

text \<open>The gates of the quote, of the counts, of the loss and of the size.\<close>

lemma staged_quote:
  "staged P (quote_checks svc row eid mk) (quote_gates (es_settings svc) row mk) () P"
proof -
  let ?cfg = "es_settings svc" and ?pt = "dflt_value (Fin 0) (si_point (mk_symbol_info mk))"
  have sl: "staged P (require_ok svc (sg_signal_id row) eid (check_stop_loss (sg_action row) (sg_stop_loss row) (mk_entry_price mk)
        (cfg_require_stop_loss ?cfg)))
      [(Inr (wrong_side (sg_action row) (sg_stop_loss row) (mk_entry_price mk) (cfg_require_stop_loss ?cfg)), REJECTED_STOP_LOSS)] () P"
    by (rule staged_require) (auto simp: check_stop_loss_def wrong_side_def rc_pass_def rc_fail_def split: option.splits if_splits)
  have sp: "staged P (bindP (liftE (check_spread (mk_bid mk) (mk_ask mk) ?pt (cfg_max_spread_points ?cfg)))
        (\<lambda>c. require_ok svc (sg_signal_id row) eid c))
      [(spread_stops (mk_bid mk) (mk_ask mk) ?pt (cfg_max_spread_points ?cfg), REJECTED_SPREAD)] () P"
  proof -
    have "spread_stops (mk_bid mk) (mk_ask mk) ?pt (cfg_max_spread_points ?cfg)
        = map_sum id (\<lambda>c. \<not> rc_ok c) (check_spread (mk_bid mk) (mk_ask mk) ?pt (cfg_max_spread_points ?cfg))"
      by (cases "fdiv (fsub (mk_ask mk) (mk_bid mk)) ?pt")
        (simp_all add: spread_stops_def check_spread_def rc_pass_def rc_fail_def)
    moreover have "rc_status c = Some REJECTED_SPREAD" if "check_spread b a p n = Inr c" "\<not> rc_ok c" for b a p n c
      using that by (auto simp: check_spread_def rc_pass_def rc_fail_def bindE_eq_Inr split: if_splits)
    ultimately show ?thesis by (auto intro!: staged_yields [OF yields_liftE] staged_require)
  qed
  show ?thesis
    unfolding quote_checks_def quote_gates_def Let_def by (rule staged_bindR_one [OF sl]) (use sp in simp)
qed

lemma staged_count:
  assumes s: "still svc t now"
  shows "staged (deciding None eid d) (count_checks svc sid eid key broker_now)
    (count_gates (es_settings svc) t d key broker_now) () (deciding None eid d)"
proof -
  obtain k where k: "es_mt5 svc = Some k" "steady k t" using s by (auto simp: still_def)
  have p: "yields (deciding None eid d) (gw_positions_get (es_mt5 svc)) (Inr (te_positions t)) (deciding None eid d)"
    using k by (auto simp: gw_positions_get_def steady_def intro!: yields_sdk_call)
  show ?thesis
    unfolding count_checks_def count_gates_def bridge_positions_def Let_def
  proof (rule staged_bindP [OF yields_read(1)], rule staged_bindR_one)
    show "staged (deciding None eid d) (require_ok svc sid eid (check_daily_trade_limit
        (count_executed_trades_since key (isoformat (start_of_trading_day broker_now)) d) (cfg_max_trades_per_day (es_settings svc))))
        [(Inr (cfg_max_trades_per_day (es_settings svc) \<le> count_executed_trades_since key (isoformat (start_of_trading_day broker_now)) d),
          REJECTED_DAILY_TRADE_LIMIT)] () (deciding None eid d)"
      by (rule staged_require) (auto simp: check_daily_trade_limit_def rc_pass_def rc_fail_def)
  next
    show "staged (deciding None eid d) (bindP (gw_positions_get (es_mt5 svc)) (\<lambda>result. case result of
           None \<Rightarrow> bindP (gw_last_error (es_mt5 svc)) (\<lambda>_.
                   return_early (finish svc sid eid FAILED_MT5_STATE_UNKNOWN (Some PositionQueryFailed) []))
         | Some positions \<Rightarrow> require_ok svc sid eid
               (check_position_limit (int (length (filter (\<lambda>p. get_attr p ''magic'' ANone = AInt (cfg_magic_number (es_settings svc))) positions)))
                  (cfg_max_open_positions (es_settings svc)))))
       [(Inr (te_positions t = None), FAILED_MT5_STATE_UNKNOWN),
        (Inr (cfg_max_open_positions (es_settings svc)
           \<le> int (length (filter (\<lambda>p. get_attr p ''magic'' ANone = AInt (cfg_magic_number (es_settings svc))) (the (te_positions t))))),
           REJECTED_POSITION_LIMIT)]
       () (deciding None eid d)"
    proof (cases "te_positions t")
      case None
      then show ?thesis
        by (intro staged_bindP [OF p]) (simp, intro staged_ignoring run_last_error staged_finish)
    next
      case (Some ps)
      show ?thesis
        by (rule staged_bindP [OF p], rule staged_pass)
          (use Some in \<open>auto intro!: staged_require simp: check_position_limit_def rc_pass_def rc_fail_def\<close>)
    qed
  qed
qed

text \<open>A missing baseline is written, and does not change what the gate reads.\<close>

lemma staged_loss:
  assumes s: "still svc t now"
  shows "staged (deciding None eid d) (loss_checks svc row eid key equity broker_now)
    (loss_gates (es_settings svc) row d key equity broker_now) () (\<lambda>_. True)"
proof -
  let ?mx = "cfg_max_daily_loss_percent (es_settings svc)" and ?known = "get_daily_loss_baseline key (trading_day_key broker_now) d"
  have l: "loss_stops equity known ?mx = (if known = None \<and> equity = NaN then Inl IntegrityError
      else map_sum id (\<lambda>c. \<not> rc_ok c) (check_daily_loss equity (dflt_value equity known) ?mx))" for known
    by (cases "fdiv (fsub (dflt_value equity known) equity) (dflt_value equity known)")
      (simp_all add: loss_stops_def check_daily_loss_def rc_pass_def rc_fail_def Let_def)
  have st: "rc_status c = Some REJECTED_DAILY_LOSS" if "check_daily_loss e b m = Inr c" "\<not> rc_ok c" for e b m c
    using that by (auto simp: check_daily_loss_def rc_pass_def rc_fail_def bindE_eq_Inr Let_def split: if_splits)
  have base: "yields (deciding None eid d) (case ?known of Some b \<Rightarrow> Ret b
      | None \<Rightarrow> bindP (db_step_now (es_now svc) (\<lambda>n. set_daily_loss_baseline n key (trading_day_key broker_now) equity))
          (\<lambda>_. Ret equity)) (if ?known = None \<and> equity = NaN then Inl IntegrityError else Inr (dflt_value equity ?known)) (\<lambda>_. True)"
    by (cases ?known) (auto simp: yields_def dflt_value_def run_bindP run_db_step_now set_daily_loss_baseline_def Let_def
        case_prod_beta deciding_baseline)
  have risk: "staged (\<lambda>_. True) (require_ok svc (sg_signal_id row) eid (check_risk_percent (sg_risk_percent row)
      (cfg_max_risk_percent (es_settings svc))))
      [(Inr (fle (sg_risk_percent row) (Fin 0) \<or> flt (cfg_max_risk_percent (es_settings svc)) (sg_risk_percent row)), REJECTED_RISK)]
      () (\<lambda>_. True)"
    by (rule staged_require) (auto simp: check_risk_percent_def rc_pass_def rc_fail_def)
  show ?thesis
  proof (cases "?known = None \<and> equity = NaN")
    case True
    then show ?thesis
      using base by (fastforce simp: loss_checks_def loss_gates_def Let_def loss_stops_def staged_def yields_def run_bindP run_db_read deciding_baseline
          split: sum.split prod.split)
  next
    case False
    then have b: "yields (deciding None eid d) (case ?known of Some b \<Rightarrow> Ret b
      | None \<Rightarrow> bindP (db_step_now (es_now svc) (\<lambda>n. set_daily_loss_baseline n key (trading_day_key broker_now) equity))
          (\<lambda>_. Ret equity)) (Inr (dflt_value equity ?known)) (\<lambda>_. True)" using base by (simp only: if_False)
    show ?thesis
      unfolding loss_checks_def loss_gates_def Let_def l if_not_P [OF False]
      by (rule staged_bindP [OF yields_read(2)], rule staged_bindP [OF b], rule staged_yields [OF yields_liftE])
        (rule staged_bindR_one [OF staged_require risk]; simp add: st)
  qed
qed

lemma sized_agrees:
  assumes s: "still svc t now" and entry: "entry = mk_entry_price mk" and si: "si = mk_symbol_info mk"
  shows "\<exists>r. yields (\<lambda>_. True) (calculate_risk_based_volume (es_mt5 svc) symb (sg_action row) entry (sg_stop_loss row) equity
      (sg_risk_percent row) (dflt_value (flit (1/100)) (si_volume_min si)) (dflt_value (Fin 100) (si_volume_max si))
      (dflt_value (flit (1/100)) (si_volume_step si))) r (\<lambda>_. True)
    \<and> (case sized t row symb mk equity of
         Inl e \<Rightarrow> r = Inl e
       | Inr None \<Rightarrow> \<exists>v. r = Inr v \<and> \<not> vr_ok v \<and> vr_reason v \<noteq> Some VolumeBelowMinimum
       | Inr (Some v) \<Rightarrow> r = Inr v)"
proof -
  obtain k where k: "es_mt5 svc = Some k" "steady k t" using s by (auto simp: still_def)
  have p: "yields (\<lambda>_. True) (gw_order_calc_profit (es_mt5 svc) ty symb (Fin 1) entry sl) (Inr (te_profit t ty symb entry sl)) (\<lambda>_. True)"
    for ty sl
    using k by (auto simp: gw_order_calc_profit_def steady_def yields_def run_sdk_call Let_def case_prod_beta)
  have ret: "yields (\<lambda>_. True) (Ret v) (Inr v) (\<lambda>_. True)" "yields (\<lambda>_. True) (Throw e) (Inl e) (\<lambda>_. True)"
    for v :: volume_result and e
    by (simp_all add: yields_def)
  note sized = sized_def Let_def entry [symmetric] si [symmetric]
  note priced = yields_bindP [OF p]
  show ?thesis
  proof (cases "sg_stop_loss row")
    case None
    then show ?thesis
      using ret unfolding calculate_risk_based_volume_def sized by (fastforce simp: vr_fail_def)
  next
    case (Some sl)
    let ?profit = "te_profit t (order_type_of (sg_action row)) symb entry sl"
    let ?size = "\<lambda>loss. size_volume loss equity (sg_risk_percent row) (dflt_value (flit (1/100)) (si_volume_min si))
       (dflt_value (Fin 100) (si_volume_max si)) (dflt_value (flit (1/100)) (si_volume_step si))"
    consider "fle entry (Fin 0) \<or> fle sl (Fin 0)" | "\<not> fle entry (Fin 0)" "\<not> fle sl (Fin 0)" "?profit = None"
      | loss where "\<not> fle entry (Fin 0)" "\<not> fle sl (Fin 0)" "?profit = Some loss" by (cases ?profit) auto
    then show ?thesis
    proof cases
      case 1
      then show ?thesis
        using Some ret unfolding calculate_risk_based_volume_def sized by (fastforce simp: vr_fail_def)
    next
      case 2
      then have "yields (\<lambda>_. True) (calculate_risk_based_volume (es_mt5 svc) symb (sg_action row) entry (sg_stop_loss row) equity
          (sg_risk_percent row) (dflt_value (flit (1/100)) (si_volume_min si)) (dflt_value (Fin 100) (si_volume_max si))
          (dflt_value (flit (1/100)) (si_volume_step si))) (Inr (vr_fail None OrderCalcProfitFailed)) (\<lambda>_. True)"
        using Some by (simp add: calculate_risk_based_volume_def) (rule priced, simp add: ret)
      then show ?thesis using 2 Some by (intro exI conjI) (assumption, simp add: sized vr_fail_def)
    next
      case 3
      then have "yields (\<lambda>_. True) (calculate_risk_based_volume (es_mt5 svc) symb (sg_action row) entry (sg_stop_loss row) equity
          (sg_risk_percent row) (dflt_value (flit (1/100)) (si_volume_min si)) (dflt_value (Fin 100) (si_volume_max si))
          (dflt_value (flit (1/100)) (si_volume_step si))) (?size loss) (\<lambda>_. True)"
        using Some by (simp add: calculate_risk_based_volume_def) (rule priced, simp add: yields_liftE)
      then show ?thesis using 3 Some by (intro exI [of _ "?size loss"]) (cases "?size loss"; simp add: sized)
    qed
  qed
qed

lemma staged_size:
  assumes s: "still svc t now"
  shows "staged (\<lambda>_. True) (size_order svc row eid symb equity mk)
    (size_gates (sized t row symb mk equity))
    (vr_volume (the (projr (sized t row symb mk equity)))) (\<lambda>_. True)"
proof -
  let ?v = "sized t row symb mk equity"
  obtain r where y: "yields (\<lambda>_. True) (calculate_risk_based_volume (es_mt5 svc) symb (sg_action row) (mk_entry_price mk)
      (sg_stop_loss row) equity (sg_risk_percent row) (dflt_value (flit (1/100)) (si_volume_min (mk_symbol_info mk)))
      (dflt_value (Fin 100) (si_volume_max (mk_symbol_info mk))) (dflt_value (flit (1/100)) (si_volume_step (mk_symbol_info mk)))) r (\<lambda>_. True)"
    and r: "case ?v of Inl e \<Rightarrow> r = Inl e | Inr None \<Rightarrow> \<exists>v. r = Inr v \<and> \<not> vr_ok v \<and> vr_reason v \<noteq> Some VolumeBelowMinimum
       | Inr (Some v) \<Rightarrow> r = Inr v"
    using sized_agrees [OF s refl refl, of symb row mk equity] by blast
  have stop: "staged (\<lambda>_. True) (if \<not> vr_ok v then return_early (finish svc (sg_signal_id row) eid
        (if vr_reason v = Some VolumeBelowMinimum then REJECTED_VOLUME_BELOW_MINIMUM else REJECTED_VOLUME) (vr_reason v) [])
      else bindP (db_step (update_execution eid [F_calculated_volume (vr_volume v)])) (\<lambda>_. Ret (Inr (vr_volume v))))
     [(Inr (\<not> vr_ok v \<and> vr_reason v \<noteq> Some VolumeBelowMinimum), REJECTED_VOLUME),
      (Inr (\<not> vr_ok v \<and> vr_reason v = Some VolumeBelowMinimum), REJECTED_VOLUME_BELOW_MINIMUM)] (vr_volume v) (\<lambda>_. True)" for v
    using run_finish [of svc "sg_signal_id row" eid _ "vr_reason v" "[]"]
    by (auto simp: staged_def return_early_def run_bindP run_db_step update_execution_def split: sum.split prod.split)
      (metis fst_conv sum.inject(2) sum.distinct(1))+
  show ?thesis
  proof (cases ?v)
    case (Inl e)
    have "staged (\<lambda>_. True) (bindP m k) ((Inl e, st) # gs) a R" if "yields (\<lambda>_. True) m (Inl e) (\<lambda>_. True)" for m k st gs a R
      using staged_yields [OF that, of k "\<lambda>_. True"] by simp
    then show ?thesis using y r Inl by (simp add: size_order_def size_gates_def Let_def)
  next
    case (Inr x)
    show ?thesis
    proof (cases x)
      case None
      then obtain v where "r = Inr v" "\<not> vr_ok v" "vr_reason v \<noteq> Some VolumeBelowMinimum" using r Inr by auto
      then show ?thesis
        using y Inr None unfolding size_order_def size_gates_def Let_def
        by (intro staged_bindP [of _ _ v]) (simp_all add: unsizable_def staged_finish)
    next
      case (Some v)
      then have "r = Inr v" using r Inr by simp
      with y Inr Some stop [of v] show ?thesis
        unfolding size_order_def size_gates_def Let_def by (intro staged_bindP [of _ _ v]) (simp_all add: unsizable_def below_minimum_def)
    qed
  qed
qed

lemma staged_check:
  assumes s: "still svc t now"
  shows "staged (\<lambda>_. True) (check_order svc sid eid rq) [(check_stops (te_check t rq), REJECTED_ORDER_CHECK)] () (\<lambda>_. True)"
proof -
  obtain k where k: "es_mt5 svc = Some k" "steady k t" using s by (auto simp: still_def)
  have c: "yields (\<lambda>_. True) (gw_order_check (es_mt5 svc) rq) (Inr (te_check t rq)) (\<lambda>_. True)"
    using k by (auto simp: gw_order_check_def steady_def yields_def run_sdk_call Let_def case_prod_beta)
  let ?fails = "\<lambda>_. te_check t rq = None \<or> \<not> is_check_success (result_retcode (te_check t rq))"
  have w: "yields (\<lambda>_. True) (db_step (update_execution eid [F_order_check_retcode (result_retcode (te_check t rq))]))
      (if sqlite_int (result_retcode (te_check t rq)) then Inr () else Inl OverflowError) (\<lambda>_. True)"
    by (simp add: yields_def run_db_step update_execution_def)
  have g: "check_stops (te_check t rq) = map_sum id ?fails (if sqlite_int (result_retcode (te_check t rq)) then Inr () else Inl OverflowError)"
    by (auto simp: check_stops_def result_retcode_def sqlite_int_def is_check_success_def TRADE_RETCODE_DONE_def split: option.split)
  show ?thesis
    unfolding check_order_def Let_def g
    by (intro staged_bindP [OF c] staged_yields [OF w] staged_if) (auto simp: staged_Ret)
qed

lemma run_send_order:
  assumes s: "still svc t now"
  shows "fst (run (send_order svc sid eid rq) w) = broker_answer (te_send t rq)"
proof -
  obtain k where k: "es_mt5 svc = Some k" "steady k t" using s by (auto simp: still_def)
  then obtain w' where "run (gw_order_send (es_mt5 svc) rq) w = (Inr (te_send t rq), w')"
    by (cases "run (gw_order_send (es_mt5 svc) rq) w")
      (auto simp: gw_order_send_def steady_def run_sdk_call Let_def case_prod_beta)
  then show ?thesis
    by (cases "te_send t rq") (simp_all add: send_order_def run_bindP run_db_step update_execution_def run_finish Let_def
        broker_answer_def broker_verdict_def sqlite_int_def result_retcode_def TRADE_RETCODE_DONE_def TRADE_RETCODE_DONE_PARTIAL_def TRADE_RETCODE_PLACED_def)
qed

lemma staged_send:
  assumes s: "still svc t now"
  shows "staged (\<lambda>_. True) (if cfg_dry_run (es_settings svc) \<or> \<not> live_execution_allowed (es_settings svc)
       then return_early (finish svc sid eid DRY_RUN_APPROVED msg []) else go_on (send_order svc sid eid rq))
     [(Inr (cfg_dry_run (es_settings svc) \<or> \<not> cfg_live_execution_enabled (es_settings svc)), DRY_RUN_APPROVED),
      (map_sum id (\<lambda>_. False) (broker_answer (te_send t rq)), st)] (projr (broker_answer (te_send t rq))) (\<lambda>_. True)"
proof (rule staged_if)
  have g: "fst (run (go_on m) w) = map_sum id Inr (fst (run m w))" for m :: "('s world, execution_status) prog" and w
    by (simp add: go_on_def run_bindP split: sum.split prod.split)
  show "staged (\<lambda>_. True) (go_on (send_order svc sid eid rq)) [(map_sum id (\<lambda>_. False) (broker_answer (te_send t rq)), st)]
      (projr (broker_answer (te_send t rq))) (\<lambda>_. True)"
    by (cases "broker_answer (te_send t rq)") (simp_all add: staged_def g run_send_order [OF s])
qed (auto simp: live_execution_allowed_def)

subsection \<open>The pipeline decides as the table\<close>

lemma yields_open_execution:
  assumes s: "still svc t now" and ok: "db_ok d" and row: "get_signal (sg_signal_id row) d \<noteq> None"
  shows "yields (\<lambda>w. w_db w = d \<and> w_connected w = c) (open_execution svc row) (Inr (db_executions_seq d + 1))
    (deciding (Some c) (db_executions_seq d + 1) d)"
proof -
  have "db_executions_seq d + 1 \<notin> ex_id ` set (db_executions d)"
    using ok by (auto simp: db_ok_def executions_ok_def)
  then show ?thesis
    using s row
    by (auto simp: yields_def open_execution_def run_bindP run_utcnow run_db_step insert_execution_def Let_def case_prod_beta
        execution_fields_def deciding_def)
qed

lemma run_end_of: "fst (run (end_of m) w) = map_sum id merge_sum (fst (run m w))"
  by (auto simp: end_of_def run_bindP split: sum.split prod.split)

lemma sized_volume:
  assumes "first_stop (size_gates (sized t row symb mk eq)) x = Inr (Inr x)"
  shows "\<exists>v. vr_volume (the (projr (sized t row symb mk eq))) = Some v"
proof -
  obtain r where r: "sized t row symb mk eq = Inr (Some r)" "vr_ok r"
    using assms
    by (cases "sized t row symb mk eq")
      (auto simp: size_gates_def unsizable_def below_minimum_def split: option.splits if_splits)
  have "map_sum id Some z = Inr (Some r) \<longleftrightarrow> z = Inr r" for z :: "volume_result result" by (cases z) auto
  then obtain loss vmin vmax vstep where "size_volume loss eq (sg_risk_percent row) vmin vmax vstep = Inr r"
    using r(1) by (auto simp: sized_def Let_def split: if_splits option.splits)
  then show ?thesis using size_volume_volume r by fastforce
qed

lemma pipeline_staged:
  assumes s: "still svc t now"
    and age: "0 \<le> cfg_max_signal_age_seconds (es_settings svc)" "cfg_max_signal_age_seconds (es_settings svc) \<le> 2 ^ 32"
  shows "\<exists>m. process_signal svc row = bindP (open_execution svc row) (\<lambda>eid. end_of (m eid))
    \<and> (\<forall>eid c d. staged (deciding (Some c) eid d) (m eid)
         (gates svc t c now row d @ [(map_sum id (\<lambda>_. False) (broker_answer (te_send t (order_of svc t row))), EXECUTED)])
         (projr (broker_answer (te_send t (order_of svc t row)))) (\<lambda>_. True))"
  unfolding process_signal_def Let_def
  apply (rule exI, rule conjI, rule refl, intro allI)
  apply (simp only: gates_def Let_def append_assoc append_Cons append_Nil)
  apply (rule staged_bindR [OF staged_screen [OF s age]])
  apply (rule staged_bindR_one [OF staged_map_symbol [OF s]])
  apply (rule staged_bindR [OF staged_connect [OF s]], simp only: prod.case)
  apply (rule staged_bindR [OF staged_market [OF s]])
  apply (rule staged_bindR [OF staged_quote])
  apply (rule staged_bindR [OF staged_count [OF s]])
  apply (rule staged_bindR [OF staged_loss [OF s]])
  apply (rule staged_bindR_past [OF staged_size [OF s]])
  apply (drule sized_volume, erule exE)
  apply (simp only: liftE_simps bindP.simps option.case order_of_def Let_def option.sel)
  apply (rule staged_bindR_one [OF staged_check [OF s]])
  apply (rule staged_send [OF s])
  done

text \<open>The broker's answer as the last gate, which only raises.\<close>

lemma first_stop_answered:
  "map_sum id merge_sum (first_stop (gs @ [(map_sum id (\<lambda>_. False) r, st)]) (projr r))
     = bindE (first_stop gs ()) (\<lambda>x. case x of Inl st \<Rightarrow> Inr st | Inr _ \<Rightarrow> r)"
proof -
  have "map_sum id merge_sum (first_stop [(map_sum id (\<lambda>_. False) r, st)] (projr r)) = r" by (cases r) simp_all
  then show ?thesis
    unfolding first_stop_append [of gs _ "projr r" "()"] by (auto simp: bindE_def split: sum.split)
qed

theorem process_signal_decides:
  assumes s: "still svc t now" and ok: "db_ok (w_db w)" and row: "get_signal (sg_signal_id row) (w_db w) \<noteq> None"
    and age: "0 \<le> cfg_max_signal_age_seconds (es_settings svc)" "cfg_max_signal_age_seconds (es_settings svc) \<le> 2 ^ 32"
  shows "fst (run (process_signal svc row) w) = decision svc t (w_connected w) now row (w_db w)"
proof -
  obtain m where m: "process_signal svc row = bindP (open_execution svc row) (\<lambda>eid. end_of (m eid))"
    and g: "\<And>eid c d. staged (deciding (Some c) eid d) (m eid)
         (gates svc t c now row d @ [(map_sum id (\<lambda>_. False) (broker_answer (te_send t (order_of svc t row))), EXECUTED)])
         (projr (broker_answer (te_send t (order_of svc t row)))) (\<lambda>_. True)"
    using pipeline_staged [OF s age, of row] by auto
  obtain v where v: "run (open_execution svc row) w = (Inr (db_executions_seq (w_db w) + 1), v)"
      "deciding (Some (w_connected w)) (db_executions_seq (w_db w) + 1) (w_db w) v"
    using yields_open_execution [OF s ok row, of "w_connected w"]
    by (cases "run (open_execution svc row) w") (auto simp: yields_def)
  then show ?thesis
    using g by (simp add: m run_bindP run_end_of staged_def decision_def first_stop_answered del: first_stop.simps)
qed

subsection \<open>The concrete terminal\<close>

definition demo_terminal :: "answers \<Rightarrow> terminal" where
  "demo_terminal a = \<lparr>te_login = an_connect a, te_account = an_account a, te_symbol = (\<lambda>_. an_symbol a), te_select = (\<lambda>_. True),
     te_tick = (\<lambda>_. an_tick a), te_positions = an_positions a, te_profit = (\<lambda>_ _ _ _. an_profit a),
     te_check = (\<lambda>_. an_check a), te_send = (\<lambda>_. an_send a)\<rparr>"

lemma demo_still: "still (demo_service a cfg) (demo_terminal a) demo_now"
  by (simp add: still_def steady_def demo_service_def demo_sdk_def demo_terminal_def demo_clock_def demo_now_def)

end
