(* ===== verification/Reconciliation.thy ===== *)
theory Reconciliation
  imports Decision
begin

section \<open>The decision of the recovery\<close>

text \<open>
  What \<open>recover_on_startup\<close> makes of the signals a crash left behind, against a terminal whose answers do
  not change: RECOVERED_EXECUTED where the history has a deal with the signal's tag, REVIEW_REQUIRED
  where it has none, cannot be had, or the terminal does not connect; every other status stays.
\<close>

text \<open>The history, the same for every window that is asked for.\<close>

definition recalls :: "'s sdk \<Rightarrow> sdk_object list option \<Rightarrow> bool" where
  "recalls k deals \<longleftrightarrow> (\<forall>f t s. fst (mt_history_deals_get k f t s) = Inr deals)"

definition recovered_status :: "bool \<Rightarrow> sdk_object list option \<Rightarrow> string \<Rightarrow> execution_status" where
  "recovered_status up deals sid =
     (if up \<and> (\<exists>ds. deals = Some ds \<and> (\<exists>d \<in> set ds. deal_matches sid d)) then RECOVERED_EXECUTED else REVIEW_REQUIRED)"

text \<open>A gateway that is connected is so because the terminal accepted the login.\<close>

definition linked :: "terminal \<Rightarrow> db \<Rightarrow> 's world \<Rightarrow> bool" where
  "linked t d w \<longleftrightarrow> (w_connected w \<longrightarrow> te_login t) \<and> w_db w = d"

lemma linked_initialize:
  assumes "es_mt5 svc = Some k" and "steady k t"
  shows "yields (linked t d) (gw_initialize (es_mt5 svc) p l pw sv) (Inr (te_login t)) (linked t d)"
  using assms
  by (auto simp: yields_def gw_initialize_def gw_last_error_def run_steps Let_def case_prod_beta steady_def linked_def
      split: sum.split)

lemma linked_attempts:
  assumes "es_mt5 svc = Some k" and "steady k t" and "login_given (es_settings svc) = Inr l"
  shows "yields (linked t d) (connect_attempts n svc) (Inr (n \<noteq> 0 \<and> te_login t)) (linked t d)"
proof (induction n)
  case (Suc n)
  show ?case
    unfolding connect_attempts.simps Let_def assms(3) [unfolded login_given_def] liftE_simps bindP.simps
    using Suc by (intro yields_bindP [OF linked_initialize [OF assms(1,2)]]) (auto intro: yields_Ret)
qed (simp add: yields_Ret)

lemma linked_ensure:
  fixes svc :: "'s service"
  assumes "still svc t now" and "login_given (es_settings svc) = Inr l"
  shows "yields (linked t d) (ensure_connected svc) (Inr (te_login t)) (linked t d)"
proof -
  obtain k where k: "es_mt5 svc = Some k" "steady k t" using assms(1) by (auto simp: still_def)
  have probe: "\<exists>c w'. run (gw_connected (es_mt5 svc)) w = (Inr c, w') \<and> (c \<longrightarrow> te_login t) \<and> linked t d w'"
    if "linked t d w" for w :: "'s world"
    using that k by (auto simp: gw_connected_def run_steps case_prod_beta steady_def linked_def)
  show ?thesis
    unfolding yields_def
  proof (intro allI impI)
    fix w :: "'s world" assume "linked t d w"
    then obtain c w' where c: "run (gw_connected (es_mt5 svc)) w = (Inr c, w')" "c \<longrightarrow> te_login t" "linked t d w'"
      using probe by blast
    with linked_attempts [OF k assms(2), of d MAX_MT5_CONNECT_ATTEMPTS]
    show "fst (run (ensure_connected svc) w) = Inr (te_login t)
        \<and> (\<forall>x. Inr (te_login t) = Inr x \<longrightarrow> linked t d (snd (run (ensure_connected svc) w)))"
      by (cases c) (auto simp: ensure_connected_def run_bindP yields_def MAX_MT5_CONNECT_ATTEMPTS_def)
  qed
qed

lemma linked_find_deal:
  assumes "still svc t now" and "\<forall>k. es_mt5 svc = Some k \<longrightarrow> recalls k deals"
  shows "\<exists>found. yields (linked t d) (find_deal_by_comment svc (meb_comment sid)) (Inr found) (linked t d)
    \<and> (found \<noteq> None \<longleftrightarrow> (\<exists>ds. deals = Some ds \<and> (\<exists>x \<in> set ds. deal_matches sid x)))"
proof -
  obtain k where k: "es_mt5 svc = Some k" using assms(1) by (auto simp: still_def)
  let ?ds = "case deals of None \<Rightarrow> [] | Some ds \<Rightarrow> ds"
  let ?found = "map_option (\<lambda>deal. (get_attr deal ''order'' ANone, get_attr deal ''ticket'' ANone))
      (find (\<lambda>deal. get_attr deal ''comment'' (AStr []) = AStr (meb_comment sid)) ?ds)"
  have "yields (linked t d) (find_deal_by_comment svc (meb_comment sid)) (Inr ?found) (linked t d)"
    using assms(2) k
    by (auto simp: yields_def find_deal_by_comment_def gw_history_deals_get_def k run_steps Let_def case_prod_beta
        linked_def recalls_def)
  moreover have "?found \<noteq> None \<longleftrightarrow> (\<exists>ds. deals = Some ds \<and> (\<exists>x \<in> set ds. deal_matches sid x))"
    by (cases deals) (auto simp: find_None_iff deal_matches_def)
  ultimately show ?thesis by blast
qed

lemma linked_reconcile:
  assumes "still svc t now" and "login_given (es_settings svc) = Inr l" and "\<forall>k. es_mt5 svc = Some k \<longrightarrow> recalls k deals"
    and "linked t d w"
  shows "\<exists>w'. run (reconcile_stuck_signal svc row) w = (Inr (recovered_status (te_login t) deals (sg_signal_id row)), w')
    \<and> linked t (w_db w') w' \<and> set_to (sg_signal_id row) (recovered_status (te_login t) deals (sg_signal_id row)) d (w_db w')"
proof -
  obtain w1 where 1: "run (ensure_connected svc) w = (Inr (te_login t), w1)" "linked t d w1"
    using linked_ensure [OF assms(1,2), of d] assms(4) by (cases "run (ensure_connected svc) w") (auto simp: yields_def)
  from linked_find_deal [OF assms(1,3), of d "sg_signal_id row"] obtain found where
    f: "yields (linked t d) (find_deal_by_comment svc (meb_comment (sg_signal_id row))) (Inr found) (linked t d)"
    and m: "found \<noteq> None \<longleftrightarrow> (\<exists>ds. deals = Some ds \<and> (\<exists>x \<in> set ds. deal_matches (sg_signal_id row) x))"
    by (elim exE conjE)
  obtain w2 where 2: "run (find_deal_by_comment svc (meb_comment (sg_signal_id row))) w1 = (Inr found, w2)" "linked t d w2"
    using f 1(2) by (cases "run (find_deal_by_comment svc (meb_comment (sg_signal_id row))) w1") (auto simp: yields_def)
  show ?thesis
  proof (cases "te_login t \<and> found \<noteq> None")
    case True
    then have "recovered_status (te_login t) deals (sg_signal_id row) = RECOVERED_EXECUTED" using m by (simp add: recovered_status_def)
    then show ?thesis
      using True 1 2 by (auto simp: reconcile_stuck_signal_def run_bindP run_db_write_now linked_def set_toI Let_def case_prod_beta)
  next
    case False
    then have "recovered_status (te_login t) deals (sg_signal_id row) = REVIEW_REQUIRED" using m by (auto simp: recovered_status_def)
    then show ?thesis
      using False 1 2 by (auto simp: reconcile_stuck_signal_def run_bindP run_db_write_now linked_def set_toI Let_def case_prod_beta)
  qed
qed

lemma set_to_status:
  assumes "set_to sid st d d'"
  shows "map_option sg_status (get_signal j d') = (if j = sid then map_option (\<lambda>_. st) (get_signal j d)
    else map_option sg_status (get_signal j d))"
  using assms get_signal_update_other [of j sid]
  by (auto simp: set_to_def get_signal_update_status option.map_comp comp_def)

lemma linked_recover_rows:
  assumes "still svc t now" and "login_given (es_settings svc) = Inr l" and "\<forall>k. es_mt5 svc = Some k \<longrightarrow> recalls k deals"
    and "linked t (w_db w) w"
  shows "\<exists>w'. run (recover_rows svc rows) w = (Inr (), w')
    \<and> (\<forall>sid. map_option sg_status (get_signal sid (w_db w')) =
          (if sid \<in> sg_signal_id ` set rows then map_option (\<lambda>_. recovered_status (te_login t) deals sid) (get_signal sid (w_db w))
           else map_option sg_status (get_signal sid (w_db w))))"
  using assms(4)
proof (induction rows arbitrary: w)
  case (Cons row rows)
  let ?id = "sg_signal_id row"
  obtain v where v: "run (reconcile_stuck_signal svc row) w = (Inr (recovered_status (te_login t) deals ?id), v)"
    "linked t (w_db v) v" "set_to ?id (recovered_status (te_login t) deals ?id) (w_db w) (w_db v)"
    using linked_reconcile [OF assms(1-3) Cons.prems] by blast
  obtain w' where w': "run (recover_rows svc rows) v = (Inr (), w')"
    "\<And>sid. map_option sg_status (get_signal sid (w_db w')) =
          (if sid \<in> sg_signal_id ` set rows then map_option (\<lambda>_. recovered_status (te_login t) deals sid) (get_signal sid (w_db v))
           else map_option sg_status (get_signal sid (w_db v)))"
    using Cons.IH [OF v(2)] by blast
  have known: "get_signal sid (w_db v) = None \<longleftrightarrow> get_signal sid (w_db w) = None" for sid
    using set_to_status [OF v(3), of sid] by (auto split: if_splits)
  have "map_option (\<lambda>_. st) (get_signal sid (w_db v)) = map_option (\<lambda>_. st) (get_signal sid (w_db w))" for st sid
    using known [of sid] by (cases "get_signal sid (w_db v)"; cases "get_signal sid (w_db w)") auto
  then show ?case
    using v(1) w' set_to_status [OF v(3)] by (auto simp: run_bindP)
qed simp

theorem recovery_decides:
  assumes s: "still svc t now" and login: "login_given (es_settings svc) = Inr l"
    and h: "\<forall>k. es_mt5 svc = Some k \<longrightarrow> recalls k deals"
    and ok: "db_ok (w_db w)" and off: "\<not> w_connected w"
  shows "\<exists>w'. run (recover_on_startup svc) w = (Inr (), w')
    \<and> (\<forall>sid. map_option sg_status (get_signal sid (w_db w')) =
         map_option (\<lambda>r. if sg_status r = PROCESSING then recovered_status (te_login t) deals sid else sg_status r)
           (get_signal sid (w_db w)))"
proof -
  let ?rows = "find_stuck_processing (w_db w)"
  have "linked t (w_db w) w" using off by (simp add: linked_def)
  from linked_recover_rows [OF s login h this, of ?rows] obtain w' where
    w': "run (recover_rows svc ?rows) w = (Inr (), w')"
    "\<And>sid. map_option sg_status (get_signal sid (w_db w')) =
          (if sid \<in> sg_signal_id ` set ?rows then map_option (\<lambda>_. recovered_status (te_login t) deals sid) (get_signal sid (w_db w))
           else map_option sg_status (get_signal sid (w_db w)))" by blast
  have stuck: "sid \<in> sg_signal_id ` set ?rows \<longleftrightarrow> sg_status r = PROCESSING" if "get_signal sid (w_db w) = Some r" for sid r
  proof -
    have "x = r" if "x \<in> set (db_signals (w_db w))" "sg_signal_id x = sid" for x
      using that get_signal_of_row [of "w_db w" x] ok \<open>get_signal sid (w_db w) = Some r\<close> by (auto simp: db_ok_def)
    then show ?thesis using get_signal_Some [OF that] by (auto simp: find_stuck_processing_def)
  qed
  have "run (recover_on_startup svc) w = (Inr (), w')"
    using w'(1) by (simp add: recover_on_startup_def run_bindP run_db_read)
  moreover have "map_option sg_status (get_signal sid (w_db w')) =
         map_option (\<lambda>r. if sg_status r = PROCESSING then recovered_status (te_login t) deals sid else sg_status r)
           (get_signal sid (w_db w))" for sid
    using w'(2) [of sid] stuck [of sid] by (cases "get_signal sid (w_db w)") auto
  ultimately show ?thesis by blast
qed

subsection \<open>A trade the count misses\<close>

text \<open>
  The broker fills the order and answers with a deal ticket SQLite cannot hold: the thread raises after the
  order, and the restart finds the deal.
\<close>

definition lost_answers :: answers where
  "lost_answers = demo_answers\<lparr>an_send := Some (demo_result\<lparr>tr_deal := Some (2 ^ 63)\<rparr>), an_deals := Some [demo_deal]\<rparr>"

abbreviation lost_service :: "unit service" where
  "lost_service \<equiv> demo_service lost_answers live_settings"

lemma demo_lost:
  "case demo_run lost_service of (r, w) \<Rightarrow> r = Inl OverflowError \<and> order_sends (w_log w) = [demo_request]
     \<and> map ex_status (db_executions (w_db w)) = [PROCESSING]"
  by (simp add: demo_run_def lost_answers_def demo_eval demo_request_def)

lemma demo_recalls: "es_mt5 (demo_service a cfg) = Some k \<Longrightarrow> recalls k (an_deals a)"
  by (auto simp: demo_service_def demo_sdk_def recalls_def)

lemma lost_restarted:
  "\<exists>p. reachable lost_service p \<and> order_sends (w_log (sy_world p)) = [demo_request]
     \<and> (\<exists>r. get_signal ''s1'' (w_db (sy_world p)) = Some r \<and> sg_status r = RECOVERED_EXECUTED)
     \<and> map ex_status (db_executions (w_db (sy_world p))) = [PROCESSING]"
proof -
  let ?svc = "lost_service" and ?w = "demo_end lost_service"
  have l: "run (process_signal ?svc demo_row) (demo_world (demo_db demo_row)) = (Inl OverflowError, ?w)"
    "order_sends (w_log ?w) = [demo_request]" "map ex_status (db_executions (w_db ?w)) = [PROCESSING]"
    using demo_lost by (simp_all add: demo_end_def demo_run_def prod_eq_iff case_prod_beta)
  have g: "get_signal (sg_signal_id demo_row) (w_db (demo_world (demo_db demo_row))) = Some demo_row"
    by (simp add: demo_world_def demo_db_def get_signal_def select_one_def)
  obtain r where r: "get_signal ''s1'' (w_db ?w) = Some r" "sg_status r = PROCESSING"
    using process_signal_error [OF g l(1)] by auto
  let ?v = "reset_gateway ?w"
  let ?p = "\<lambda>w ph h. \<lparr>sy_world = w, sy_phase = ph, sy_handler = h, sy_threads = []\<rparr>"
  have up: "reachable ?svc (?p ?w Running None)" using reachable_demo_done by (simp add: demo_done_def)
  have ok: "db_ok (w_db ?v)" using reachable_inv [OF up] by (simp add: process_inv_def reset_gateway_def)
  have "reachable ?svc (?p ?w Down None)"
    by (rule reachable.step [OF up]) (use step.crash [of ?svc "?p ?w Running None"] in simp)
  then have s: "reachable ?svc (?p ?v Starting (Some (recover_on_startup ?svc)))"
    by (rule reachable.step) (use step.start [of "?p ?w Down None" ?svc] in simp)
  have t: "te_login (demo_terminal lost_answers)" "an_deals lost_answers = Some [demo_deal]"
    by (simp_all add: demo_terminal_def lost_answers_def demo_answers_def)
  have login: "login_given (es_settings ?svc) = Inr (Some 7)"
    by (simp add: demo_service_def live_settings_def login_given_def demo_login)
  obtain w' where w': "run (recover_on_startup ?svc) ?v = (Inr (), w')"
    "\<And>sid. map_option sg_status (get_signal sid (w_db w')) = map_option (\<lambda>r. if sg_status r = PROCESSING
       then recovered_status (te_login (demo_terminal lost_answers)) (an_deals lost_answers) sid else sg_status r) (get_signal sid (w_db ?v))"
    using recovery_decides [OF demo_still login _ ok, of "an_deals lost_answers"] demo_recalls
    by (auto simp: reset_gateway_def)
  have "map_option sg_status (get_signal ''s1'' (w_db w')) = Some RECOVERED_EXECUTED"
    using w'(2) [of "''s1''"] r t by (simp add: reset_gateway_def recovered_status_def deal_matches_def)
  then obtain r' where r': "get_signal ''s1'' (w_db w') = Some r'" "sg_status r' = RECOVERED_EXECUTED" by auto
  have e: "db_executions (w_db w') = db_executions (w_db ?w)"
    using effects_run [where w = ?v, OF se_recover [of ?svc]] w'(1) by (simp add: same_executions_def reset_gateway_def)
  have q: "order_sends (w_log w') = [demo_request]"
    using quiet_run_sends [where w = ?v, OF quiet_recover_on_startup [of ?svc]] w'(1) l(2) by (simp add: reset_gateway_def)
  have "reachable ?svc (ended (?p ?v Starting (Some (recover_on_startup ?svc))) (Inr ()) w')"
    using w'(1) by (intro reach_handler [OF s, of "recover_on_startup ?svc" "Inr ()" w']) simp_all
  moreover have "sy_world (ended p r w') = w'" for p :: "unit process" and r :: "unit result" by (simp add: ended_def)
  ultimately show ?thesis using r' e q l(3) by metis
qed

end
