(* ===== verification/Spec2Isabelle.thy ===== *)
theory Spec2Isabelle
  imports Scenario DailyLimit Delivery Connection Application Executions Accuracy StopLoss Reconciliation
begin

text \<open>
  A model of the MT5 Execution Bridge (the Python package under \<open>src/app\<close>, the client and the example
  script), with the theorems that make it correct. The bridge takes trading signals over HTTP, keeps
  them in SQLite, and a worker turns each into at most one market order at a MetaTrader 5 terminal
  after a fixed pipeline of checks; after a crash it reconciles what it left behind from the broker's
  history and never resends.

  \<^bold>\<open>Language and library.\<close> \<open>Prelude\<close>: Python's exceptions as values, effectful code as programs of
  atomic steps (\<open>Ret\<close>, \<open>Throw\<close>, \<open>Atomic\<close>), run alone by \<open>run\<close> or followed under interference by
  \<open>guarantees\<close> and \<open>conforms\<close>. \<open>PyFloat\<close>: doubles as exact rationals with infinities and NaN, every
  operation rounded once. \<open>PyText\<close>, \<open>PyTime\<close>: the parts of \<open>str\<close>, \<open>int()\<close> and \<open>datetime\<close> the code uses.

  \<^bold>\<open>Components\<close>, one theory each, named after the source:
  \<^item> \<open>Enums\<close> (models/enums.py), \<open>SignalModel\<close> (models/signal.py), \<open>Config\<close> (config.py),
    \<open>SymbolMapper\<close> and \<open>RiskService\<close> (services): pure data and checks.
  \<^item> \<open>Database\<close> (storage/database.py, storage/migrations.py, models/execution.py): the record \<open>db\<close>
    of the three tables and one function per method, with what SQLite enforces (NOT NULL, the unique
    keys, the numbering of rows, which an ignored insert advances too, and the error on an integer of more
    than 64 bits); its invariant \<open>db_ok\<close>; the locales \<open>signal_queue\<close> and \<open>first_write_wins\<close> with their interpretations.
  \<^item> \<open>OrderTag\<close> (\<open>meb_comment\<close>): SHA-256 on 32-bit words, executable.
  \<^item> \<open>Gateway\<close> (services/mt5_gateway.py): the MetaTrader package is the parameter \<open>sdk\<close>, a record of
    functions of an arbitrary outside state of which nothing is assumed; the record \<open>world\<close> holds that
    state, the database, the gateway's flag and a ghost log of the calls made with their answers.
  \<^item> \<open>VolumeCalculator\<close>, \<open>ExecutionService\<close> (services): sizing, the pipeline \<open>process_signal\<close> stage
    by stage with its early returns, reconciliation and the snapshots.
  \<^item> \<open>Api\<close> (services/signal_service.py, app/api, the body limit of main.py), \<open>Application\<close> (building the
    application: main.py, \<open>get_settings\<close> of config.py).
  \<^item> \<open>Client\<close> (client/bridge_client.py, examples/python_client_example.py): each method over the
    parameter \<open>http\<close>, which stands for httpx.
  \<^item> \<open>ExecutionWorker\<close> (worker/execution_worker.py and the lifespan of main.py): the process as the
    step relation \<open>step\<close> on the record \<open>process\<close>. The event loop runs one handler at a time, worker
    threads run beside it step by step; a step may also be a start with its recovery, a stop, a crash
    that forgets everything but the database, or a change outside. The code runs one worker loop; the
    model allows any number of threads, so what holds here holds of fewer.

  \<^bold>\<open>Reasoning.\<close> \<open>Effects\<close> and \<open>Footprint\<close>: what a program may do to the database and that only
  \<open>process_signal\<close> sends, in every interleaving (locale \<open>database_effect\<close>, interpreted for reading
  only, for unchanged executions, for the rows of other executions and for the effect of the whole
  bridge). \<open>System\<close>: the invariants of reachable states and the accounting of orders. \<open>Traces\<close>,
  \<open>Clearance\<close>, \<open>Orders\<close>: the history of a thread before its order, lifted to every order in the log.
  \<open>Settle\<close>, \<open>Recovery\<close>, \<open>Connection\<close>: how the pipeline, the reconciliation and the connection attempts
  end. \<open>Lifecycle\<close>: the four-stage automaton the store refines, and the order it generates. \<open>Verdicts\<close>:
  what a status says of the broker's answer, and that the store only grows. \<open>StopLoss\<close>: that a signal
  without a stop loss never gets past the sizing. \<open>DailyLimit\<close>: the trades a run leaves on the day's
  count. \<open>Executions\<close>: which statuses an execution can have. \<open>Decision\<close>: the table of gates, a reference
  for the pipeline written apart from it, and a small calculus of stages that proves them equal.
  \<open>Reconciliation\<close>: the same for the recovery, and a trade it finds that the count misses. \<open>Accuracy\<close>:
  the rounding of the spread and loss checks. \<open>Delivery\<close>: the client's methods composed with the handlers
  of the API over an assumed transport. \<open>Running\<close>, \<open>Scenario\<close>: a
  concrete broker at which the properties are evaluated.

  \<^bold>\<open>Properties\<close>, below: orders (C1 to C10: no double send, every order backed by checks that passed,
  no false report, bounded risk, dry run, limits, no order without a stop loss), the end of a signal (C11
  to C18: the decision, the verdict, settlement, exceptions, recovery, the execution rows), its life (C19
  to C24), the queue and the daily state (C25 to C29), the checks and the sizing (C30 to C34), accounts,
  validation and configuration (C35 to C37), the API and the connection (C38 to C40).

  \<^bold>\<open>Bounds and fuel.\<close> No definition needs fuel: programs are finite trees, and the three connection
  attempts are a recursion on their number. The freshness property is for a maximum age of at most
  \<open>2^32\<close> seconds, the bounds on risk, spread and loss for amounts between \<open>2^-100\<close> and \<open>2^100\<close>; the daily count is for the
  instants a \<open>datetime\<close> can hold. The decision properties are for answers that do not change during the run;
  the safety properties assume nothing of the answers.

  \<^bold>\<open>Not modelled.\<close> Logging and the texts of messages (a message is a constructor with its values); the
  parsing of JSON, of the environment and of HTTP (pydantic, FastAPI, Starlette, httpx), whose parsed
  values are the inputs or parameters; opening and closing the database file, its indexes and journal
  mode, failures of the disk (a thread that meets a closed database ends, as in the step \<open>crash\<close>); the
  sign of a floating-point zero; code points above 255; sleeping between polls (a stutter);
  \<open>database_dir\<close>, which only handles a path.
\<close>

section \<open>Orders\<close>

text \<open>
  C1: No signal is sent twice. In every state the process can reach, through any interleaving of
  requests, worker threads, crashes, restarts and changes outside, the number of
  \<open>order_send\<close> calls carrying a tag is at most the number of claimed signals with that tag.
\<close>

theorem at_most_one_send_per_signal:
  assumes "reachable svc p"
  shows "count (sent_tags (w_log (sy_world p))) c
    \<le> card {sid \<in> claimed_ids (w_db (sy_world p)). meb_comment sid = c}"
proof -
  have "sent_tags (w_log (sy_world p)) \<subseteq># claimed_tags (w_db (sy_world p))"
    by (rule reachable_tags [OF assms])
  then have "count (sent_tags (w_log (sy_world p))) c \<le> count (claimed_tags (w_db (sy_world p))) c"
    by (rule mset_subset_eq_count)
  then show ?thesis by (simp add: count_claimed_tags)
qed

theorem at_most_one_send_per_signal_witness:
  "count (sent_tags (w_log (demo_end live_service))) (meb_comment ''s1'') = 1
   \<and> 1 \<le> card {sid \<in> claimed_ids (w_db (demo_end live_service)). meb_comment sid = meb_comment ''s1''}"
  using at_most_one_send_per_signal [OF reachable_demo_done, of demo_answers live_settings "meb_comment ''s1''"]
  by (simp add: demo_done_def sent_tags_def demo_live_sends demo_request_def)

text \<open>
  C2: Every order is backed. For each \<open>order_send\<close> in the log of a reachable process the settings
  allow live execution, and a claimed, validated signal of the database approves the request on
  broker answers that stand earlier in the log: the mapped symbol, the quote, the stop loss and the
  spread, the number of open positions, the risk asked for, the volume computed from the broker's
  own profit calculation, and a successful \<open>order_check\<close> of the identical request.
\<close>

theorem every_order_is_backed:
  assumes "reachable svc p" and "w_log (sy_world p) = es @ E_order_send rq res # fs"
  shows "live_execution_allowed (es_settings svc)
    \<and> (\<exists>r. get_signal (sg_signal_id r) (w_db (sy_world p)) = Some r \<and> sg_status r \<noteq> PENDING
         \<and> payload_ok r \<and> approved svc r es rq)"
  by (rule reachable_backed [OF assms]) blast

lemma demo_done_log:
  "w_log (sy_world (demo_done live_service))
     = butlast (w_log (demo_end live_service)) @ E_order_send demo_request (Inr (Some demo_result)) # []"
  using demo_live_log by (simp add: demo_done_def)

theorem every_order_is_backed_witness:
  "\<exists>r. get_signal (sg_signal_id r) (w_db (demo_end live_service)) = Some r \<and> sg_status r \<noteq> PENDING
     \<and> payload_ok r \<and> approved live_service r (butlast (w_log (demo_end live_service))) demo_request"
  using every_order_is_backed [OF reachable_demo_done demo_done_log]
  by (simp add: demo_done_def)

lemma demo_row_known: "get_signal (sg_signal_id demo_row) (w_db (demo_world (demo_db demo_row))) = Some demo_row"
  by (simp add: demo_world_def demo_db_def get_signal_def select_one_def)

lemma demo_end_status: "\<exists>r. get_signal ''s1'' (w_db (demo_end live_service)) = Some r \<and> sg_status r = EXECUTED"
  using process_signal_outcome(1) [of demo_row "demo_world (demo_db demo_row)" live_service EXECUTED "demo_end live_service"]
    demo_executed demo_row_known by (auto simp: demo_run_def outcome_def)

text \<open>
  C3: A reported trade is a real one. When a signal of a reachable process stands at EXECUTED,
  EXECUTED_PARTIAL or FAILED_ORDER_SEND, the log holds an \<open>order_send\<close> with the signal's tag, and
  the broker answered it with retcode 10009, 10010, or one that is neither of these nor 10008.
\<close>

theorem reported_trades_are_real:
  assumes "reachable svc p" and "get_signal sid (w_db (sy_world p)) = Some r"
    and "sg_status r \<in> {EXECUTED, EXECUTED_PARTIAL, FAILED_ORDER_SEND}"
  shows "\<exists>rq res. E_order_send rq (Inr (Some res)) \<in> set (w_log (sy_world p)) \<and> rq_comment rq = meb_comment sid
    \<and> sg_status r = (if tr_retcode res = Some 10009 then EXECUTED
                     else if tr_retcode res = Some 10010 then EXECUTED_PARTIAL else FAILED_ORDER_SEND)"
proof -
  have "stage_of (w_db (sy_world p)) sid = Settled (sg_status r)" "reports (sg_status r)"
    using assms(2,3) by (auto simp: stage_of_def reports_def)
  then have "confirmed (w_log (sy_world p)) sid (sg_status r)"
    using reachable_verdicts [OF assms(1)] by (simp add: verdicts_inv_def)
  then obtain rq res where "E_order_send rq (Inr (Some res)) \<in> set (w_log (sy_world p))"
    "rq_comment rq = meb_comment sid" "broker_verdict (Some res) = sg_status r" by (auto simp: confirmed_def)
  with assms(3) show ?thesis
    by (intro exI [of _ rq] exI [of _ res]) (auto simp: broker_verdict_def split: if_splits)
qed

theorem reported_trades_are_real_witness:
  "\<exists>rq res. E_order_send rq (Inr (Some res)) \<in> set (w_log (demo_end live_service)) \<and> rq_comment rq = meb_comment ''s1''"
proof -
  obtain r where "get_signal ''s1'' (w_db (sy_world (demo_done live_service))) = Some r" "sg_status r = EXECUTED"
    using demo_end_status by (auto simp: demo_done_def)
  with reported_trades_are_real [OF reachable_demo_done this(1)] show ?thesis by (auto simp: demo_done_def)
qed

text \<open>
  C4: The risk of an order is bounded. The loss of a sent order at its stop, priced by the broker's
  answer for one lot, is at most \<open>max_risk_percent\<close> of the equity the broker reported, up to a
  relative \<open>2^-50\<close> of rounding and one unit of the eighth decimal of a lot, for amounts between
  \<open>2^-100\<close> and \<open>2^100\<close>.
\<close>

theorem order_risk_is_bounded:
  assumes "reachable svc p" and "w_log (sy_world p) = es @ E_order_send rq res # fs"
    and mr: "cfg_max_risk_percent (es_settings svc) = Fin mr"
  shows "\<exists>r account sl loss. get_signal (sg_signal_id r) (w_db (sy_world p)) = Some r
    \<and> rq_comment rq = meb_comment (sg_signal_id r) \<and> rq_sl rq = Some sl
    \<and> E_account_info (Inr (Some account)) \<in> set es
    \<and> E_order_calc_profit (rq_type rq) (rq_symbol rq) (Fin 1) (rq_price rq) sl (Inr (Some loss)) \<in> set es
    \<and> (\<forall>eq rp l x. ai_equity account = Fin eq \<longrightarrow> sg_risk_percent r = Fin rp \<longrightarrow> loss = Fin l
         \<longrightarrow> rq_volume rq = Fin x \<longrightarrow> moderate eq \<longrightarrow> moderate rp \<longrightarrow> moderate \<bar>l\<bar>
         \<longrightarrow> x * \<bar>l\<bar> \<le> eq * mr / 100 * (1 + 1 / 2 ^ 50) + \<bar>l\<bar> / 10 ^ 8)"
proof (rule reachable_backed [OF assms(1,2)])
  fix r assume g: "get_signal (sg_signal_id r) (w_db (sy_world p)) = Some r" and a: "approved svc r es rq"
  from a obtain account si tk sl loss vr where
    acc: "E_account_info (Inr (Some account)) \<in> set es"
    and risk: "rc_ok (check_risk_percent (sg_risk_percent r) (cfg_max_risk_percent (es_settings svc)))"
    and sl: "sg_stop_loss r = Some sl"
    and loss: "E_order_calc_profit (rq_type rq) (rq_symbol rq) (Fin 1) (rq_price rq) sl (Inr (Some loss)) \<in> set es"
    and vol: "size_volume loss (ai_equity account) (sg_risk_percent r)
          (dflt_value (flit (1/100)) (si_volume_min si)) (dflt_value (Fin 100) (si_volume_max si))
          (dflt_value (flit (1/100)) (si_volume_step si)) = Inr vr" "vr_ok vr" "vr_volume vr = Some (rq_volume rq)"
    and rq: "rq = build_order_request svc (rq_symbol rq) (sg_action r) (rq_volume rq)
              (entry_price_of (sg_action r) tk) (sg_stop_loss r) (sg_take_profit r) si (sg_signal_id r)"
    unfolding approved_def by blast
  have c: "rq_comment rq = meb_comment (sg_signal_id r)" "rq_sl rq = Some sl"
    by (subst rq, simp add: build_order_request_def sl)+
  have b: "x * \<bar>l\<bar> \<le> eq * mr / 100 * (1 + 1 / 2 ^ 50) + \<bar>l\<bar> / 10 ^ 8"
    if "ai_equity account = Fin eq" "sg_risk_percent r = Fin rp" "loss = Fin l" "rq_volume rq = Fin x"
      "moderate eq" "moderate rp" "moderate \<bar>l\<bar>" for eq rp l x
    using capped_risk_bound [OF that(5-7), of mr] vol risk that mr by simp
  show ?thesis using g c acc loss b by blast
qed

theorem order_risk_is_bounded_witness:
  "\<exists>r account sl loss. get_signal (sg_signal_id r) (w_db (demo_end live_service)) = Some r
    \<and> rq_comment demo_request = meb_comment (sg_signal_id r) \<and> rq_sl demo_request = Some sl
    \<and> E_account_info (Inr (Some account)) \<in> set (butlast (w_log (demo_end live_service)))
    \<and> E_order_calc_profit 0 ''XAUUSDm'' (Fin 1) (Fin (801 / 8)) sl (Inr (Some loss))
        \<in> set (butlast (w_log (demo_end live_service)))"
  using order_risk_is_bounded [OF reachable_demo_done demo_done_log, of 1]
  by (auto simp: demo_done_def demo_service_def live_settings_def demo_request_def)

text \<open>
  C5: A dry run sends nothing. Unless the dry-run flag is off and live execution is enabled, no
  reachable state of the process has sent an order.
\<close>

theorem dry_run_sends_nothing:
  assumes "reachable svc p" and "\<not> live_execution_allowed (es_settings svc)"
  shows "order_sends (w_log (sy_world p)) = []"
proof (rule ccontr)
  assume "order_sends (w_log (sy_world p)) \<noteq> []"
  then obtain es rq res fs where "w_log (sy_world p) = es @ E_order_send rq res # fs"
    by (rule order_sends_Cons)
  from reachable_backed [OF assms(1) this] assms(2) show False by blast
qed

theorem dry_run_sends_nothing_witness:
  "order_sends (w_log (demo_end (demo_service demo_answers default_settings))) = []"
  using dry_run_sends_nothing [OF reachable_demo_done, of demo_answers default_settings]
  by (simp add: demo_done_def demo_service_def live_execution_allowed_def default_settings_def)

section \<open>The path to an order\<close>

text \<open>The history of the demo signal ends in its order.\<close>

lemma demo_history:
  obtains tr s q rq where "after (process_signal live_service demo_row) (tr @ [s]) q" and "sends s rq"
proof (rule run_sends [of live_service demo_row "demo_world (demo_db demo_row)"])
  show "run (process_signal live_service demo_row) (demo_world (demo_db demo_row)) = (Inr EXECUTED, demo_end live_service)"
    using demo_executed by (simp add: demo_run_def)
  show "order_sends (w_log (demo_end live_service)) \<noteq> order_sends (w_log (demo_world (demo_db demo_row)))"
    by (simp add: demo_live_sends demo_world_def)
qed

text \<open>
  C6: The broker checks what is sent. When a \<open>process_signal\<close> thread sends an order, its own SDK
  call just before is \<open>order_check\<close> of the identical request, and it answered with retcode 0 or 10009.
\<close>

theorem order_check_just_before_send:
  assumes "after (process_signal svc row) (tr @ [s]) q" and "sends s rq"
  shows "\<exists>es res. own_events tr = es @ [E_order_check rq (Inr (Some res))]
    \<and> (tr_retcode res = Some 0 \<or> tr_retcode res = Some 10009)"
proof (rule order_history [OF assms])
  fix eid symb key eq mk v t0 t1 t2 t3 t4 t5 t6 t7 t8 t9
  assume t: "tr = t0 @ t1 @ t2 @ t3 @ t4 @ t5 @ t6 @ t7 @ t8 @ t9"
    and c: "after (check_order svc (sg_signal_id row) eid rq) t9 (Ret (Inr ()))"
  show ?thesis
    using check_order_passed [OF c] by (auto simp: t is_check_success_def TRADE_RETCODE_DONE_def)
qed

theorem order_check_just_before_send_witness:
  "\<exists>tr s q rq es res. after (process_signal live_service demo_row) (tr @ [s]) q \<and> sends s rq \<and> own_events tr = es @ [E_order_check rq (Inr (Some res))]
     \<and> (tr_retcode res = Some 0 \<or> tr_retcode res = Some 10009)"
proof (rule demo_history)
  fix tr s q rq
  assume a: "after (process_signal live_service demo_row) (tr @ [s]) q" "sends s rq"
  show ?thesis using order_check_just_before_send [OF a] a by blast
qed

text \<open>
  C7: Only fresh, enabled signals reach the broker. A thread that sends has read the clock at an
  instant at which the signal was at most \<open>max_signal_age_seconds\<close> old and at most five seconds in
  the future, exactly in microseconds, and the switch of the signal's action is on.
\<close>

theorem order_is_fresh_and_enabled:
  assumes "after (process_signal svc row) (tr @ [s]) q" and "sends s rq"
    and "0 \<le> cfg_max_signal_age_seconds (es_settings svc)" and "cfg_max_signal_age_seconds (es_settings svc) \<le> 2 ^ 32"
  shows "(\<exists>ts t. fromisoformat (sg_signal_timestamp row) = Inr ts \<and> clock_read svc tr t
      \<and> epoch_us t - signal_us ts \<le> cfg_max_signal_age_seconds (es_settings svc) * 1000000
      \<and> - 5000000 \<le> epoch_us t - signal_us ts)
    \<and> (sg_action row = ''BUY'' \<longrightarrow> cfg_allow_market_buy (es_settings svc))
    \<and> (sg_action row = ''SELL'' \<longrightarrow> cfg_allow_market_sell (es_settings svc))"
proof -
  obtain eid t0 t1 t2 where t: "tr = t0 @ t1 @ t2"
    and c: "after (screen_signal svc row eid) t1 (Ret (Inr ()))"
    by (rule order_history [OF assms(1,2)]) blast
  from screen_signal_passed(1) [OF c] obtain ts now where n: "fromisoformat (sg_signal_timestamp row) = Inr ts"
    "clock_read svc t1 now" "rc_ok (check_freshness ts (cfg_max_signal_age_seconds (es_settings svc)) now)" by blast
  then have "epoch_us now - signal_us ts \<le> cfg_max_signal_age_seconds (es_settings svc) * 1000000
      \<and> - 5000000 \<le> epoch_us now - signal_us ts"
    using assms(3,4) by (auto simp: rc_ok_iff_status check_freshness_status split: if_splits)
  moreover have "clock_read svc tr now" using n(2) by (simp add: t)
  ultimately show ?thesis using n(1) screen_signal_passed(2,3) [OF c] by auto
qed

theorem order_is_fresh_and_enabled_witness:
  "\<exists>tr t. clock_read live_service tr t \<and> epoch_us t - signal_us demo_ts \<le> 60 * 1000000
     \<and> - 5000000 \<le> epoch_us t - signal_us demo_ts"
proof (rule demo_history)
  fix tr s q rq
  assume a: "after (process_signal live_service demo_row) (tr @ [s]) q" "sends s rq"
  show ?thesis
    using order_is_fresh_and_enabled [OF a]
    by (auto simp: demo_service_def live_settings_def default_settings_def demo_ts_text)
qed

text \<open>
  C8: Daily limits. A thread that sends has seen an account, a broker time and a number of trades
  executed on that account since the midnight of the broker's date, labelled UTC as the code does, that
  is below \<open>max_trades_per_day\<close>; and with the stored equity of the day as baseline, or the present equity on the first signal of the day,
  the loss of the day is below \<open>max_daily_loss_percent\<close>.
\<close>

theorem order_within_daily_limits:
  assumes "after (process_signal svc row) (tr @ [s]) q" and "sends s rq"
  shows "\<exists>account key tk broker_now n stored.
      E_account_info (Inr (Some account)) \<in> set (own_events tr) \<and> account_key_for account = Some key
    \<and> E_symbol_info_tick (rq_symbol rq) (Inr (Some tk)) \<in> set (own_events tr)
    \<and> tick_datetime (tk_time tk) = Some broker_now
    \<and> db_value (count_executed_trades_since key (isoformat (start_of_trading_day broker_now))) tr n
    \<and> n < cfg_max_trades_per_day (es_settings svc)
    \<and> db_value (get_daily_loss_baseline key (trading_day_key broker_now)) tr stored
    \<and> \<not> fle (dflt_value (ai_equity account) stored) (Fin 0)
    \<and> (\<forall>e b. ai_equity account = Fin e \<and> dflt_value (ai_equity account) stored = Fin b \<longrightarrow>
         \<not> fle (cfg_max_daily_loss_percent (es_settings svc)) (loss_percent e b))"
proof -
  let ?cfg = "es_settings svc"
  obtain eid symb key eq mk v t0 t1 t2 t3 t4 t5 t6 t7 t8 t9 where
    t: "tr = t0 @ t1 @ t2 @ t3 @ t4 @ t5 @ t6 @ t7 @ t8 @ t9"
    and a: "after (connect_account svc (sg_signal_id row) eid) t3 (Ret (Inr (key, eq)))"
    and m: "after (market_data svc row eid symb) t4 (Ret (Inr mk))"
    and c: "after (count_checks svc (sg_signal_id row) eid key (mk_broker_now mk)) t6 (Ret (Inr ()))"
    and l: "after (loss_checks svc row eid key eq (mk_broker_now mk)) t7 (Ret (Inr ()))"
    and rq: "rq = build_order_request svc symb (sg_action row) v (mk_entry_price mk) (sg_stop_loss row)
           (sg_take_profit row) (mk_symbol_info mk) (sg_signal_id row)"
    by (rule order_history [OF assms]) blast
  from connect_account_passed [OF a] obtain account where
    acc: "E_account_info (Inr (Some account)) \<in> set (own_events t3)" "account_key_for account = Some key"
      "eq = ai_equity account" by blast
  from market_data_passed(3) [OF m] obtain tk where
    tk: "E_symbol_info_tick symb (Inr (Some tk)) \<in> set (own_events t4)" "tick_datetime (tk_time tk) = Some (mk_broker_now mk)"
    by blast
  from count_checks_passed(1) [OF c] obtain n where
    n: "db_value (count_executed_trades_since key (isoformat (start_of_trading_day (mk_broker_now mk)))) t6 n"
      "n < cfg_max_trades_per_day ?cfg" by blast
  from loss_checks_passed(1) [OF l] obtain stored ch where
    b: "db_value (get_daily_loss_baseline key (trading_day_key (mk_broker_now mk))) t7 stored"
      "check_daily_loss eq (dflt_value eq stored) (cfg_max_daily_loss_percent ?cfg) = Inr ch" "rc_ok ch" by blast
  then have pos: "\<not> fle (dflt_value eq stored) (Fin 0)" by (auto simp: check_daily_loss_def rc_fail_def)
  have loss: "\<forall>e b'. ai_equity account = Fin e \<and> dflt_value (ai_equity account) stored = Fin b' \<longrightarrow>
      \<not> fle (cfg_max_daily_loss_percent ?cfg) (loss_percent e b')"
    using b(2,3) pos acc(3) check_daily_loss_Fin by (auto simp: rc_fail_def not_le split: if_splits)
  have "rq_symbol rq = symb" by (simp add: rq)
  then show ?thesis
    using acc tk n b(1) pos loss
    by (intro exI [of _ account] exI [of _ key] exI [of _ tk] exI [of _ "mk_broker_now mk"] exI [of _ n]
        exI [of _ stored]) (simp add: t)
qed

theorem order_within_daily_limits_witness:
  "\<exists>(tr :: unit world trace) account key (tk :: tick) t n. E_account_info (Inr (Some account)) \<in> set (own_events tr)
     \<and> account_key_for account = Some key \<and> tick_datetime (tk_time tk) = Some t
     \<and> db_value (count_executed_trades_since key (isoformat (start_of_trading_day t))) tr n \<and> n < 5"
proof (rule demo_history)
  fix tr s q rq
  assume a: "after (process_signal live_service demo_row) (tr @ [s]) q" "sends s rq"
  have five: "cfg_max_trades_per_day (es_settings live_service) = 5"
    by (simp add: demo_service_def live_settings_def default_settings_def)
  show ?thesis using order_within_daily_limits [OF a] unfolding five by (elim exE conjE) (intro exI conjI)
qed

lemma demo_db_ok: "db_ok (demo_db demo_row)"
  using reachable_inv [OF reachable_demo_process [of demo_answers live_settings]]
  by (simp add: process_inv_def demo_process_def demo_world_def)

text \<open>
  C9: No stop loss, no order. Whatever \<open>require_stop_loss\<close> says, a thread whose signal has no stop loss
  sends nothing, in any interleaving, and if it returns, then with a rejection or a failure of a check.
  The switch does not allow such signals: with it off they pass \<open>check_stop_loss\<close>, and the sizing
  raises on the missing price, as in the witness.
\<close>

theorem no_order_without_stop_loss:
  assumes "sg_stop_loss row = None" and "after (process_signal svc row) tr q"
  shows "order_sends (own_events tr) = []
    \<and> (\<forall>st. q = Ret st \<longrightarrow> is_rejection st \<and> st \<noteq> FAILED_ORDER_SEND \<and> st \<noteq> REVIEW_REQUIRED)"
  using no_stop_no_order [OF assms] by (simp add: refused_def)

theorem no_order_without_stop_loss_witness:
  "\<exists>tr. after (process_signal (demo_service demo_answers (live_settings\<lparr>cfg_require_stop_loss := False\<rparr>))
       (demo_row\<lparr>sg_stop_loss := None\<rparr>)) tr (Throw TypeError)
     \<and> order_sends (own_events tr) = []"
proof -
  let ?svc = "demo_service demo_answers (live_settings\<lparr>cfg_require_stop_loss := False\<rparr>)"
    and ?row = "demo_row\<lparr>sg_stop_loss := None\<rparr>" and ?w = "demo_world (demo_db demo_row)"
  have "fst (run (process_signal ?svc ?row) ?w) = Inl TypeError" by (simp add: demo_eval)
  then obtain tr where t: "after (process_signal ?svc ?row) tr (Throw TypeError)"
    using after_run [of "process_signal ?svc ?row" ?w] by auto
  then show ?thesis using no_order_without_stop_loss [OF _ t] by (intro exI [of _ tr]) simp
qed

text \<open>
  C10: The daily trade limit is kept. A run of the pipeline that ends in a trade leaves on the account it
  saw, since the midnight of the date of the tick it saw, labelled UTC as the code does, at most
  \<open>max_trades_per_day\<close> counted trades, its own included.
\<close>

theorem daily_trade_limit_is_kept:
  assumes "db_ok (w_db w)" and "run (process_signal svc row) w = (Inr st, w')" and "st \<in> {EXECUTED, EXECUTED_PARTIAL}"
  shows "\<exists>es account key symb tk broker_now. w_log w' = w_log w @ es
    \<and> E_account_info (Inr (Some account)) \<in> set es \<and> account_key_for account = Some key
    \<and> resolve (es_symbol_mapper svc) (sg_symbol_raw row) = Some symb
    \<and> E_symbol_info_tick symb (Inr (Some tk)) \<in> set es \<and> tick_datetime (tk_time tk) = Some broker_now
    \<and> count_executed_trades_since key (isoformat (start_of_trading_day broker_now)) (w_db w')
        \<le> cfg_max_trades_per_day (es_settings svc)"
proof -
  have "\<not> unsent st" using assms(3) by (auto simp: unsent_def)
  from process_signal_within_limit [OF assms(1,2) this] show ?thesis unfolding counted_def by blast
qed

theorem daily_trade_limit_is_kept_witness:
  "\<exists>account key symb (tk :: tick) t. E_account_info (Inr (Some account)) \<in> set (w_log (demo_end live_service))
     \<and> account_key_for account = Some key
     \<and> E_symbol_info_tick symb (Inr (Some tk)) \<in> set (w_log (demo_end live_service)) \<and> tick_datetime (tk_time tk) = Some t
     \<and> count_executed_trades_since key (isoformat (start_of_trading_day t)) (w_db (demo_end live_service)) \<le> 5"
proof -
  have five: "cfg_max_trades_per_day (es_settings live_service) = 5"
    by (simp add: demo_service_def live_settings_def default_settings_def)
  have "db_ok (w_db (demo_world (demo_db demo_row)))" using demo_db_ok by (simp add: demo_world_def)
  from daily_trade_limit_is_kept [OF this demo_executed [unfolded demo_run_def]] show ?thesis
    unfolding five by (metis (no_types, lifting) Un_iff insertCI set_append)
qed

section \<open>The end of a signal\<close>

text \<open>
  C11: The pipeline decides as the table of its gates. Against a terminal whose answers depend only on
  the question, and a clock that stands still, a run on a valid store ends as \<open>decision\<close> says: with the
  status of the first gate that stops the signal, in the order freshness, action, symbol map,
  connection, account, market data, stop loss, spread, trades, positions, loss, risk, volume, order
  check, dry run; with the exception of the first gate that raises; and past the last gate with the
  broker's verdict on the order. The order and the exceptions are the code's: the README lists the action
  after the market data, and the documents say that a volume that cannot be computed rejects the signal,
  where the code raises if the broker's profit calculation is not a number; the witness has both.
\<close>

theorem pipeline_decides_as_the_table:
  assumes "still svc t now" and "db_ok (w_db w)" and "get_signal (sg_signal_id row) (w_db w) \<noteq> None"
    and "0 \<le> cfg_max_signal_age_seconds (es_settings svc)" and "cfg_max_signal_age_seconds (es_settings svc) \<le> 2 ^ 32"
  shows "fst (run (process_signal svc row) w) = decision svc t (w_connected w) now row (w_db w)"
  by (rule process_signal_decides [OF assms])

theorem pipeline_decides_as_the_table_witness:
  "decision live_service (demo_terminal demo_answers) False demo_now demo_row (demo_db demo_row) = Inr EXECUTED
   \<and> decision (demo_service (demo_answers\<lparr>an_profit := Some NaN\<rparr>) live_settings)
       (demo_terminal (demo_answers\<lparr>an_profit := Some NaN\<rparr>)) False demo_now demo_row (demo_db demo_row) = Inl ValueError
   \<and> decision (demo_service demo_answers (live_settings\<lparr>cfg_allow_market_buy := False\<rparr>)) (demo_terminal demo_answers)
       False demo_now (demo_row\<lparr>sg_symbol_raw := ''EURUSD''\<rparr>) (demo_db demo_row) = Inr REJECTED_RISK"
proof -
  have age: "cfg_max_signal_age_seconds (es_settings (demo_service a cfg)) = 60" if "cfg_max_signal_age_seconds cfg = 60" for a cfg
    using that by (simp add: demo_service_def)
  have c: "cfg_max_signal_age_seconds live_settings = 60" by (simp add: live_settings_def default_settings_def)
  have d: "decision (demo_service a cfg) (demo_terminal a) False demo_now row (demo_db demo_row)
      = fst (run (process_signal (demo_service a cfg) row) (demo_world (demo_db demo_row)))"
    if "sg_signal_id row = ''s1''" "cfg_max_signal_age_seconds cfg = 60" for a cfg row
    using pipeline_decides_as_the_table [OF demo_still, of "demo_world (demo_db demo_row)" row a cfg]
      demo_db_ok demo_row_known that age [OF that(2), of a] by (simp add: demo_world_def)
  have "fst (run (process_signal (demo_service demo_answers (live_settings\<lparr>cfg_allow_market_buy := False\<rparr>))
      (demo_row\<lparr>sg_symbol_raw := ''EURUSD''\<rparr>)) (demo_world (demo_db demo_row))) = Inr REJECTED_RISK"
    by (simp add: demo_eval)
  then show ?thesis using d c demo_raises demo_executed by (simp add: demo_run_def)
qed

text \<open>
  C12: A verdict means what the broker said. Whatever the interleaving, a thread that returns a status
  either sent nothing, and the status is one of the checks' or the dry run's; or its last call is its
  one \<open>order_send\<close>, and the status is EXECUTED on 10009, EXECUTED_PARTIAL on 10010, REVIEW_REQUIRED on
  10008 or no result at all, and FAILED_ORDER_SEND on any other retcode.
\<close>

theorem verdict_follows_the_broker:
  assumes "after (process_signal svc row) tr (Ret st)"
  shows "(order_sends (own_events tr) = []
      \<and> st \<notin> {PENDING, PROCESSING, EXECUTED, EXECUTED_PARTIAL, FAILED_ORDER_SEND, REVIEW_REQUIRED, RECOVERED_EXECUTED})
    \<or> (\<exists>es rq r. own_events tr = es @ [E_order_send rq (Inr r)] \<and> order_sends es = []
        \<and> rq_comment rq = meb_comment (sg_signal_id row)
        \<and> st = (case r of None \<Rightarrow> REVIEW_REQUIRED
             | Some t \<Rightarrow> if tr_retcode t = Some 10009 then EXECUTED
                         else if tr_retcode t = Some 10010 then EXECUTED_PARTIAL
                         else if tr_retcode t = Some 10008 then REVIEW_REQUIRED
                         else FAILED_ORDER_SEND))"
  using process_signal_answered [OF assms] unfolding answered_def unsent_def broker_verdict_def .

theorem verdict_follows_the_broker_witness:
  "\<exists>(tr :: unit world trace) es rq t. own_events tr = es @ [E_order_send rq (Inr (Some t))] \<and> tr_retcode t = Some 10009"
proof -
  obtain tr where "after (process_signal live_service demo_row) tr (Ret EXECUTED)"
    using after_run [of "process_signal live_service demo_row" "demo_world (demo_db demo_row)"] demo_executed
    by (auto simp: demo_run_def)
  from verdict_follows_the_broker [OF this] obtain es rq r where
    "own_events tr = es @ [E_order_send rq (Inr r)]"
    "EXECUTED = (case r of None \<Rightarrow> REVIEW_REQUIRED
             | Some t \<Rightarrow> if tr_retcode t = Some 10009 then EXECUTED
                         else if tr_retcode t = Some 10010 then EXECUTED_PARTIAL
                         else if tr_retcode t = Some 10008 then REVIEW_REQUIRED
                         else FAILED_ORDER_SEND)" by auto
  then show ?thesis by (cases r) (auto split: if_splits)
qed

text \<open>
  C13: Every run of the pipeline settles its signal. However the checks and the broker decide, a run
  of \<open>process_signal\<close> on a known signal that returns a status has left that status, never PENDING
  or PROCESSING, on the signal and on a finished execution of it, and the signal's reason is the
  execution's message exactly when the status is a rejection, a failure or a review.
\<close>

theorem pipeline_settles_signal:
  assumes "get_signal (sg_signal_id row) (w_db w) \<noteq> None"
    and "run (process_signal svc row) w = (Inr st, w')"
  shows "st \<noteq> PENDING \<and> st \<noteq> PROCESSING
    \<and> (\<exists>r e. get_signal (sg_signal_id row) (w_db w') = Some r \<and> sg_status r = st
         \<and> e \<in> set (db_executions (w_db w')) \<and> ex_signal_id e = sg_signal_id row \<and> ex_status e = st
         \<and> ex_finished_at e \<noteq> None
         \<and> sg_rejection_reason r = (if is_rejection st then ex_result_message e else None))"
  using process_signal_outcome [OF assms] by (simp add: outcome_def)

theorem pipeline_settles_signal_witness:
  "\<exists>r e. get_signal ''s1'' (w_db (demo_end live_service)) = Some r \<and> sg_status r = EXECUTED
     \<and> e \<in> set (db_executions (w_db (demo_end live_service))) \<and> ex_status e = EXECUTED"
  using pipeline_settles_signal [of demo_row "demo_world (demo_db demo_row)" live_service EXECUTED "demo_end live_service"]
    demo_executed demo_row_known by (auto simp: demo_run_def)

text \<open>
  C14: An exception leaves the signal where it was. When \<open>process_signal\<close> raises, it has not touched
  the signal's status: a claimed signal stays PROCESSING until the next start reconciles it.
\<close>

theorem exception_keeps_status:
  assumes "get_signal (sg_signal_id row) (w_db w) = Some r"
    and "run (process_signal svc row) w = (Inl e, w')"
  shows "\<exists>r'. get_signal (sg_signal_id row) (w_db w') = Some r' \<and> sg_status r' = sg_status r"
  by (rule process_signal_error [OF assms])

theorem exception_keeps_status_witness:
  "\<exists>r. get_signal ''s1'' (w_db (demo_end (demo_service (demo_answers\<lparr>an_profit := Some NaN\<rparr>) live_settings))) = Some r
     \<and> sg_status r = PROCESSING"
proof -
  let ?svc = "demo_service (demo_answers\<lparr>an_profit := Some NaN\<rparr>) live_settings"
  have "run (process_signal ?svc demo_row) (demo_world (demo_db demo_row)) = (Inl ValueError, demo_end ?svc)"
    using demo_raises by (simp add: demo_run_def demo_end_def prod_eq_iff)
  from exception_keeps_status [OF demo_row_known this] show ?thesis by simp
qed

text \<open>
  C15: Reconciliation follows the broker's history. A signal left in PROCESSING becomes
  RECOVERED_EXECUTED only on a deal of the last three days that carries its tag, and
  REVIEW_REQUIRED only when no deal of a history the broker gave carries it; it has no third verdict.
\<close>

theorem reconciliation_follows_history:
  assumes "after (reconcile_stuck_signal svc row) tr (Ret st)"
  shows "st = RECOVERED_EXECUTED
      \<and> (\<exists>t deals d. E_history_deals_get (utc_of_us (epoch_us t - 3 * 86400000000)) t (Inr (Some deals))
           \<in> set (own_events tr) \<and> d \<in> set deals
           \<and> get_attr d ''comment'' (AStr []) = AStr (meb_comment (sg_signal_id row)))
    \<or> st = REVIEW_REQUIRED
      \<and> (\<forall>f t deals d. E_history_deals_get f t (Inr (Some deals)) \<in> set (own_events tr) \<longrightarrow> d \<in> set deals
           \<longrightarrow> get_attr d ''comment'' (AStr []) \<noteq> AStr (meb_comment (sg_signal_id row)))"
  using reconcile_verdict [OF assms]
  unfolding deal_matches_def RECONCILIATION_LOOKBACK_def day_us_def by blast

theorem reconciliation_follows_history_witness:
  "\<exists>(tr :: unit world trace) f t deals d. E_history_deals_get f t (Inr (Some deals)) \<in> set (own_events tr) \<and> d \<in> set deals
     \<and> get_attr d ''comment'' (AStr []) = AStr (meb_comment ''s1'')"
proof -
  let ?svc = "demo_service (demo_answers\<lparr>an_deals := Some [demo_deal]\<rparr>) live_settings"
  obtain tr where "after (reconcile_stuck_signal ?svc demo_row) tr (Ret RECOVERED_EXECUTED)"
    using after_run [of "reconcile_stuck_signal ?svc demo_row" "demo_world (demo_db demo_row)"] demo_reconcile by auto
  from reconciliation_follows_history [OF this] obtain t deals d where
    "E_history_deals_get (utc_of_us (epoch_us t - 3 * 86400000000)) t (Inr (Some deals)) \<in> set (own_events tr)"
    "d \<in> set deals" "get_attr d ''comment'' (AStr []) = AStr (meb_comment ''s1'')" by auto
  then show ?thesis by blast
qed

text \<open>
  C16: Nothing stays stuck. After a start whose recovery returned, no signal is in PROCESSING.
\<close>

theorem recovery_leaves_nothing_stuck:
  assumes "db_ok (w_db w)" and "run (recover_on_startup svc) w = (Inr (), w')"
  shows "find_stuck_processing (w_db w') = []"
  by (rule nothing_left_processing [OF assms])

theorem recovery_leaves_nothing_stuck_witness:
  "find_stuck_processing (demo_db demo_row) \<noteq> []
     \<and> find_stuck_processing (w_db (snd (run (recover_on_startup live_service) (demo_world (demo_db demo_row))))) = []"
proof (rule conjI)
  show "find_stuck_processing (demo_db demo_row) \<noteq> []"
    by (simp add: find_stuck_processing_def demo_db_def filter_empty_conv)
  have "db_ok (w_db (demo_world (demo_db demo_row)))" using demo_db_ok by (simp add: demo_world_def)
  then show "find_stuck_processing (w_db (snd (run (recover_on_startup live_service) (demo_world (demo_db demo_row))))) = []"
    by (rule recovery_leaves_nothing_stuck [of _ live_service]) (simp add: demo_restart prod_eq_iff)
qed



text \<open>
  C18: Executions are open or closed, and only the pipeline closes them. In a reachable state each
  execution stands at PROCESSING with no end, or has an end and a status that is none of PENDING,
  PROCESSING and RECOVERED_EXECUTED; the daily count of an account is therefore the number of its
  EXECUTED and EXECUTED_PARTIAL executions. The query lists RECOVERED_EXECUTED too, but the recovery
  writes the signal only: in the witness an order was sent and its signal recovered, and it is not counted.
\<close>

theorem executions_are_open_or_closed:
  assumes "reachable svc p"
  shows "(\<forall>e \<in> set (db_executions (w_db (sy_world p))).
      (ex_status e = PROCESSING \<and> ex_finished_at e = None)
      \<or> (ex_finished_at e \<noteq> None \<and> ex_status e \<notin> {PENDING, PROCESSING, RECOVERED_EXECUTED}))
    \<and> count_executed_trades_since key since (w_db (sy_world p))
      = int (length (filter (\<lambda>e. ex_status e \<in> {EXECUTED, EXECUTED_PARTIAL}
          \<and> ex_account_key e = Some key \<and> since \<le> ex_started_at e) (db_executions (w_db (sy_world p)))))"
  using reachable_executions [OF assms] count_of_executed [of "w_db (sy_world p)"]
  by (auto simp: executions_inv_def execution_ok_def closing_def)

theorem executions_are_open_or_closed_witness:
  "\<exists>p r. reachable lost_service p \<and> order_sends (w_log (sy_world p)) = [demo_request]
     \<and> get_signal ''s1'' (w_db (sy_world p)) = Some r \<and> sg_status r = RECOVERED_EXECUTED
     \<and> count_executed_trades_since ''Demo|7'' [] (w_db (sy_world p)) = 0"
proof -
  obtain p where p: "reachable lost_service p" "order_sends (w_log (sy_world p)) = [demo_request]"
    "\<exists>r. get_signal ''s1'' (w_db (sy_world p)) = Some r \<and> sg_status r = RECOVERED_EXECUTED"
    "map ex_status (db_executions (w_db (sy_world p))) = [PROCESSING]" using lost_restarted by metis
  obtain e where "db_executions (w_db (sy_world p)) = [e]" "ex_status e = PROCESSING" using p(4) by auto
  then have "count_executed_trades_since ''Demo|7'' [] (w_db (sy_world p)) = 0"
    using executions_are_open_or_closed [OF p(1), of "''Demo|7''" "[]"] by simp
  with p show ?thesis by blast
qed

section \<open>The life of a signal\<close>

text \<open>
  C19: The store refines a four-stage automaton. Seen through \<open>stage_of\<close>, each step of a reachable
  process - a request, a claim, a thread's step, a crash, a start - leaves each signal where it is or
  moves it one edge along Unknown, Waiting, Working, Settled; nothing moves back.
\<close>

theorem steps_refine_lifecycle:
  assumes "reachable svc p" and "step svc p q"
  shows "stage_of (w_db (sy_world q)) sid = stage_of (w_db (sy_world p)) sid
    \<or> stage_step (stage_of (w_db (sy_world p)) sid) (stage_of (w_db (sy_world q)) sid)"
  using lifecycle_step [OF assms(2) reachable_inv [OF assms(1)] reachable_lifecycle [OF assms(1)]]
  by (simp add: moves_def)

lemma demo_crash: "step svc p (p\<lparr>sy_phase := Down, sy_handler := None, sy_threads := []\<rparr>)"
  by (rule step.crash)

theorem steps_refine_lifecycle_witness:
  "stage_of (w_db (sy_world ((demo_process live_service)\<lparr>sy_phase := Down, sy_handler := None, sy_threads := []\<rparr>))) ''s1''
     = Working"
proof -
  have "stage_of (w_db (sy_world (demo_process live_service))) ''s1'' = Working"
    using demo_row_known by (simp add: demo_process_def stage_of_def)
  then show ?thesis
    using steps_refine_lifecycle [OF reachable_demo_process demo_crash, of demo_answers live_settings "''s1''"] by simp
qed

text \<open>
  C20: A verdict is final. Once a signal has a status other than PENDING and PROCESSING, every state
  the process reaches from there, restarts included, shows that status.
\<close>

theorem verdict_is_final:
  assumes "reachable svc p" and "rtranclp (step svc) p q"
    and "get_signal sid (w_db (sy_world p)) = Some r" and "sg_status r = st" and "st \<noteq> PENDING" and "st \<noteq> PROCESSING"
  shows "\<exists>r'. get_signal sid (w_db (sy_world q)) = Some r' \<and> sg_status r' = st"
  using steps_climb [OF assms(2,1), of sid] assms(3-6)
  by (auto simp: stage_of_def split: option.splits if_splits)

theorem verdict_is_final_witness:
  "\<exists>r. get_signal ''s1'' (w_db (sy_world ((demo_done live_service)\<lparr>sy_phase := Down, sy_handler := None, sy_threads := []\<rparr>)))
     = Some r \<and> sg_status r = EXECUTED"
proof -
  obtain r where r: "get_signal ''s1'' (w_db (sy_world (demo_done live_service))) = Some r" "sg_status r = EXECUTED"
    using demo_end_status by (auto simp: demo_done_def)
  show ?thesis
    by (rule verdict_is_final [OF reachable_demo_done r_into_rtranclp [of "step live_service", OF demo_crash] r]) simp_all
qed

text \<open>
  C21: Nothing on record is lost. Whatever happens from a reachable state on, restarts included, the
  executions keep their identifiers and their signals, the baseline of an account and day keeps the
  value it was first given, and a signal keeps its payload.
\<close>

theorem records_are_never_lost:
  assumes "reachable svc p" and "rtranclp (step svc) p q"
  shows "(\<exists>ks. execution_keys (w_db (sy_world q)) = execution_keys (w_db (sy_world p)) @ ks)
    \<and> (\<forall>key day b. get_daily_loss_baseline key day (w_db (sy_world p)) = Some b
         \<longrightarrow> get_daily_loss_baseline key day (w_db (sy_world q)) = Some b)
    \<and> (\<forall>sid r. get_signal sid (w_db (sy_world p)) = Some r
         \<longrightarrow> (\<exists>r'. get_signal sid (w_db (sy_world q)) = Some r' \<and> immutable r' = immutable r))"
proof -
  have g: "store_grows (w_db (sy_world p)) (w_db (sy_world q))" by (rule reachable_grows [OF assms(2,1)])
  show ?thesis using g store_grows_baseline [OF g] unfolding store_grows_def by blast
qed

theorem records_are_never_lost_witness:
  "\<exists>r. get_signal ''s1'' (w_db (sy_world ((demo_done live_service)\<lparr>sy_phase := Down, sy_handler := None, sy_threads := []\<rparr>))) = Some r"
proof -
  obtain r where r: "get_signal ''s1'' (w_db (sy_world (demo_done live_service))) = Some r"
    using demo_end_status by (auto simp: demo_done_def)
  show ?thesis
    using records_are_never_lost [OF reachable_demo_done r_into_rtranclp [of "step live_service", OF demo_crash]] r by blast
qed

text \<open>
  C22: One owner per signal. In a reachable state no signal has two threads, and the signal of a
  thread is in PROCESSING until the thread has returned its verdict, which is then the signal's.
\<close>

theorem threads_own_their_signals:
  assumes "reachable svc p"
  shows "distinct (map fst (sy_threads p))
    \<and> (\<forall>(sid, h) \<in> set (sy_threads p). stage_of (w_db (sy_world p)) sid = Working
         \<or> (\<exists>st. h = Ret st \<and> stage_of (w_db (sy_world p)) sid = Settled st))"
  using reachable_lifecycle [OF assms] by (fastforce simp: lifecycle_inv_def owns_def)

theorem threads_own_their_signals_witness:
  "stage_of (demo_db demo_row) ''s1'' = Working \<or> (\<exists>st. process_signal live_service demo_row = Ret st)"
  using threads_own_their_signals [OF reachable_demo_process, of demo_answers live_settings]
  by (auto simp: demo_process_def demo_world_def)

text \<open>
  C23: The store stays well-formed. In a reachable state the keys of each table are unique, and every
  signal has a safe identifier, one of the two actions, positive finite prices and a risk percent of
  at most 100, and has been attempted at most once, and not at all while it is PENDING.
\<close>

theorem store_stays_valid:
  assumes "reachable svc p"
  shows "db_ok (w_db (sy_world p))
    \<and> (\<forall>sid r. get_signal sid (w_db (sy_world p)) = Some r \<longrightarrow> payload_ok r
         \<and> 0 \<le> sg_attempt_count r \<and> sg_attempt_count r \<le> 1 \<and> (sg_status r = PENDING \<longrightarrow> sg_attempt_count r = 0))"
  using reachable_inv [OF assms] reachable_orders [OF assms]
  by (auto simp: process_inv_def attempts_ok_def orders_inv_def valid_payloads_def)

theorem store_stays_valid_witness:
  "\<exists>r. get_signal ''s1'' (w_db (demo_end live_service)) = Some r \<and> payload_ok r \<and> sg_attempt_count r \<le> 1"
proof -
  obtain r where "get_signal ''s1'' (w_db (sy_world (demo_done live_service))) = Some r"
    using demo_end_status by (auto simp: demo_done_def)
  with store_stays_valid [OF reachable_demo_done, of demo_answers live_settings] show ?thesis
    by (auto simp: demo_done_def)
qed

text \<open>
  C24: Progress. From a reachable running state the oldest waiting signal can be claimed and its
  thread run to an end: the pipeline has no loop that keeps it, so the signal is settled with the
  thread's verdict, or the thread raises and leaves it in PROCESSING.
\<close>

theorem waiting_signal_is_served:
  assumes "reachable svc p" and "sy_phase p = Running" and "sy_handler p = None"
    and "next_pending (w_db (sy_world p)) = Some row"
  shows "\<exists>t w r q. claim (es_now svc) (sy_world p) = (Some (claim_row t row), w)
    \<and> run (process_signal svc (claim_row t row)) w = (r, sy_world q)
    \<and> rtranclp (step svc) p q \<and> sy_threads q = sy_threads p
    \<and> stage_of (w_db (sy_world q)) (sg_signal_id row) = (case r of Inr st \<Rightarrow> Settled st | Inl e \<Rightarrow> Working)"
proof -
  have ok: "db_ok (w_db (sy_world p))" using reachable_inv [OF assms(1)] by (simp add: process_inv_def)
  obtain us e where now: "es_now svc (w_ext (sy_world p)) = (us, e)" by (cases "es_now svc (w_ext (sy_world p))")
  define t where "t = isoformat (utc_of_us us)"
  obtain d where d: "claim_next_pending t (w_db (sy_world p)) = (Some (claim_row t row), d)"
    and g: "get_signal (sg_signal_id row) d = Some (claim_row t row)"
    using claim_next_pending_Some [OF ok assms(4), of t] by auto
  let ?w = "(sy_world p)\<lparr>w_ext := e, w_db := d\<rparr>" and ?row = "claim_row t row"
  have c: "claim (es_now svc) (sy_world p) = (Some ?row, ?w)"
    using assms(4) now d by (simp add: claim_def t_def)
  let ?p = "p\<lparr>sy_world := ?w, sy_threads := (sg_signal_id ?row, process_signal svc ?row) # sy_threads p\<rparr>"
  have s1: "step svc p ?p" by (rule step.claimed [OF assms(2,3) c])
  obtain r w' where r: "run (process_signal svc ?row) ?w = (r, w')" by (cases "run (process_signal svc ?row) ?w")
  let ?q = "?p\<lparr>sy_world := w', sy_threads := [] @ sy_threads p\<rparr>"
  have "rtranclp (step svc) ?p ?q" using r by (intro steps_thread) simp_all
  with s1 have s: "rtranclp (step svc) p ?q" by (rule converse_rtranclp_into_rtranclp)
  have "stage_of (w_db w') (sg_signal_id row) = (case r of Inr st \<Rightarrow> Settled st | Inl e \<Rightarrow> Working)"
  proof (cases r)
    case (Inr st)
    with r g process_signal_outcome [of ?row ?w svc st w'] show ?thesis
      by (auto simp: outcome_def stage_of_def)
  next
    case (Inl e)
    with r g process_signal_error [of ?row ?w ?row svc e w'] show ?thesis
      by (auto simp: stage_of_def)
  qed
  then show ?thesis using c r s
    by (intro exI [of _ t] exI [of _ ?w] exI [of _ r] exI [of _ ?q]) simp
qed

theorem waiting_signal_is_served_witness:
  "\<exists>q. rtranclp (step live_service) (demo_queued live_service) q \<and> sy_threads q = []
     \<and> (stage_of (w_db (sy_world q)) ''s1'' = Working \<or> (\<exists>st. stage_of (w_db (sy_world q)) ''s1'' = Settled st))"
proof -
  have "next_pending (w_db (sy_world (demo_queued live_service))) = Some demo_pending"
    by (simp add: demo_queued_def demo_world_def next_pending_def select_first_by_def demo_db_def)
  then have "\<exists>t w r q. claim (es_now live_service) (sy_world (demo_queued live_service)) = (Some (claim_row t demo_pending), w)
    \<and> run (process_signal live_service (claim_row t demo_pending)) w = (r, sy_world q)
    \<and> rtranclp (step live_service) (demo_queued live_service) q \<and> sy_threads q = sy_threads (demo_queued live_service)
    \<and> stage_of (w_db (sy_world q)) (sg_signal_id demo_pending) = (case r of Inr st \<Rightarrow> Settled st | Inl e \<Rightarrow> Working)"
    by (intro waiting_signal_is_served reachable_demo_queued) (simp_all add: demo_queued_def)
  then show ?thesis by (fastforce simp: demo_queued_def split: sum.splits)
qed

section \<open>The queue\<close>

text \<open>
  C25: Submission is idempotent. A valid POST of a known signal answers its present status as a
  duplicate and changes no row; of a new one it stores one PENDING row, never attempted, with the
  submitted payload, and leaves every other signal alone. Either way the executions and the baselines
  stay, and SQLite uses up one number of the row ids, for an ignored insert as well.
\<close>

theorem submission_is_idempotent:
  assumes "make_signal body = Inr signal"
  shows "\<exists>e d t. run (post_signals now body) w =
      (Inr (HttpOk \<lparr>sar_accepted = True, sar_duplicate = (get_signal (sc_signal_id body) (w_db w) \<noteq> None),
         sar_signal_id = sc_signal_id body,
         sar_status = (case get_signal (sc_signal_id body) (w_db w) of None \<Rightarrow> PENDING | Some r \<Rightarrow> sg_status r)\<rparr>),
       w\<lparr>w_ext := e, w_db := d\<rparr>)
    \<and> d = (w_db w)\<lparr>db_signals := db_signals d, db_signals_seq := db_signals_seq (w_db w) + 1\<rparr>
    \<and> (if get_signal (sc_signal_id body) (w_db w) \<noteq> None then db_signals d = db_signals (w_db w)
       else get_signal (sc_signal_id body) d = Some (new_signal_row (db_signals_seq (w_db w) + 1) t (signal_dict_of signal))
         \<and> (\<forall>sid. sid \<noteq> sc_signal_id body \<longrightarrow> get_signal sid d = get_signal sid (w_db w)))"
proof -
  obtain us e where now: "now (w_ext w) = (us, e)" by (cases "now (w_ext w)")
  let ?t = "isoformat (utc_of_us us)" and ?sid = "sc_signal_id body"
  have id: "sd_signal_id (signal_dict_of signal) = ?sid" "sd_risk_percent (signal_dict_of signal) \<noteq> NaN"
    using make_signal_Inr(1,6) [OF assms] by (auto simp: signal_dict_of_def is_finite_def)
  obtain rc d where i: "insert_signal_if_new ?t (signal_dict_of signal) (w_db w) = (rc, d)" by fastforce
  have frame: "d = (w_db w)\<lparr>db_signals := db_signals d, db_signals_seq := db_signals_seq (w_db w) + 1\<rparr>"
    using i by (auto simp: insert_signal_if_new_def Let_def)
  have known: "get_signal ?sid (w_db w) = Some r \<Longrightarrow> rc = (Some r, False) \<and> db_signals d = db_signals (w_db w)" for r
    using i id by (auto simp: insert_signal_if_new_def Let_def)
  let ?row = "new_signal_row (db_signals_seq (w_db w) + 1) ?t (signal_dict_of signal)"
  have new: "rc = (Some ?row, True) \<and> (\<forall>sid. get_signal sid d = (if sid = ?sid then Some ?row else get_signal sid (w_db w)))"
    if "get_signal ?sid (w_db w) = None"
    using i id that by (auto simp: insert_signal_if_new_def Let_def get_signal_append new_signal_row_def split: option.splits)
  have r: "run (post_signals now body) w = run (submit_signal now signal) w" by (simp add: post_signals_def assms)
  show ?thesis
  proof (cases "get_signal ?sid (w_db w)")
    case (Some row)
    have "sg_signal_id row = ?sid" using get_signal_Some Some by blast
    with Some known [OF Some] frame show ?thesis
      using i now unfolding r by (intro exI [of _ e] exI [of _ d])
        (simp add: submit_signal_def submit_def run_bindP run_utcnow run_db_step)
  next
    case None
    have "sg_signal_id ?row = ?sid" "sg_status ?row = PENDING" using id by (simp_all add: new_signal_row_def)
    with None new [OF None] frame show ?thesis
      using i now unfolding r by (intro exI [of _ e] exI [of _ d] exI [of _ ?t])
        (simp add: submit_signal_def submit_def run_bindP run_utcnow run_db_step)
  qed
qed

theorem submission_is_idempotent_witness:
  "\<exists>e. run (post_signals demo_clock demo_signal) (demo_world (demo_db demo_row)) =
      (Inr (HttpOk \<lparr>sar_accepted = True, sar_duplicate = True, sar_signal_id = ''s1'', sar_status = PROCESSING\<rparr>),
       (demo_world (demo_db demo_row))\<lparr>w_ext := e, w_db := (demo_db demo_row)\<lparr>db_signals_seq := 2\<rparr>\<rparr>)"
proof -
  let ?w = "demo_world (demo_db demo_row)"
  have s: "sc_signal_id demo_signal = ''s1''" by (simp add: demo_signal_def)
  have g: "get_signal ''s1'' (w_db ?w) = Some demo_row" using demo_row_known by simp
  have w: "w_db ?w = demo_db demo_row" by (simp add: demo_world_def)
  have two: "db_signals_seq (demo_db demo_row) = 1" by (simp add: demo_db_def)
  have same: "d = (demo_db demo_row)\<lparr>db_signals_seq := 2\<rparr>"
    if "d = (demo_db demo_row)\<lparr>db_signals := db_signals d, db_signals_seq := 2\<rparr>"
      "db_signals d = db_signals (demo_db demo_row)" for d
    using that by (metis db.surjective db.update_convs(1,2) db.select_convs(1))
  show ?thesis
    using submission_is_idempotent [OF make_demo_signal, of demo_clock ?w] unfolding s g unfolding w two
    by (elim exE conjE) (auto dest!: same)
qed

text \<open>
  C26: No signal is claimed twice. Whatever is submitted, claimed and settled on a well-formed store,
  in any order, the claims hand out distinct signals, as long as no status is set back to PENDING.
\<close>

theorem no_signal_is_claimed_twice:
  assumes "db_ok d"
    and "list_all (\<lambda>op. case op of Settle sid (now, st, reason, nrm) \<Rightarrow> st \<noteq> PENDING | _ \<Rightarrow> True) ops"
  shows "distinct (fst (queue_run db_put db_take db_settle ops d))"
proof (rule sq.never_taken_twice [OF assms(1)])
  show "list_all sq.op_settled ops"
    using assms(2) by (auto simp: list_all_iff sq.op_settled_def split: queue_op.splits)
qed

theorem no_signal_is_claimed_twice_witness:
  "fst (queue_run db_put db_take db_settle [Take [], Settle ''s1'' ([], EXECUTED, None, None), Take []] (demo_db demo_pending)) = [''s1'']
   \<and> distinct (fst (queue_run db_put db_take db_settle [Take [], Settle ''s1'' ([], EXECUTED, None, None), Take []] (demo_db demo_pending)))"
proof -
  have ok: "db_ok (demo_db demo_pending)"
    using reachable_inv [OF reachable_demo_queued [of demo_answers live_settings]]
    by (simp add: process_inv_def demo_queued_def demo_world_def)
  have "fst (queue_run db_put db_take db_settle [Take [], Settle ''s1'' ([], EXECUTED, None, None), Take []] (demo_db demo_pending)) = [''s1'']"
    by (simp add: db_take_def db_settle_def claim_next_pending_def next_pending_def select_first_by_def demo_db_def
        update_where_def get_signal_def select_one_def update_signal_status_def)
  with no_signal_is_claimed_twice [OF ok, of "[Take [], Settle ''s1'' ([], EXECUTED, None, None), Take []]"]
  show ?thesis by simp
qed

text \<open>
  C27: Claims are first in, first out. A claim on a well-formed store takes the waiting signal with the
  smallest row id, marks it PROCESSING with one more attempt, and touches no other signal; it takes
  none only when none is waiting.
\<close>

theorem claim_takes_the_oldest:
  assumes "db_ok d" and "claim_next_pending now d = (res, d')"
  shows "case res of
      None \<Rightarrow> d' = d \<and> (\<forall>r \<in> set (db_signals d). sg_status r \<noteq> PENDING)
    | Some r \<Rightarrow> (\<exists>r0. get_signal (sg_signal_id r) d = Some r0 \<and> sg_status r0 = PENDING
        \<and> r = r0\<lparr>sg_status := PROCESSING, sg_attempt_count := sg_attempt_count r0 + 1,
                sg_last_attempt_at := Some now, sg_updated_at := now\<rparr>
        \<and> (\<forall>x \<in> set (db_signals d). sg_status x = PENDING \<longrightarrow> sg_id r0 \<le> sg_id x))
        \<and> (\<forall>sid. get_signal sid d' = (if sid = sg_signal_id r then Some r else get_signal sid d))"
proof (cases "next_pending d")
  case None
  with assms(2) show ?thesis using next_pending_None claim_next_pending_None [OF None] by auto
next
  case (Some row)
  from claim_next_pending_Some [OF assms(1) Some, of now] assms(2) next_pending_Some [OF Some]
  show ?thesis by (auto simp: claim_row_def)
qed

theorem claim_takes_the_oldest_witness:
  "\<exists>r. get_signal ''s1'' (snd (claim_next_pending [] (demo_db demo_pending))) = Some r \<and> sg_status r = PROCESSING"
proof -
  have ok: "db_ok (demo_db demo_pending)"
    using reachable_inv [OF reachable_demo_queued [of demo_answers live_settings]]
    by (simp add: process_inv_def demo_queued_def demo_world_def)
  have "claim_next_pending [] (demo_db demo_pending) = (Some (claim_row [] demo_pending), snd (claim_next_pending [] (demo_db demo_pending)))"
    by (simp add: claim_next_pending_def next_pending_def select_first_by_def demo_db_def
        update_where_def get_signal_def select_one_def claim_row_def)
  from claim_takes_the_oldest [OF ok this] show ?thesis by simp
qed

section \<open>Daily state\<close>

text \<open>
  C28: The first equity of a day is its baseline. After any sequence of writes, under every account
  and day the store answers the value it had, or else the first non-NaN equity written there.
\<close>

theorem first_baseline_wins:
  "get_daily_loss_baseline key day
     (fold (\<lambda>((k, dy), (t, eq)) d. snd (set_daily_loss_baseline t k dy eq d)) ws d)
   = (case get_daily_loss_baseline key day d of
        Some b \<Rightarrow> Some b
      | None \<Rightarrow> map_of (map (\<lambda>(j, (t, eq)). (j, eq)) (filter (\<lambda>(j, (t, eq)). eq \<noteq> NaN) ws)) (key, day))"
proof -
  have f: "(\<lambda>((k, dy), (t, eq)) d. snd (set_daily_loss_baseline t k dy eq d)) = (\<lambda>(k, i). baseline_write k i)"
    by (auto simp: baseline_write_def fun_eq_iff)
  have g: "(\<lambda>(j, (t, eq)). (j, eq)) = (\<lambda>(j, i). (j, snd i))" "(\<lambda>(j, (t, eq)). eq \<noteq> NaN) = (\<lambda>(j, i). snd i \<noteq> NaN)"
    by auto
  show ?thesis using fw.get_writes [of ws d "(key, day)"] unfolding f g by simp
qed

text \<open>
  C29: The daily count is exact. When the executions were started at instants of the clock's range,
  comparing the texts counts exactly the executed, partially executed and recovered executions of the
  account that started at or after the given whole second.
\<close>

theorem trade_count_is_exact:
  assumes "\<forall>e \<in> set (db_executions d). ex_started_at e = isoformat (utc_of_us (us e)) \<and> min_us \<le> us e \<and> us e \<le> max_us"
    and "min_us \<le> s" and "s \<le> max_us" and "s mod 1000000 = 0"
  shows "count_executed_trades_since key (isoformat (utc_of_us s)) d
    = int (length (filter (\<lambda>e. ex_status e \<in> {EXECUTED, EXECUTED_PARTIAL, RECOVERED_EXECUTED}
                              \<and> ex_account_key e = Some key \<and> s \<le> us e) (db_executions d)))"
proof -
  have t: "(isoformat (utc_of_us s) \<le> ex_started_at e) = (s \<le> us e)" if "e \<in> set (db_executions d)" for e
    using that assms(1) isoformat_le_iff [OF assms(2,3) _ _ assms(4), of "us e"] by auto
  show ?thesis
    unfolding count_executed_trades_since_def counts_as_trade_def
    by (rule arg_cong [where f = "\<lambda>xs. int (length xs)"], rule filter_cong [OF refl]) (simp only: t)
qed

theorem trade_count_is_exact_witness:
  "count_executed_trades_since ''Demo|7'' (isoformat (utc_of_us 1000000000000)) (empty_db\<lparr>db_executions := [demo_execution]\<rparr>) = 1"
proof -
  let ?d = "empty_db\<lparr>db_executions := [demo_execution]\<rparr>"
  have r: "min_us \<le> 1000010000000" "1000010000000 \<le> max_us" "min_us \<le> 1000000000000" "1000000000000 \<le> max_us"
    by (simp_all add: min_us_def max_us_def min_ts_def max_ts_def)
  have e: "\<forall>e \<in> set (db_executions ?d). ex_started_at e = isoformat (utc_of_us ((\<lambda>_. 1000010000000) e))
      \<and> min_us \<le> (\<lambda>_. 1000010000000) e \<and> (\<lambda>_. 1000010000000) e \<le> max_us"
    using r(1,2) by simp
  have m: "(1000000000000 :: int) mod 1000000 = 0" by simp
  show ?thesis using trade_count_is_exact [OF e r(3,4) m, of "''Demo|7''"] by simp
qed

section \<open>The checks and the sizing\<close>

text \<open>
  C30: Freshness is exact to the microsecond. For any maximum age up to \<open>2^32\<close> seconds the float
  comparison of \<open>check_freshness\<close> agrees with the exact one: stale strictly beyond the maximum age,
  in the future strictly beyond five seconds, fresh in between, a naive timestamp read as UTC.
\<close>

theorem freshness_is_exact:
  assumes "0 \<le> max_age" and "max_age \<le> 2 ^ 32"
  shows "rc_status (check_freshness ts max_age now) =
    (if max_age * 1000000 < epoch_us now - signal_us ts then Some REJECTED_STALE
     else if epoch_us now - signal_us ts < - 5000000 then Some REJECTED_FUTURE_TIMESTAMP
     else None)"
  by (rule check_freshness_status [OF assms])

theorem freshness_is_exact_witness:
  "rc_status (check_freshness (utc_of_us 1000000000000) 60 (utc_of_us 1000060000001)) = Some REJECTED_STALE
   \<and> rc_status (check_freshness (utc_of_us 1000000000000) 60 (utc_of_us 1000060000000)) = None"
proof -
  have off: "dt_offset (utc_of_us n) = Some 0" for n by (rule utc_of_us_fields [of n]) simp
  have m: "signal_us (utc_of_us n) = n" for n
    by (simp add: signal_us_def off epoch_us_utc_of_us)
  show ?thesis
    by (simp add: freshness_is_exact [of 60] epoch_us_utc_of_us m min_us_def max_us_def min_ts_def max_ts_def)
qed

text \<open>
  C31: The spread check is accurate. For a positive bid below an ask, and spread and point between
  \<open>2^-100\<close> and \<open>2^100\<close>, or no spread, the check passes only spreads of at most the allowed points, and
  rejects only larger ones, up to a relative \<open>2^-50\<close> of rounding.
\<close>

theorem spread_check_is_accurate:
  assumes "0 < bid" and "ask = bid \<or> moderate (ask - bid)" and "moderate point" and "0 \<le> mx"
  shows "\<exists>c. check_spread (Fin bid) (Fin ask) (Fin point) mx = Inr c
    \<and> (if rc_ok c then (ask - bid) * (1 - 1 / 2 ^ 50) \<le> of_int mx * point
       else rc_status c = Some REJECTED_SPREAD \<and> of_int mx * point < (ask - bid) * (1 + 1 / 2 ^ 50))"
  by (rule spread_accurate [OF assms])

theorem spread_check_is_accurate_witness:
  "\<exists>c. check_spread (Fin 100) (Fin (201 / 2)) (Fin (1 / 8)) 3 = Inr c \<and> rc_status c = Some REJECTED_SPREAD"
proof -
  have m: "moderate (201 / 2 - 100)" "moderate (1 / 8)" by code_simp+
  show ?thesis using spread_check_is_accurate [OF _ _ m(2), of 100 "201 / 2" 3] m(1) by (auto split: if_splits)
qed

text \<open>
  C32: The daily loss check is accurate. For a baseline, and a loss if there is one, between \<open>2^-100\<close>
  and \<open>2^100\<close>, the check passes only losses below the allowed percentage of the baseline and rejects
  only losses of at least it, up to a relative \<open>2^-50\<close> of rounding.
\<close>

theorem daily_loss_check_is_accurate:
  assumes "moderate base" and "base \<le> equity \<or> moderate (base - equity)" and "0 < mx"
  shows "\<exists>c. check_daily_loss (Fin equity) (Fin base) (Fin mx) = Inr c
    \<and> (if rc_ok c then 100 * (base - equity) * (1 - 1 / 2 ^ 50) < mx * base
       else rc_status c = Some REJECTED_DAILY_LOSS \<and> mx * base \<le> 100 * (base - equity) * (1 + 1 / 2 ^ 50))"
  by (rule loss_accurate [OF assms])

theorem daily_loss_check_is_accurate_witness:
  "(\<exists>c. check_daily_loss (Fin 9000) (Fin 10000) (Fin 5) = Inr c \<and> rc_status c = Some REJECTED_DAILY_LOSS)
   \<and> (\<exists>c. check_daily_loss (Fin 9900) (Fin 10000) (Fin 5) = Inr c \<and> rc_ok c)"
proof -
  have m: "moderate 10000" "moderate (10000 - 9000)" "moderate (10000 - 9900)" by code_simp+
  show ?thesis
    using daily_loss_check_is_accurate [OF m(1), of 9000 5] daily_loss_check_is_accurate [OF m(1), of 9900 5] m(2,3)
    by (auto split: if_splits)
qed

text \<open>
  C33: Volumes respect the broker's limits. An accepted volume is never above the symbol's maximum,
  and never below its minimum unless the maximum itself is.
\<close>

theorem volume_within_broker_limits:
  assumes "size_volume loss eq rp vmin vmax vstep = Inr v" and "vr_ok v" and "vr_volume v = Some x"
    and "vmin \<noteq> NaN" and "vmax \<noteq> NaN" and "x \<noteq> NaN"
  shows "fle x vmax \<and> (fle vmin x \<or> x = vmax)"
  using size_volume_limits [OF assms] by blast

theorem volume_within_broker_limits_witness: "fle (Fin 1) (Fin 50) \<and> (fle (Fin (1 / 8)) (Fin 1) \<or> Fin 1 = Fin 50)"
  by (rule volume_within_broker_limits [OF demo_volume]) simp_all

text \<open>
  C34: A volume never risks more than it was asked to. For amounts between \<open>2^-100\<close> and \<open>2^100\<close> the
  loss of the sized volume at the stop is at most the requested percentage of the equity, up to the
  relative error \<open>2^-50\<close> of the float operations and one unit of the eighth decimal of a lot that
  \<open>round(..., 8)\<close> may add.
\<close>

theorem sized_volume_risk_is_bounded:
  assumes "moderate eq" and "moderate rp" and "moderate \<bar>loss\<bar>" and "0 < vstep"
    and "size_volume (Fin loss) (Fin eq) (Fin rp) vmin vmax (Fin vstep) = Inr v" and "vr_ok v"
    and "vr_volume v = Some (Fin x)"
  shows "x * \<bar>loss\<bar> \<le> eq * rp / 100 * (1 + 1 / 2 ^ 50) + \<bar>loss\<bar> / 10 ^ 8"
  by (rule volume_risk_bound [OF assms])

lemma demo_moderate: "moderate 10000" "moderate 1" "moderate \<bar>- 100\<bar>"
  by code_simp+

theorem sized_volume_risk_is_bounded_witness:
  "(1 :: rat) * \<bar>- 100\<bar> \<le> 10000 * 1 / 100 * (1 + 1 / 2 ^ 50) + \<bar>- 100\<bar> / 10 ^ 8"
  by (rule sized_volume_risk_is_bounded [OF demo_moderate _ demo_volume]) simp_all

section \<open>Accounts\<close>

text \<open>
  C35: Account keys do not collide. Two accounts with the same daily-state key have the same server
  and the same login, also when a server name holds the separator.
\<close>

lemma split_at_last:
  "xs @ c # ys = xs' @ c # ys' \<Longrightarrow> c \<notin> set ys \<Longrightarrow> c \<notin> set ys' \<Longrightarrow> xs = xs' \<and> ys = ys'"
  by (auto simp: append_eq_append_conv2 append_eq_Cons_conv Cons_eq_append_conv)

theorem account_keys_are_injective:
  assumes "account_key_for a = Some key" and "account_key_for b = Some key"
  shows "ai_server a = ai_server b \<and> ai_login a = ai_login b"
proof -
  from assms obtain s l s' l' where ab: "ai_server a = Some s" "ai_login a = Some l" "ai_server b = Some s'"
    "ai_login b = Some l'" "s @ ''|'' @ str_int l = s' @ ''|'' @ str_int l'"
    by (auto simp: account_key_for_def split: option.splits if_splits)
  then have "s @ CHR ''|'' # str_int l = s' @ CHR ''|'' # str_int l'" by simp
  from split_at_last [OF this str_int_no_bar str_int_no_bar] ab show ?thesis by (simp add: str_int_inject)
qed

theorem account_keys_are_injective_witness:
  "ai_server demo_account = ai_server (demo_account\<lparr>ai_equity := Fin 1\<rparr>)
   \<and> ai_login demo_account = ai_login (demo_account\<lparr>ai_equity := Fin 1\<rparr>)"
proof -
  have "account_key_for (demo_account\<lparr>ai_equity := Fin 1\<rparr>) = Some ''Demo|7''"
    using demo_key(1) by (simp add: account_key_for_def)
  from account_keys_are_injective [OF demo_key(1) this] show ?thesis .
qed

section \<open>Validation and configuration\<close>

text \<open>
  C36: The API accepts exactly the well-formed signals. \<open>make_signal\<close> succeeds if and only if the
  identifier has 1 to 160 characters, all of them letters, digits, dot, underscore, colon or hyphen but
  for one newline the pattern lets end it, the symbol has 1 to 50 characters, the trimmed action is BUY or
  SELL in any case, the risk is in (0, 100], and the prices given are positive and finite; it changes
  nothing but the action, to BUY or SELL. The age of the timestamp is not looked at here, only in the
  pipeline.
\<close>

theorem signal_accepted_iff_well_formed:
  "make_signal s = Inr t \<longleftrightarrow>
     t = s\<lparr>sc_action := upper (strip (sc_action s))\<rparr>
     \<and> (\<exists>body. body \<noteq> [] \<and> set body \<subseteq> set ''ABCDEFGHIJKLMNOPQRSTUVWXYZabcdefghijklmnopqrstuvwxyz0123456789._:-''
          \<and> (sc_signal_id s = body \<or> sc_signal_id s = body @ [CHR 0x0A]))
     \<and> length (sc_signal_id s) \<le> 160
     \<and> 1 \<le> length (sc_symbol s) \<and> length (sc_symbol s) \<le> 50
     \<and> upper (strip (sc_action s)) \<in> {''BUY'', ''SELL''}
     \<and> (\<exists>r. sc_risk_percent s = Fin r \<and> 0 < r \<and> r \<le> 100)
     \<and> (\<forall>p \<in> set_option (sc_stop_loss s) \<union> set_option (sc_take_profit s). \<exists>x. p = Fin x \<and> 0 < x)"
proof -
  have p: "positive_finite x \<longleftrightarrow> (\<exists>r. x = Fin r \<and> 0 < r)" for x
    by (cases x) (auto simp: positive_finite_def is_finite_def)
  have r: "is_finite x \<and> flt (Fin 0) x \<and> fle x (Fin 100) \<longleftrightarrow> (\<exists>r. x = Fin r \<and> 0 < r \<and> r \<le> 100)" for x
    by (cases x) (auto simp: is_finite_def)
  have o: "optionally positive_finite v \<longleftrightarrow> (\<forall>q \<in> set_option v. \<exists>x. q = Fin x \<and> 0 < x)" for v
    by (cases v) (auto simp: optionally_def p)
  have i: "safe_signal_id x \<and> 1 \<le> length x \<longleftrightarrow> (\<exists>body. body \<noteq> []
      \<and> set body \<subseteq> set ''ABCDEFGHIJKLMNOPQRSTUVWXYZabcdefghijklmnopqrstuvwxyz0123456789._:-''
      \<and> (x = body \<or> x = body @ [CHR 0x0A]))" for x
  proof -
    have b: "list_all safe_char body \<longleftrightarrow>
        set body \<subseteq> set ''ABCDEFGHIJKLMNOPQRSTUVWXYZabcdefghijklmnopqrstuvwxyz0123456789._:-''" for body
      unfolding list_all_iff safe_char_iff by blast
    have "safe_signal_id x \<Longrightarrow> 1 \<le> length x" unfolding safe_signal_id_iff by (cases x) auto
    then show ?thesis unfolding safe_signal_id_iff b newline_char by blast
  qed
  have m: "make_signal s = Inr t \<longleftrightarrow> t = s\<lparr>sc_action := upper (strip (sc_action s))\<rparr>
     \<and> (safe_signal_id (sc_signal_id s) \<and> 1 \<le> length (sc_signal_id s)) \<and> length (sc_signal_id s) \<le> 160
     \<and> 1 \<le> length (sc_symbol s) \<and> length (sc_symbol s) \<le> 50
     \<and> upper (strip (sc_action s)) \<in> {''BUY'', ''SELL''}
     \<and> (\<exists>r. sc_risk_percent s = Fin r \<and> 0 < r \<and> r \<le> 100)
     \<and> (\<forall>p \<in> set_option (sc_stop_loss s) \<union> set_option (sc_take_profit s). \<exists>x. p = Fin x \<and> 0 < x)"
    by (auto simp: make_signal_def validate_signal_id_def validate_action_def length_between_def Let_def r o)
  show ?thesis unfolding m i ..
qed

theorem signal_accepted_iff_well_formed_witness:
  "make_signal (demo_signal\<lparr>sc_action := ''sell''\<rparr>) = Inr (demo_signal\<lparr>sc_action := ''SELL''\<rparr>)
   \<and> (\<exists>e. make_signal (demo_signal\<lparr>sc_signal_id := ''a/b''\<rparr>) = Inl e)"
proof (rule conjI)
  have "upper (strip ''sell'') = ''SELL''" by code_simp
  then show "make_signal (demo_signal\<lparr>sc_action := ''sell''\<rparr>) = Inr (demo_signal\<lparr>sc_action := ''SELL''\<rparr>)"
    unfolding signal_accepted_iff_well_formed by (simp add: demo_signal_def)
  have "make_signal (demo_signal\<lparr>sc_signal_id := ''a/b''\<rparr>) \<noteq> Inr t" for t
    unfolding signal_accepted_iff_well_formed by (auto simp: append_eq_Cons_conv Cons_eq_append_conv)
  then show "\<exists>e. make_signal (demo_signal\<lparr>sc_signal_id := ''a/b''\<rparr>) = Inl e"
    by (cases "make_signal (demo_signal\<lparr>sc_signal_id := ''a/b''\<rparr>)") auto
qed

text \<open>
  C37: The application starts only on a safe configuration. \<open>app\<close>, what \<open>create_app\<close> builds from the
  environment, succeeds if and only if the symbol map is absent or an object, every bound holds, the
  host is local unless remote binding is allowed, and live execution, if allowed, comes with a server
  and a login of digits; then the services get exactly these settings and the map of the file.
\<close>

theorem app_starts_iff_configuration_is_safe:
  "app now gateway map_file s = Inr svc \<longleftrightarrow>
     (\<exists>m. from_file map_file = Inr m
        \<and> svc = \<lparr>es_mt5 = gateway, es_now = now, es_symbol_mapper = m, es_settings = s\<rparr>)
     \<and> 1 \<le> cfg_port s \<and> cfg_port s \<le> 65535 \<and> 0 \<le> cfg_magic_number s
     \<and> (\<exists>r. cfg_max_risk_percent s = Fin r \<and> 0 < r \<and> r \<le> 100)
     \<and> (\<exists>r. cfg_max_daily_loss_percent s = Fin r \<and> 0 < r \<and> r \<le> 100)
     \<and> 1 \<le> cfg_max_open_positions s \<and> 1 \<le> cfg_max_trades_per_day s \<and> 1 \<le> cfg_max_spread_points s
     \<and> 1 \<le> cfg_max_signal_age_seconds s
     \<and> (cfg_host s \<in> {''127.0.0.1'', ''localhost'', ''::1''} \<or> cfg_allow_remote_binding s)
     \<and> (\<not> cfg_dry_run s \<and> cfg_live_execution_enabled s \<longrightarrow>
          strip (cfg_mt5_server s) \<noteq> [] \<and> isdigit (strip (cfg_mt5_login s)))"
proof -
  have r: "percent_field x \<longleftrightarrow> (\<exists>r. x = Fin r \<and> 0 < r \<and> r \<le> 100)" for x
    by (cases x) (auto simp: percent_field_def is_finite_def)
  show ?thesis
    by (auto simp: app_def create_app_def get_settings_def bindE_eq_Inr build_state_Inr make_settings_Inr fields_valid_def r live_execution_allowed_def)
qed

theorem app_starts_iff_configuration_is_safe_witness:
  "app demo_clock (Some (demo_sdk demo_answers)) (Some (JsonObject [(''XAUUSD'', JStr ''XAUUSDm'')])) live_settings
     = Inr live_service"
proof -
  have "isdigit (strip ''7'')" "strip ''Demo'' \<noteq> []" by code_simp+
  then show ?thesis
    unfolding app_starts_iff_configuration_is_safe
    by (simp add: live_settings_def default_settings_def demo_service_def from_file_def)
qed

section \<open>The API\<close>



text \<open>
  C39: GET requests are read-only. The status of a signal, the account, positions and orders snapshots
  and the status page never change the store and never send an order, whatever the terminal answers.
\<close>

theorem get_requests_are_read_only:
  "leaves_alone (api_get_signal sid) \<and> leaves_alone (api_account svc) \<and> leaves_alone (api_positions svc)
   \<and> leaves_alone (api_orders svc) \<and> leaves_alone (api_status svc running)"
  unfolding api_account_def api_positions_def api_orders_def api_status_def api_get_signal_def service_get_def Let_def
  by (intro conjI read_only_leaves_alone ro_or_503 ro_snapshots quiet_intros)

section \<open>The connection\<close>

text \<open>
  C40: Connecting is bounded. Whatever the terminal answers, at whatever point it is stopped,
  \<open>ensure_connected\<close> has called \<open>initialize\<close> at most three times, and nothing else but the
  probe and \<open>last_error\<close>.
\<close>

theorem at_most_three_connection_attempts:
  assumes "after (ensure_connected svc) tr q"
  shows "length (filter is_initialize (own_events tr)) \<le> 3
    \<and> (\<forall>e \<in> set (own_events tr). is_initialize e \<or> (\<exists>r. e = E_last_error r) \<or> (\<exists>r. e = E_account_info r))"
  using calls_ensure_connected [of svc] assms
  by (fastforce simp: calls_def connection_calls_def MAX_MT5_CONNECT_ATTEMPTS_def)

theorem at_most_three_connection_attempts_witness:
  "\<exists>(tr :: unit world trace). after (ensure_connected live_service) tr (Ret True) \<and> length (filter is_initialize (own_events tr)) \<le> 3"
proof -
  have "fst (run (ensure_connected live_service) (demo_world empty_db)) = Inr True"
    by (simp add: demo_eval)
  then obtain tr where "after (ensure_connected live_service) tr (Ret True)"
    using after_run [of "ensure_connected live_service" "demo_world empty_db"] by auto
  with at_most_three_connection_attempts [OF this] show ?thesis by blast
qed

end
